(* ===== verification/Prelude.thy ===== *)
theory Prelude
  imports Main "HOL-Library.AList" "HOL-Library.Char_ord" "HOL-Library.List_Lexorder"
begin

text \<open>
  What the components share.
  \<^item> Go maps. A \<open>map[K]V\<close> is an association list with distinct keys; \<open>gm_get\<close>,
    \<open>gm_put\<close>, \<open>gm_del\<close> are index, assignment and \<open>delete\<close>. The order of the list is the order
    in which a \<open>range\<close> loop visits the map. Go leaves that order open, so a theorem about a
    loop quantifies over every list that holds the same pairs.
  \<^item> Time. A \<open>time.Time\<close> or \<open>time.Duration\<close> is an \<open>int\<close> of nanoseconds; the zero
    \<open>time.Time\<close> is 0.
  \<^item> Reachable states of a step relation, with the locale \<open>invariant_of\<close>.
\<close>

named_theorems gomap "rewrite rules for the operations on Go maps"

section \<open>Time\<close>

type_synonym gotime = int

definition Second :: int where "Second = 1000000000"
definition Minute :: int where "Minute = 60 * Second"
definition Hour :: int where "Hour = 60 * Minute"

lemma duration_pos [simp]: "0 < Second" "0 < Minute" "0 < Hour"
  by (simp_all add: Second_def Minute_def Hour_def)

section \<open>Go maps\<close>

type_synonym ('k, 'v) gomap = "('k \<times> 'v) list"

definition gm_get :: "('k, 'v) gomap \<Rightarrow> 'k \<Rightarrow> 'v option" where
  "gm_get m k = map_of m k"

definition gm_put :: "'k \<Rightarrow> 'v \<Rightarrow> ('k, 'v) gomap \<Rightarrow> ('k, 'v) gomap" where
  "gm_put k v m = AList.update k v m"

definition gm_del :: "'k \<Rightarrow> ('k, 'v) gomap \<Rightarrow> ('k, 'v) gomap" where
  "gm_del k m = filter (\<lambda>kv. fst kv \<noteq> k) m"

definition gm_keys :: "('k, 'v) gomap \<Rightarrow> 'k list" where
  "gm_keys m = map fst m"

definition gm_len :: "('k, 'v) gomap \<Rightarrow> int" where
  "gm_len m = int (length m)"

definition gm_wf :: "('k, 'v) gomap \<Rightarrow> bool" where
  "gm_wf m \<longleftrightarrow> distinct (map fst m)"

text \<open>Indexing a map of a type whose zero value is \<open>z\<close>: an absent key reads as \<open>z\<close>.\<close>

definition gm_get0 :: "'v \<Rightarrow> ('k, 'v) gomap \<Rightarrow> 'k \<Rightarrow> 'v" where
  "gm_get0 z m k = (case gm_get m k of None \<Rightarrow> z | Some v \<Rightarrow> v)"

lemma gm_get_empty [simp, gomap]: "gm_get [] k = None"
  by (simp add: gm_get_def)

lemma gm_get_put [simp, gomap]: "gm_get (gm_put k v m) k' = (if k' = k then Some v else gm_get m k')"
  by (simp add: gm_get_def gm_put_def update_conv)

lemma gm_get_del [simp, gomap]: "gm_get (gm_del k m) k' = (if k' = k then None else gm_get m k')"
  by (induction m) (auto simp: gm_get_def gm_del_def)

lemma gm_wf_empty [simp, gomap]: "gm_wf []"
  by (simp add: gm_wf_def)

lemma gm_wf_put [simp, gomap]: "gm_wf m \<Longrightarrow> gm_wf (gm_put k v m)"
  by (simp add: gm_wf_def gm_put_def distinct_update)

lemma gm_wf_filter: "gm_wf m \<Longrightarrow> gm_wf (filter P m)"
  by (induction m) (auto simp: gm_wf_def)

lemma gm_wf_del [simp, gomap]: "gm_wf m \<Longrightarrow> gm_wf (gm_del k m)"
  by (simp add: gm_del_def gm_wf_filter)

lemma gm_len_nonneg [simp]: "0 \<le> gm_len m"
  by (simp add: gm_len_def)

lemma gm_get_in: "gm_get m k = Some v \<Longrightarrow> (k, v) \<in> set m"
  by (simp add: gm_get_def map_of_SomeD)

lemma gm_in_get: "gm_wf m \<Longrightarrow> (k, v) \<in> set m \<Longrightarrow> gm_get m k = Some v"
  by (simp add: gm_get_def gm_wf_def)

lemma gm_get_iff: "gm_wf m \<Longrightarrow> gm_get m k = Some v \<longleftrightarrow> (k, v) \<in> set m"
  by (auto intro: gm_get_in gm_in_get)

lemma gm_get_None: "gm_get m k = None \<longleftrightarrow> k \<notin> fst ` set m"
  by (simp add: gm_get_def map_of_eq_None_iff)

lemma gm_get_filter:
  assumes "gm_wf m"
  shows "gm_get (filter P m) k =
    (case gm_get m k of None \<Rightarrow> None | Some v \<Rightarrow> if P (k, v) then Some v else None)"
  using assms
proof (induction m)
  case Nil
  then show ?case by simp
next
  case (Cons a m)
  obtain k' v where a: "a = (k', v)" by (cases a)
  with Cons.prems have "gm_wf m" and new: "k' \<notin> fst ` set m"
    by (auto simp: gm_wf_def)
  then have none: "gm_get (filter P m) k' = None" "gm_get m k' = None"
    by (auto simp: gm_get_None)
  show ?case
    using Cons.IH [OF \<open>gm_wf m\<close>] none a by (auto simp: gm_get_def)
qed

lemma gm_len_filter: "gm_len (filter P m) \<le> gm_len m"
  by (simp add: gm_len_def)

lemma gm_len_del: "gm_len (gm_del k m) \<le> gm_len m"
  by (simp add: gm_del_def gm_len_filter)

lemma gm_len_put: "gm_len (gm_put k v m) = (if gm_get m k = None then gm_len m + 1 else gm_len m)"
  by (induction m) (auto simp: gm_len_def gm_put_def gm_get_def)

lemma gm_put_in: "(k', v') \<in> set (gm_put k v m) \<Longrightarrow> (k', v') = (k, v) \<or> (k', v') \<in> set m"
  by (induction m) (auto simp: gm_put_def split: if_splits)

lemma gm_del_in: "kv \<in> set (gm_del k m) \<longleftrightarrow> kv \<in> set m \<and> fst kv \<noteq> k"
  by (auto simp: gm_del_def)

lemma gm_del_id: "gm_get m k = None \<Longrightarrow> gm_del k m = m"
  by (auto simp: gm_del_def gm_get_None intro!: filter_True)

lemma gm_len_del_in:
  assumes "kv \<in> set m" and "gm_wf m"
  shows "gm_len (gm_del (fst kv) m) = gm_len m - 1"
  using assms
proof (induction m)
  case Nil
  then show ?case by simp
next
  case (Cons a m)
  show ?case
  proof (cases "fst a = fst kv")
    case True
    with Cons.prems have "gm_get m (fst kv) = None"
      by (auto simp: gm_wf_def gm_get_None)
    with True show ?thesis by (simp add: gm_del_def gm_len_def gm_del_id [unfolded gm_del_def])
  next
    case False
    with Cons show ?thesis by (auto simp: gm_del_def gm_len_def gm_wf_def)
  qed
qed

lemma gm_get_wf_set_eq: "gm_wf m \<Longrightarrow> gm_wf m' \<Longrightarrow> set m = set m' \<Longrightarrow> gm_get m k = gm_get m' k"
  by (metis gm_get_in gm_in_get not_None_eq)

lemma gm_wf_length_set_eq: "gm_wf m \<Longrightarrow> gm_wf m' \<Longrightarrow> set m = set m' \<Longrightarrow> length m = length m'"
  by (metis distinct_card distinct_map gm_wf_def)

section \<open>Reachable states\<close>

text \<open>
  \<open>reach init step s\<close>: the state \<open>s\<close> can be reached from a state in \<open>init\<close> by steps of
  \<open>step\<close>. A client states its invariant for single steps and gets it for every reachable
  state from the locale.
\<close>

inductive reach :: "('s \<Rightarrow> bool) \<Rightarrow> ('s \<Rightarrow> 's \<Rightarrow> bool) \<Rightarrow> 's \<Rightarrow> bool" for init step where
  reach_init: "init s \<Longrightarrow> reach init step s"
| reach_step: "reach init step s \<Longrightarrow> step s t \<Longrightarrow> reach init step t"

locale invariant_of =
  fixes init :: "'s \<Rightarrow> bool" and step :: "'s \<Rightarrow> 's \<Rightarrow> bool" and inv :: "'s \<Rightarrow> bool"
  assumes inv_init: "init s \<Longrightarrow> inv s"
    and inv_step: "inv s \<Longrightarrow> step s t \<Longrightarrow> inv t"
begin

lemma inv_reach: "reach init step s \<Longrightarrow> inv s"
  by (induction rule: reach.induct) (auto intro: inv_init inv_step)

end

end
