(* ===== verification/Eviction.thy ===== *)
theory Eviction
  imports Prelude
begin

text \<open>
  The loop \<open>evictEntriesLocked\<close> and \<open>evictPendingLocked\<close> of \<open>turnstate/cache.go\<close> share: while
  the table is at capacity, range over it for its oldest pair and delete that pair. \<open>lt x y\<close>
  is the comparison of the loop, "\<open>x\<close> is older than \<open>y\<close>".

  \<open>evict_go\<close> is the loop as written, \<open>None\<close> when it does not end; \<open>evict_loop\<close> is the total
  function the model computes with. They agree for a capacity of at least one, which the
  constructor guarantees. The locale \<open>eviction_order\<close> states what the comparison has to
  satisfy; inside it the result is shown to be independent of Go's iteration order, to
  leave room for one more pair and to remove the oldest pairs.
\<close>

fun pick_oldest :: "('a \<Rightarrow> 'a \<Rightarrow> bool) \<Rightarrow> 'a option \<Rightarrow> 'a list \<Rightarrow> 'a option" where
  "pick_oldest lt best [] = best"
| "pick_oldest lt best (x # xs) =
     pick_oldest lt
       (case best of None \<Rightarrow> Some x | Some b \<Rightarrow> if lt x b then Some x else Some b) xs"

lemma pick_oldest_in:
  "pick_oldest lt best xs = Some x \<Longrightarrow> x \<in> set xs \<or> best = Some x"
  by (induction lt best xs rule: pick_oldest.induct) (auto split: option.splits if_splits)

lemma pick_oldest_None: "pick_oldest lt best xs = None \<longleftrightarrow> best = None \<and> xs = []"
  by (induction lt best xs rule: pick_oldest.induct) (auto split: option.splits if_splits)

lemma length_gm_del_less: "kv \<in> set m \<Longrightarrow> length (gm_del (fst kv) m) < length m"
  unfolding gm_del_def by (rule length_filter_less) auto

function evict_loop ::
  "('k \<times> 'v \<Rightarrow> 'k \<times> 'v \<Rightarrow> bool) \<Rightarrow> int \<Rightarrow> ('k, 'v) gomap \<Rightarrow> ('k, 'v) gomap" where
  "evict_loop lt cap m =
     (if cap \<le> gm_len m then
        (case pick_oldest lt None m of
           None \<Rightarrow> m
         | Some kv \<Rightarrow> evict_loop lt cap (gm_del (fst kv) m))
      else m)"
  by pat_completeness auto
termination
  by (relation "measure (\<lambda>(lt, cap, m). length m)")
    (auto dest!: pick_oldest_in intro: length_gm_del_less)

declare evict_loop.simps [simp del]

partial_function (option) evict_go ::
  "('k \<times> 'v \<Rightarrow> 'k \<times> 'v \<Rightarrow> bool) \<Rightarrow> int \<Rightarrow> ('k, 'v) gomap \<Rightarrow> ('k, 'v) gomap option" where
  "evict_go lt cap m =
     (if cap \<le> gm_len m then
        evict_go lt cap
          (case pick_oldest lt None m of None \<Rightarrow> m | Some kv \<Rightarrow> gm_del (fst kv) m)
      else Some m)"

text \<open>With a capacity of at least one the loop of the source ends.\<close>

lemma evict_go_total: "1 \<le> cap \<Longrightarrow> evict_go lt cap m = Some (evict_loop lt cap m)"
proof (induction lt cap m rule: evict_loop.induct)
  case (1 lt cap m)
  show ?case
  proof (cases "pick_oldest lt None m")
    case None
    with "1.prems" show ?thesis
      by (simp add: pick_oldest_None gm_len_def evict_go.simps evict_loop.simps)
  next
    case (Some kv)
    with 1 show ?thesis
      by (simp add: evict_go.simps [of lt cap m] evict_loop.simps [of lt cap m])
  qed
qed

lemma evict_loop_subset: "set (evict_loop lt cap m) \<subseteq> set m"
proof (induction lt cap m rule: evict_loop.induct)
  case (1 lt cap m)
  then show ?case
    by (subst evict_loop.simps) (auto split: option.splits simp: gm_del_in dest!: subsetD)
qed

lemma evict_loop_wf: "gm_wf m \<Longrightarrow> gm_wf (evict_loop lt cap m)"
proof (induction lt cap m rule: evict_loop.induct)
  case (1 lt cap m)
  then show ?case
    by (subst evict_loop.simps) (auto split: option.splits)
qed

lemma evict_loop_room: "1 \<le> cap \<Longrightarrow> gm_len (evict_loop lt cap m) < cap"
proof (induction lt cap m rule: evict_loop.induct)
  case (1 lt cap m)
  then show ?case
    by (subst evict_loop.simps) (auto split: option.splits simp: pick_oldest_None gm_len_def)
qed

lemma evict_loop_id: "gm_len m < cap \<Longrightarrow> evict_loop lt cap m = m"
  by (simp add: evict_loop.simps)

lemma evict_loop_get:
  assumes "gm_wf m" and "gm_get (evict_loop lt cap m) k = Some v"
  shows "gm_get m k = Some v"
  using assms evict_loop_subset [of lt cap m] by (metis gm_get_in gm_in_get subsetD)

lemma evict_loop_length:
  "1 \<le> cap \<Longrightarrow> cap \<le> gm_len m \<Longrightarrow> gm_wf m \<Longrightarrow> gm_len (evict_loop lt cap m) = cap - 1"
proof (induction lt cap m rule: evict_loop.induct)
  case (1 lt cap m)
  then obtain kv where kv: "pick_oldest lt None m = Some kv"
    by (cases "pick_oldest lt None m") (auto simp: pick_oldest_None gm_len_def)
  then have "kv \<in> set m" by (auto dest: pick_oldest_in)
  then have len: "gm_len (gm_del (fst kv) m) = gm_len m - 1"
    using \<open>gm_wf m\<close> by (rule gm_len_del_in)
  have step: "evict_loop lt cap m = evict_loop lt cap (gm_del (fst kv) m)"
    using "1.prems" kv by (simp add: evict_loop.simps [of lt cap m])
  show ?case
  proof (cases "cap \<le> gm_len m - 1")
    case True
    with 1 kv len step show ?thesis by simp
  next
    case False
    with "1.prems" len step show ?thesis by (simp add: evict_loop_id)
  qed
qed

locale eviction_order =
  fixes lt :: "'k \<times> 'v \<Rightarrow> 'k \<times> 'v \<Rightarrow> bool"
  assumes lt_irrefl: "\<not> lt x x"
    and lt_trans: "lt x y \<Longrightarrow> lt y z \<Longrightarrow> lt x z"
    and lt_total: "fst x \<noteq> fst y \<Longrightarrow> lt x y \<or> lt y x"
begin

lemma pick_oldest_least_aux:
  assumes "distinct (map fst (b # xs))" and "pick_oldest lt (Some b) xs = Some x"
  shows "\<forall>y \<in> set (b # xs). y = x \<or> lt x y"
  using assms
proof (induction xs arbitrary: b)
  case Nil
  then show ?case by simp
next
  case (Cons a xs)
  define c where "c = (if lt a b then a else b)"
  have "distinct (map fst (c # xs))" and "pick_oldest lt (Some c) xs = Some x"
    using Cons.prems by (auto simp: c_def split: if_splits)
  then have IH: "\<forall>y \<in> set (c # xs). y = x \<or> lt x y" by (rule Cons.IH)
  have "lt a b \<or> lt b a" using Cons.prems lt_total [of a b] by auto
  then have "\<forall>y \<in> {a, b}. y = c \<or> lt c y" by (auto simp: c_def)
  with IH show ?case by (auto intro: lt_trans)
qed

lemma pick_oldest_least:
  assumes "gm_wf m" and "pick_oldest lt None m = Some x" and "y \<in> set m" and "y \<noteq> x"
  shows "lt x y"
  using assms pick_oldest_least_aux [of "hd m" "tl m" x]
  by (cases m) (auto simp: gm_wf_def)

lemma lt_asym: "lt x y \<Longrightarrow> \<not> lt y x"
  using lt_irrefl lt_trans by blast

lemma pick_oldest_order_free:
  assumes "gm_wf m" and "gm_wf m'" and "set m = set m'"
  shows "pick_oldest lt None m = pick_oldest lt None m'"
proof (cases "pick_oldest lt None m")
  case None
  with assms show ?thesis by (simp add: pick_oldest_None)
next
  case (Some x)
  with assms obtain x' where x': "pick_oldest lt None m' = Some x'"
    by (cases "pick_oldest lt None m'") (auto simp: pick_oldest_None)
  have "x \<in> set m" and "x' \<in> set m'" using Some x' by (auto dest: pick_oldest_in)
  then have "x = x'"
    using assms Some x' pick_oldest_least lt_asym by metis
  with Some x' show ?thesis by simp
qed

lemma evict_loop_order_free:
  assumes "gm_wf m" and "gm_wf m'" and "set m = set m'"
  shows "set (evict_loop lt cap m) = set (evict_loop lt cap m')"
  using assms
proof (induction "length m" arbitrary: m m' rule: less_induct)
  case less
  have len: "gm_len m = gm_len m'"
    unfolding gm_len_def using gm_wf_length_set_eq [OF less.prems] by (rule arg_cong)
  show ?case
  proof (cases "pick_oldest lt None m")
    case None
    moreover from this have "pick_oldest lt None m' = None"
      using pick_oldest_order_free [OF less.prems] by simp
    ultimately show ?thesis
      using less.prems(3)
      by (simp only: evict_loop.simps [of lt cap m] evict_loop.simps [of lt cap m']
          option.case if_cancel)
  next
    case (Some kv)
    then have "kv \<in> set m" by (auto dest: pick_oldest_in)
    then have shorter: "length (gm_del (fst kv) m) < length m" by (rule length_gm_del_less)
    have same: "set (gm_del (fst kv) m) = set (gm_del (fst kv) m')"
      using less.prems(3) by (simp add: gm_del_def)
    have rest: "set (evict_loop lt cap (gm_del (fst kv) m)) =
        set (evict_loop lt cap (gm_del (fst kv) m'))"
      by (rule less.hyps [OF shorter gm_wf_del gm_wf_del same]) (rule less.prems)+
    have Some': "pick_oldest lt None m' = Some kv"
      using pick_oldest_order_free [OF less.prems] Some by simp
    show ?thesis
    proof (cases "cap \<le> gm_len m")
      case True
      with Some Some' len rest show ?thesis
        by (simp only: evict_loop.simps [of lt cap m] evict_loop.simps [of lt cap m']
            option.case if_True)
    next
      case False
      with len less.prems(3) show ?thesis
        by (simp add: evict_loop_id)
    qed
  qed
qed

lemma evict_loop_oldest:
  assumes "gm_wf m" and "x \<in> set m" and "x \<notin> set (evict_loop lt cap m)"
    and "y \<in> set (evict_loop lt cap m)"
  shows "lt x y"
  using assms
proof (induction "length m" arbitrary: m rule: less_induct)
  case less
  show ?case
  proof (cases "cap \<le> gm_len m \<and> pick_oldest lt None m \<noteq> None")
    case False
    then have "evict_loop lt cap m = m"
      by (cases "pick_oldest lt None m") (auto simp: evict_loop.simps [of lt cap m])
    with less.prems show ?thesis by simp
  next
    case True
    then obtain kv where kv: "pick_oldest lt None m = Some kv" and cap: "cap \<le> gm_len m"
      by auto
    have eq: "evict_loop lt cap m = evict_loop lt cap (gm_del (fst kv) m)"
      using kv cap by (simp add: evict_loop.simps [of lt cap m])
    have y: "y \<in> set (gm_del (fst kv) m)"
      using less.prems(4) eq evict_loop_subset [of lt cap "gm_del (fst kv) m"] by auto
    show ?thesis
    proof (cases "fst x = fst kv")
      case True
      have "x = kv"
        using True less.prems(1,2) kv gm_in_get
        by (metis option.inject pick_oldest_in option.distinct(1) prod.collapse)
      moreover have "y \<noteq> kv" and "y \<in> set m" using y by (auto simp: gm_del_in)
      ultimately show ?thesis using less.prems(1) kv pick_oldest_least by blast
    next
      case False
      have "kv \<in> set m" using kv by (auto dest: pick_oldest_in)
      then have "length (gm_del (fst kv) m) < length m" by (rule length_gm_del_less)
      then show ?thesis
        using less.prems False eq by (intro less.hyps) (auto simp: gm_del_in)
    qed
  qed
qed

end

end
