(* ===== verification/Go_Text.thy ===== *)
theory Go_Text
  imports Prelude
begin

text \<open>
  Go strings and the functions of the standard packages \<open>strings\<close>, \<open>bytes\<close>, \<open>unicode/utf8\<close>
  and \<open>net/http\<close> that the program uses. A Go string or \<open>[]byte\<close> is a \<open>string\<close>, one
  \<open>char\<close> per byte, so \<open>length\<close> is \<open>len\<close> and the lexicographic order on strings is Go's
  \<open><\<close>.

  Case mapping and folding work on runes. \<open>ToLower\<close> maps the ASCII letters and the two
  other runes whose lower case is an ASCII letter (U+0130 and U+212A); \<open>EqualFold\<close> folds
  the ASCII letters and the two other runes that fold to one (U+017F and U+212A). Against an
  ASCII string, which is how the program compares plans and header names, this is exactly
  what Go computes; non-ASCII letters are otherwise compared as they are.
  \<open>TrimSpace\<close> removes every rune of \<open>unicode.IsSpace\<close> in its UTF-8 encoding.
\<close>

definition byte :: "char \<Rightarrow> nat" where
  "byte c = of_char c"

definition is_lower :: "char \<Rightarrow> bool" where
  "is_lower c \<longleftrightarrow> 97 \<le> byte c \<and> byte c \<le> 122"

definition is_upper :: "char \<Rightarrow> bool" where
  "is_upper c \<longleftrightarrow> 65 \<le> byte c \<and> byte c \<le> 90"

definition is_digit :: "char \<Rightarrow> bool" where
  "is_digit c \<longleftrightarrow> 48 \<le> byte c \<and> byte c \<le> 57"

definition lower_byte :: "char \<Rightarrow> char" where
  "lower_byte c = (if is_upper c then char_of (byte c + 32) else c)"

definition upper_byte :: "char \<Rightarrow> char" where
  "upper_byte c = (if is_lower c then char_of (byte c - 32) else c)"

definition HasPrefix :: "string \<Rightarrow> string \<Rightarrow> bool" where
  "HasPrefix s p \<longleftrightarrow> take (length p) s = p"

text \<open>Lower-casing, rune by rune; \<open>tbl\<close> gives the multi-byte runes that map to an ASCII letter.\<close>

fun map_runes :: "(string \<times> char) list \<Rightarrow> string \<Rightarrow> string" where
  "map_runes tbl [] = []"
| "map_runes tbl (c # cs) =
     (case find (\<lambda>pr. HasPrefix (c # cs) (fst pr)) tbl of
        Some pr \<Rightarrow> snd pr # map_runes tbl (drop (length (fst pr) - 1) cs)
      | None \<Rightarrow> lower_byte c # map_runes tbl cs)"

definition ToLower :: "string \<Rightarrow> string" where
  "ToLower = map_runes [([CHR 0xC4, CHR 0xB0], CHR ''i''), ([CHR 0xE2, CHR 0x84, CHR 0xAA], CHR ''k'')]"

definition fold_case :: "string \<Rightarrow> string" where
  "fold_case = map_runes [([CHR 0xC5, CHR 0xBF], CHR ''s''), ([CHR 0xE2, CHR 0x84, CHR 0xAA], CHR ''k'')]"

definition EqualFold :: "string \<Rightarrow> string \<Rightarrow> bool" where
  "EqualFold s t \<longleftrightarrow> fold_case s = fold_case t"

lemma EqualFold_refl [simp]: "EqualFold s s"
  by (simp add: EqualFold_def)

lemma EqualFold_sym: "EqualFold s t \<longleftrightarrow> EqualFold t s"
  by (auto simp: EqualFold_def)

section \<open>TrimSpace\<close>

definition ascii_spaces :: "string list" where
  "ascii_spaces = [[CHR 0x20], [CHR 0x09], [CHR 0x0A], [CHR 0x0B], [CHR 0x0C], [CHR 0x0D]]"

definition space_runes :: "string list" where
  "space_runes = ascii_spaces @
     [[CHR 0xC2, CHR 0x85], [CHR 0xC2, CHR 0xA0], [CHR 0xE1, CHR 0x9A, CHR 0x80]] @
     map (\<lambda>b. [CHR 0xE2, CHR 0x80, b])
       [CHR 0x80, CHR 0x81, CHR 0x82, CHR 0x83, CHR 0x84, CHR 0x85, CHR 0x86, CHR 0x87,
        CHR 0x88, CHR 0x89, CHR 0x8A, CHR 0xA8, CHR 0xA9, CHR 0xAF] @
     [[CHR 0xE2, CHR 0x81, CHR 0x9F], [CHR 0xE3, CHR 0x80, CHR 0x80]]"

lemma find_SomeD: "find P xs = Some x \<Longrightarrow> x \<in> set xs \<and> P x"
  by (auto simp: find_Some_iff)

function trim_prefixes :: "string list \<Rightarrow> string \<Rightarrow> string" where
  "trim_prefixes ps s =
     (case find (\<lambda>p. p \<noteq> [] \<and> HasPrefix s p) ps of
        None \<Rightarrow> s
      | Some p \<Rightarrow> trim_prefixes ps (drop (length p) s))"
  by pat_completeness auto
termination
proof (relation "measure (\<lambda>(ps, s). length s)")
  fix ps s p
  assume "find (\<lambda>p. p \<noteq> [] \<and> HasPrefix s p) ps = Some p"
  then have "p \<noteq> []" and "take (length p) s = p"
    using find_SomeD by (fastforce simp: HasPrefix_def)+
  then show "((ps, drop (length p) s), (ps, s)) \<in> measure (\<lambda>(ps, s). length s)"
    by (cases s) auto
qed simp

declare trim_prefixes.simps [simp del]

definition TrimSpace :: "string \<Rightarrow> string" where
  "TrimSpace s = rev (trim_prefixes (map rev space_runes) (rev (trim_prefixes space_runes s)))"

lemma trim_prefixes_empty [simp]: "trim_prefixes ps [] = []"
proof -
  have "find (\<lambda>p. p \<noteq> [] \<and> HasPrefix [] p) ps = None"
    by (auto simp: find_None_iff HasPrefix_def)
  then show ?thesis by (simp add: trim_prefixes.simps)
qed

lemma TrimSpace_empty [simp]: "TrimSpace [] = []"
  by (simp add: TrimSpace_def)

lemma trim_prefixes_length: "length (trim_prefixes ps s) \<le> length s"
proof (induction ps s rule: trim_prefixes.induct)
  case (1 ps s)
  show ?case
  proof (cases "find (\<lambda>p. p \<noteq> [] \<and> HasPrefix s p) ps")
    case None
    then show ?thesis by (simp add: trim_prefixes.simps [of ps s])
  next
    case (Some p)
    with "1.IH" have "length (trim_prefixes ps (drop (length p) s)) \<le> length s - length p"
      by simp
    with Some show ?thesis by (simp add: trim_prefixes.simps [of ps s])
  qed
qed

lemma TrimSpace_length: "length (TrimSpace s) \<le> length s"
  using trim_prefixes_length [of "map rev space_runes" "rev (trim_prefixes space_runes s)"]
    trim_prefixes_length [of space_runes s]
  by (simp add: TrimSpace_def)

section \<open>Splitting and trimming\<close>

text \<open>\<open>Split\<close> at a one-byte separator, and \<open>TrimRight\<close> with a one-byte cutset.\<close>

fun split_on :: "char \<Rightarrow> string \<Rightarrow> string list" where
  "split_on d [] = [[]]"
| "split_on d (c # cs) =
     (if c = d then [] # split_on d cs
      else (case split_on d cs of [] \<Rightarrow> [[c]] | p # ps \<Rightarrow> (c # p) # ps))"

definition trim_right :: "char \<Rightarrow> string \<Rightarrow> string" where
  "trim_right d s = rev (dropWhile (\<lambda>c. c = d) (rev s))"

section \<open>Header names\<close>

type_synonym header = "(string, string list) gomap"

definition valid_header_byte :: "char \<Rightarrow> bool" where
  "valid_header_byte c \<longleftrightarrow> is_lower c \<or> is_upper c \<or> is_digit c \<or> c \<in> set ''!#$%&*+-.^_|~'' \<or>
     c = CHR 0x27 \<or> c = CHR 0x60"

fun canonical_mime :: "bool \<Rightarrow> string \<Rightarrow> string" where
  "canonical_mime up [] = []"
| "canonical_mime up (c # cs) =
     (if up then upper_byte c else lower_byte c) # canonical_mime (c = CHR ''-'') cs"

definition CanonicalHeaderKey :: "string \<Rightarrow> string" where
  "CanonicalHeaderKey s = (if list_all valid_header_byte s then canonical_mime True s else s)"

end
