(* ===== verification/Plans.thy ===== *)
theory Plans
  imports Go_Text
begin

text \<open>
  Plan families and state tokens, from the end of \<open>internal/prewarm/config.go\<close>. A plan name
  belongs to the family \<open>pro\<close> (292-byte states) or \<open>team\<close> (332-byte states); any other name
  belongs to none.
\<close>

definition pro_plans :: "string list" where
  "pro_plans = [''pro'', ''plus'', ''free'', ''individual'']"

definition team_plans :: "string list" where
  "team_plans = [''team'', ''business'', ''self_serve_business_prolite'']"

definition CanonicalPlan :: "string \<Rightarrow> string" where
  "CanonicalPlan raw =
     (let p = ToLower (TrimSpace raw) in
      if p \<in> set pro_plans then ''pro''
      else if p \<in> set team_plans then ''team''
      else [])"

definition PlanMatches :: "string \<Rightarrow> string \<Rightarrow> bool" where
  "PlanMatches raw expected =
     (if TrimSpace raw = [] then True
      else CanonicalPlan raw \<noteq> [] \<and> CanonicalPlan raw = expected)"

definition token_char :: "char \<Rightarrow> bool" where
  "token_char c \<longleftrightarrow> is_lower c \<or> is_upper c \<or> is_digit c \<or> c = CHR ''_'' \<or> c = CHR ''-'' \<or> c = CHR ''=''"

definition validToken :: "string \<Rightarrow> int \<Rightarrow> bool" where
  "validToken s n \<longleftrightarrow>
     int (length s) = n \<and> HasPrefix s ''gAAAAA'' \<and> list_all token_char s"

definition ValidState :: "string \<Rightarrow> string \<Rightarrow> bool" where
  "ValidState s plan =
     (if plan = ''team'' then validToken s 332
      else if plan \<noteq> ''pro'' then False
      else validToken s 292)"

lemma CanonicalPlan_range: "CanonicalPlan raw \<in> {[], ''pro'', ''team''}"
  by (auto simp: CanonicalPlan_def Let_def)

lemma ValidState_plan: "ValidState s plan \<Longrightarrow> plan = ''pro'' \<or> plan = ''team''"
  by (auto simp: ValidState_def split: if_splits)

lemma ValidState_length:
  "ValidState s plan \<Longrightarrow> int (length s) = (if plan = ''team'' then 332 else 292)"
  by (auto simp: ValidState_def validToken_def split: if_splits)

lemma PlanMatches_known: "PlanMatches raw p \<Longrightarrow> CanonicalPlan raw \<noteq> [] \<Longrightarrow> CanonicalPlan raw = p"
  by (auto simp: PlanMatches_def CanonicalPlan_def Let_def ToLower_def pro_plans_def team_plans_def
      split: if_splits)

end
