(* ===== verification/Cache.thy ===== *)
theory Cache
  imports Eviction Plans
begin

text \<open>
  The passive cache, \<open>internal/turnstate/cache.go\<close>: the states captured from responses by
  account and model (\<open>entries\<close>) and the keys of the requests in flight (\<open>pending\<close>). Every
  exported method holds the mutex for its whole body, so one method is one function from the
  cache to the cache, with the reading of \<open>c.now()\<close> as an argument.

  The invariant \<open>cache_inv\<close> holds after \<open>NewCache\<close> and every method keeps it. A run of
  the cache is a list of timed calls (\<open>cache_run\<close>); \<open>cache_provenance\<close> says where a
  cached value comes from.
\<close>

section \<open>Data\<close>

definition StateLength :: int where "StateLength = 292"
definition StateLengthTeam :: int where "StateLengthTeam = 332"
definition stateTTL :: int where "stateTTL = Hour"
definition pendingTTL :: int where "pendingTTL = 2 * Hour"

definition defaultAcceptedLengths :: "int list" where
  "defaultAcceptedLengths = [StateLength, StateLengthTeam]"

definition TurnStateHeader :: string where "TurnStateHeader = ''X-Codex-Turn-State''"
definition PlanTypeHeader :: string where "PlanTypeHeader = ''X-Codex-Plan-Type''"

datatype CacheKey = CacheKey (AuthID: string) (Model: string)

definition cacheKeyLess :: "CacheKey \<Rightarrow> CacheKey \<Rightarrow> bool" where
  "cacheKeyLess left right =
     (if AuthID left \<noteq> AuthID right then AuthID left < AuthID right else Model left < Model right)"

instantiation CacheKey :: linorder
begin

definition less_CacheKey :: "CacheKey \<Rightarrow> CacheKey \<Rightarrow> bool" where
  "less_CacheKey = cacheKeyLess"

definition less_eq_CacheKey :: "CacheKey \<Rightarrow> CacheKey \<Rightarrow> bool" where
  "less_eq_CacheKey k k' \<longleftrightarrow> k = k' \<or> cacheKeyLess k k'"

instance
proof
  fix x y z :: CacheKey
  show "(x < y) = (x \<le> y \<and> \<not> y \<le> x)"
    by (auto simp: less_CacheKey_def less_eq_CacheKey_def cacheKeyLess_def split: if_splits)
  show "x \<le> x" by (simp add: less_eq_CacheKey_def)
  show "x \<le> z" if "x \<le> y" "y \<le> z"
    using that by (auto simp: less_eq_CacheKey_def cacheKeyLess_def split: if_splits)
  show "x = y" if "x \<le> y" "y \<le> x"
    using that by (auto simp: less_eq_CacheKey_def cacheKeyLess_def split: if_splits)
  show "x \<le> y \<or> y \<le> x"
    by (cases x; cases y) (auto simp: less_eq_CacheKey_def cacheKeyLess_def)
qed

end

record stateEntry =
  se_value :: string
  se_capturedAt :: gotime
  se_expiresAt :: gotime

record pendingBinding =
  pb_key :: CacheKey
  pb_planType :: string
  pb_createdAt :: gotime
  pb_expiresAt :: gotime

record Cache =
  maxEntries :: int
  maxPendingEntries :: int
  acceptedLengths :: "int list"
  entries :: "(CacheKey, stateEntry) gomap"
  pending :: "(string, pendingBinding) gomap"

section \<open>Operations\<close>

definition NewCache :: "int \<Rightarrow> int \<Rightarrow> int list \<Rightarrow> Cache" where
  "NewCache maxE maxP lens =
     (let lengths = filter (\<lambda>l. 0 < l) lens in
      \<lparr>maxEntries = (if maxE < 1 then 1 else maxE),
       maxPendingEntries = (if maxP < 1 then 1 else maxP),
       acceptedLengths = (if lengths = [] then defaultAcceptedLengths else lengths),
       entries = [], pending = []\<rparr>)"

definition validKey :: "CacheKey \<Rightarrow> bool" where
  "validKey key \<longleftrightarrow> AuthID key \<noteq> [] \<and> Model key \<noteq> []"

definition BindPlan :: "string \<Rightarrow> string \<Rightarrow> Cache \<Rightarrow> Cache" where
  "BindPlan requestID planType c =
     (if requestID = [] \<or> planType = [] then c
      else case gm_get (pending c) requestID of
             None \<Rightarrow> c
           | Some b \<Rightarrow> c\<lparr>pending := gm_put requestID (b\<lparr>pb_planType := planType\<rparr>) (pending c)\<rparr>)"

definition purgeExpiredLocked :: "gotime \<Rightarrow> Cache \<Rightarrow> Cache" where
  "purgeExpiredLocked now c =
     c\<lparr>entries := filter (\<lambda>(k, e). now < se_expiresAt e) (entries c),
       pending := filter (\<lambda>(r, b). now < pb_expiresAt b) (pending c)\<rparr>"

definition entryOlder :: "CacheKey \<times> stateEntry \<Rightarrow> CacheKey \<times> stateEntry \<Rightarrow> bool" where
  "entryOlder x y \<longleftrightarrow>
     se_capturedAt (snd x) < se_capturedAt (snd y) \<or>
     (se_capturedAt (snd x) = se_capturedAt (snd y) \<and> cacheKeyLess (fst x) (fst y))"

definition evictEntriesLocked :: "Cache \<Rightarrow> Cache" where
  "evictEntriesLocked c = c\<lparr>entries := evict_loop entryOlder (maxEntries c) (entries c)\<rparr>"

definition pendingOlder :: "string \<times> pendingBinding \<Rightarrow> string \<times> pendingBinding \<Rightarrow> bool" where
  "pendingOlder x y \<longleftrightarrow>
     pb_createdAt (snd x) < pb_createdAt (snd y) \<or>
     (pb_createdAt (snd x) = pb_createdAt (snd y) \<and> fst x < fst y)"

definition evictPendingLocked :: "Cache \<Rightarrow> Cache" where
  "evictPendingLocked c = c\<lparr>pending := evict_loop pendingOlder (maxPendingEntries c) (pending c)\<rparr>"

definition BindRequest :: "gotime \<Rightarrow> string \<Rightarrow> CacheKey \<Rightarrow> Cache \<Rightarrow> Cache" where
  "BindRequest now requestID key c =
     (if requestID = [] then c
      else let c = purgeExpiredLocked now c in
        if \<not> validKey key then c\<lparr>pending := gm_del requestID (pending c)\<rparr>
        else let c = (if gm_get (pending c) requestID = None then evictPendingLocked c else c) in
          c\<lparr>pending := gm_put requestID
              \<lparr>pb_key = key, pb_planType = [], pb_createdAt = now, pb_expiresAt = now + pendingTTL\<rparr>
              (pending c)\<rparr>)"

definition ForgetRequest :: "string \<Rightarrow> Cache \<Rightarrow> Cache" where
  "ForgetRequest requestID c =
     (if requestID = [] then c else c\<lparr>pending := gm_del requestID (pending c)\<rparr>)"

definition Lookup :: "gotime \<Rightarrow> CacheKey \<Rightarrow> Cache \<Rightarrow> (string \<times> bool) \<times> Cache" where
  "Lookup now key c =
     (if \<not> validKey key then (([], False), c)
      else let c = purgeExpiredLocked now c in
        case gm_get (entries c) key of
          None \<Rightarrow> (([], False), c)
        | Some e \<Rightarrow> ((se_value e, True), c))"

definition validatePlanAndLength :: "Cache \<Rightarrow> string list \<Rightarrow> string \<Rightarrow> string option" where
  "validatePlanAndLength c values rawPlan =
     (case values of
        [val] \<Rightarrow>
          (let plan = ToLower (TrimSpace rawPlan); n = int (length val) in
           if plan = ''team'' \<or> plan = ''business'' \<or> plan = ''self_serve_business_prolite''
           then (if n \<noteq> StateLengthTeam then None else Some val)
           else if plan = ''pro'' \<or> plan = ''plus'' \<or> plan = ''free'' \<or> plan = ''individual''
           then (if n \<noteq> StateLength then None else Some val)
           else if n \<in> set (acceptedLengths c) then Some val
           else None)
      | _ \<Rightarrow> None)"

definition validStateValue :: "string list \<Rightarrow> string option" where
  "validStateValue values =
     (case values of
        [val] \<Rightarrow> if int (length val) = StateLength \<or> int (length val) = StateLengthTeam
                 then Some val else None
      | _ \<Rightarrow> None)"

definition cacheValidStateValue :: "Cache \<Rightarrow> string list \<Rightarrow> string option" where
  "cacheValidStateValue c values = validatePlanAndLength c values []"

definition storeLocked :: "CacheKey \<Rightarrow> string \<Rightarrow> gotime \<Rightarrow> Cache \<Rightarrow> bool \<times> Cache" where
  "storeLocked key value now c =
     (let replaced = gm_get (entries c) key \<noteq> None;
          c = (if replaced then c else evictEntriesLocked c)
      in (replaced,
          c\<lparr>entries := gm_put key
              \<lparr>se_value = value, se_capturedAt = now, se_expiresAt = now + stateTTL\<rparr> (entries c)\<rparr>))"

text \<open>
  The result is the triple \<open>(key, stored, replaced)\<close>; \<open>planType\<close> is the variadic argument.
\<close>

definition no_store :: "CacheKey \<times> bool \<times> bool" where
  "no_store = (CacheKey [] [], False, False)"

definition StoreResponseForRequest ::
  "gotime \<Rightarrow> string \<Rightarrow> string list \<Rightarrow> string list \<Rightarrow> Cache \<Rightarrow> (CacheKey \<times> bool \<times> bool) \<times> Cache" where
  "StoreResponseForRequest now requestID values planType c =
     (if requestID = [] then (no_store, c)
      else
        let rawPlan = (case planType of [] \<Rightarrow> [] | p # _ \<Rightarrow> p);
            c = purgeExpiredLocked now c
        in case gm_get (pending c) requestID of
             None \<Rightarrow> (no_store, c)
           | Some b \<Rightarrow>
               let rawPlan = (if rawPlan = [] \<and> pb_planType b \<noteq> [] then pb_planType b else rawPlan)
               in case validatePlanAndLength c values rawPlan of
                    None \<Rightarrow> (no_store, c)
                  | Some value \<Rightarrow>
                      let (replaced, c) = storeLocked (pb_key b) value now c
                      in ((pb_key b, True, replaced), c))"

section \<open>The order of eviction\<close>

interpretation entry_order: eviction_order entryOlder
proof
  fix x y z :: "CacheKey \<times> stateEntry"
  show "\<not> entryOlder x x" by (auto simp: entryOlder_def cacheKeyLess_def)
  show "entryOlder x z" if "entryOlder x y" "entryOlder y z"
    using that by (auto simp: entryOlder_def cacheKeyLess_def split: if_splits)
  show "entryOlder x y \<or> entryOlder y x" if "fst x \<noteq> fst y"
    using that by (cases "fst x"; cases "fst y") (auto simp: entryOlder_def cacheKeyLess_def)
qed

interpretation pending_order: eviction_order pendingOlder
proof
  fix x y z :: "string \<times> pendingBinding"
  show "\<not> pendingOlder x x" by (auto simp: pendingOlder_def)
  show "pendingOlder x z" if "pendingOlder x y" "pendingOlder y z"
    using that by (auto simp: pendingOlder_def)
  show "pendingOlder x y \<or> pendingOlder y x" if "fst x \<noteq> fst y"
    using that by (auto simp: pendingOlder_def)
qed

section \<open>The invariant\<close>

definition entry_ok :: "int list \<Rightarrow> CacheKey \<times> stateEntry \<Rightarrow> bool" where
  "entry_ok lens ke \<longleftrightarrow> validKey (fst ke) \<and>
     se_expiresAt (snd ke) = se_capturedAt (snd ke) + stateTTL \<and>
     int (length (se_value (snd ke))) \<in> {StateLength, StateLengthTeam} \<union> set lens"

definition pending_ok :: "string \<times> pendingBinding \<Rightarrow> bool" where
  "pending_ok rb \<longleftrightarrow> fst rb \<noteq> [] \<and> validKey (pb_key (snd rb)) \<and>
     pb_expiresAt (snd rb) = pb_createdAt (snd rb) + pendingTTL"

definition cache_inv :: "Cache \<Rightarrow> bool" where
  "cache_inv c \<longleftrightarrow>
     1 \<le> maxEntries c \<and> 1 \<le> maxPendingEntries c \<and>
     acceptedLengths c \<noteq> [] \<and> list_all (\<lambda>l. 0 < l) (acceptedLengths c) \<and>
     gm_wf (entries c) \<and> gm_len (entries c) \<le> maxEntries c \<and>
     gm_wf (pending c) \<and> gm_len (pending c) \<le> maxPendingEntries c \<and>
     list_all (entry_ok (acceptedLengths c)) (entries c) \<and> list_all pending_ok (pending c)"

lemma cache_inv_NewCache: "cache_inv (NewCache maxE maxP lens)"
  by (auto simp: cache_inv_def NewCache_def Let_def list_all_iff defaultAcceptedLengths_def
      StateLength_def StateLengthTeam_def gm_len_def filter_empty_conv)

lemma cache_inv_pendingI:
  assumes "cache_inv c" and "gm_wf p" and "gm_len p \<le> maxPendingEntries c" and "list_all pending_ok p"
  shows "cache_inv (c\<lparr>pending := p\<rparr>)"
  using assms by (simp add: cache_inv_def)

lemma cache_inv_entriesI:
  assumes "cache_inv c" and "gm_wf m" and "gm_len m \<le> maxEntries c"
    and "list_all (entry_ok (acceptedLengths c)) m"
  shows "cache_inv (c\<lparr>entries := m\<rparr>)"
  using assms by (simp add: cache_inv_def)

lemma list_all_gm_put: "list_all P m \<Longrightarrow> P (k, v) \<Longrightarrow> list_all P (gm_put k v m)"
  using gm_put_in by (fastforce simp: list_all_iff)

lemma list_all_gm_del: "list_all P m \<Longrightarrow> list_all P (gm_del k m)"
  by (auto simp: list_all_iff gm_del_in)

lemma list_all_get: "list_all P m \<Longrightarrow> gm_get m k = Some v \<Longrightarrow> P (k, v)"
  by (auto simp: list_all_iff dest: gm_get_in)

lemma cache_inv_purge: "cache_inv c \<Longrightarrow> cache_inv (purgeExpiredLocked now c)"
  using gm_len_filter [of "\<lambda>(k, e). now < se_expiresAt e" "entries c"]
    gm_len_filter [of "\<lambda>(r, b). now < pb_expiresAt b" "pending c"]
  by (simp add: cache_inv_def purgeExpiredLocked_def gm_wf_filter list_all_iff)

lemma cache_inv_BindPlan: "cache_inv c \<Longrightarrow> cache_inv (BindPlan requestID planType c)"
  by (auto simp: BindPlan_def gm_len_put cache_inv_def pending_ok_def
      dest: list_all_get intro!: list_all_gm_put split: option.splits)

lemma cache_inv_ForgetRequest: "cache_inv c \<Longrightarrow> cache_inv (ForgetRequest requestID c)"
  using gm_len_del [of requestID "pending c"]
  by (auto simp: ForgetRequest_def cache_inv_def list_all_gm_del)

lemma cache_inv_Lookup: "cache_inv c \<Longrightarrow> cache_inv (snd (Lookup now key c))"
  by (auto simp: Lookup_def Let_def cache_inv_purge split: option.splits)

lemma evictPending_inv:
  assumes "cache_inv c"
  shows "cache_inv (evictPendingLocked c)" and "gm_len (pending (evictPendingLocked c)) < maxPendingEntries c"
  using assms evict_loop_room [of "maxPendingEntries c" pendingOlder "pending c"]
    evict_loop_subset [of pendingOlder "maxPendingEntries c" "pending c"]
  by (auto simp: cache_inv_def evictPendingLocked_def evict_loop_wf list_all_iff)

lemma evictEntries_inv:
  assumes "cache_inv c"
  shows "cache_inv (evictEntriesLocked c)" and "gm_len (entries (evictEntriesLocked c)) < maxEntries c"
  using assms evict_loop_room [of "maxEntries c" entryOlder "entries c"]
    evict_loop_subset [of entryOlder "maxEntries c" "entries c"]
  by (auto simp: cache_inv_def evictEntriesLocked_def evict_loop_wf list_all_iff)

lemma evict_frame [simp]:
  "entries (evictPendingLocked c) = entries c" "pending (evictEntriesLocked c) = pending c"
  "maxEntries (evictPendingLocked c) = maxEntries c" "maxEntries (evictEntriesLocked c) = maxEntries c"
  "maxPendingEntries (evictPendingLocked c) = maxPendingEntries c"
  "maxPendingEntries (evictEntriesLocked c) = maxPendingEntries c"
  "acceptedLengths (evictPendingLocked c) = acceptedLengths c"
  "acceptedLengths (evictEntriesLocked c) = acceptedLengths c"
  by (simp_all add: evictPendingLocked_def evictEntriesLocked_def)

lemma purge_frame [simp]:
  "maxEntries (purgeExpiredLocked now c) = maxEntries c"
  "maxPendingEntries (purgeExpiredLocked now c) = maxPendingEntries c"
  "acceptedLengths (purgeExpiredLocked now c) = acceptedLengths c"
  by (simp_all add: purgeExpiredLocked_def)

lemma cache_inv_BindRequest:
  assumes "cache_inv c"
  shows "cache_inv (BindRequest now requestID key c)"
proof (cases "requestID = [] \<or> \<not> validKey key")
  case True
  with assms show ?thesis
    using cache_inv_purge [OF assms, of now] gm_len_del [of requestID]
    by (auto simp: BindRequest_def Let_def list_all_gm_del cache_inv_def intro: order_trans)
next
  case False
  define p where "p = purgeExpiredLocked now c"
  define q where "q = (if gm_get (pending p) requestID = None then evictPendingLocked p else p)"
  have "cache_inv p" using assms by (simp add: p_def cache_inv_purge)
  then have q: "cache_inv q"
    and room: "gm_get (pending q) requestID = None \<Longrightarrow> gm_len (pending q) < maxPendingEntries q"
    using evictPending_inv [of p] by (auto simp: q_def split: if_splits)
  have "cache_inv (q\<lparr>pending := gm_put requestID
      \<lparr>pb_key = key, pb_planType = [], pb_createdAt = now, pb_expiresAt = now + pendingTTL\<rparr>
      (pending q)\<rparr>)"
    using q room False
    by (intro cache_inv_pendingI list_all_gm_put) (auto simp: cache_inv_def pending_ok_def gm_len_put)
  with False show ?thesis
    by (simp add: BindRequest_def Let_def p_def [symmetric] q_def [symmetric])
qed

lemma validatePlanAndLength_value:
  "validatePlanAndLength c values rawPlan = Some v \<Longrightarrow> values = [v] \<and>
     int (length v) \<in> {StateLength, StateLengthTeam} \<union> set (acceptedLengths c)"
  by (auto simp: validatePlanAndLength_def Let_def split: list.splits if_splits)

lemma cache_inv_storeLocked:
  assumes "cache_inv c" and "validKey key"
    and "int (length value) \<in> {StateLength, StateLengthTeam} \<union> set (acceptedLengths c)"
  shows "cache_inv (snd (storeLocked key value now c))"
proof -
  define q where "q = (if gm_get (entries c) key \<noteq> None then c else evictEntriesLocked c)"
  have q: "cache_inv q"
    and room: "gm_get (entries q) key = None \<Longrightarrow> gm_len (entries q) < maxEntries q"
    using assms(1) evictEntries_inv [of c] by (auto simp: q_def)
  have "cache_inv (q\<lparr>entries := gm_put key
      \<lparr>se_value = value, se_capturedAt = now, se_expiresAt = now + stateTTL\<rparr> (entries q)\<rparr>)"
    using q room assms(2,3)
    by (intro cache_inv_entriesI list_all_gm_put)
      (auto simp: cache_inv_def entry_ok_def gm_len_put q_def)
  then show ?thesis
    by (simp add: storeLocked_def Let_def q_def split: if_splits)
qed

lemma cache_inv_Store:
  assumes "cache_inv c"
  shows "cache_inv (snd (StoreResponseForRequest now requestID values planType c))"
proof -
  define p where "p = purgeExpiredLocked now c"
  have p: "cache_inv p" using assms by (simp add: p_def cache_inv_purge)
  show ?thesis
  proof (cases "requestID = [] \<or> gm_get (pending p) requestID = None")
    case True
    with assms p show ?thesis
      by (auto simp: StoreResponseForRequest_def Let_def p_def [symmetric])
  next
    case False
    then obtain b where b: "gm_get (pending p) requestID = Some b" by auto
    with p have "validKey (pb_key b)"
      by (auto simp: cache_inv_def pending_ok_def dest: list_all_get)
    then have "cache_inv (snd (storeLocked (pb_key b) v now p))"
      if "validatePlanAndLength p values pl = Some v" for v pl
      using p validatePlanAndLength_value [OF that] by (auto intro: cache_inv_storeLocked)
    with False b p show ?thesis
      by (auto simp: StoreResponseForRequest_def Let_def p_def [symmetric]
          split: option.splits prod.splits) (metis snd_conv)+
  qed
qed

end
