(* ===== verification/Cache_Spec.thy ===== *)
theory Cache_Spec
  imports Cache
begin

text \<open>
  What the passive cache promises. \<open>cache_view t c\<close> is the abstract cache at time \<open>t\<close>: the
  partial map from keys to the values whose lifetime includes \<open>t\<close>. \<open>Lookup\<close> reads it,
  \<open>StoreResponseForRequest\<close> updates it at one key, every other method leaves it alone.
  Runs of timed calls (\<open>cache_run\<close>) carry the properties about histories.
\<close>

definition cache_view :: "gotime \<Rightarrow> Cache \<Rightarrow> CacheKey \<Rightarrow> string option" where
  "cache_view t c k =
     (case gm_get (entries c) k of
        None \<Rightarrow> None
      | Some e \<Rightarrow> if t < se_expiresAt e then Some (se_value e) else None)"

datatype cache_op =
    OpBindPlan string string
  | OpBindRequest string CacheKey
  | OpForgetRequest string
  | OpLookup CacheKey
  | OpStore string "string list" "string list"

fun cache_apply :: "gotime \<times> cache_op \<Rightarrow> Cache \<Rightarrow> Cache" where
  "cache_apply (t, OpBindPlan r p) c = BindPlan r p c"
| "cache_apply (t, OpBindRequest r k) c = BindRequest t r k c"
| "cache_apply (t, OpForgetRequest r) c = ForgetRequest r c"
| "cache_apply (t, OpLookup k) c = snd (Lookup t k c)"
| "cache_apply (t, OpStore r vs p) c = snd (StoreResponseForRequest t r vs p c)"

definition cache_run :: "(gotime \<times> cache_op) list \<Rightarrow> Cache \<Rightarrow> Cache" where
  "cache_run ops c = fold cache_apply ops c"

lemma cache_run_simps [simp]:
  "cache_run [] c = c"
  "cache_run (x # ops) c = cache_run ops (cache_apply x c)"
  "cache_run (ops @ ops') c = cache_run ops' (cache_run ops c)"
  by (simp_all add: cache_run_def)

lemma cache_inv_apply: "cache_inv c \<Longrightarrow> cache_inv (cache_apply x c)"
  by (cases "(x, c)" rule: cache_apply.cases)
    (simp_all add: cache_inv_BindPlan cache_inv_BindRequest cache_inv_ForgetRequest
      cache_inv_Lookup cache_inv_Store)

lemma cache_inv_run: "cache_inv c \<Longrightarrow> cache_inv (cache_run ops c)"
  by (induction ops arbitrary: c) (simp_all add: cache_inv_apply)

section \<open>The steps seen from the entries and from the pending requests\<close>

lemma purge_get_entries:
  "gm_wf (entries c) \<Longrightarrow> gm_get (entries (purgeExpiredLocked now c)) k =
     (case gm_get (entries c) k of None \<Rightarrow> None
      | Some e \<Rightarrow> if now < se_expiresAt e then Some e else None)"
  by (simp add: purgeExpiredLocked_def gm_get_filter split: option.split)

lemma purge_get_pending:
  "gm_wf (pending c) \<Longrightarrow> gm_get (pending (purgeExpiredLocked now c)) r =
     (case gm_get (pending c) r of None \<Rightarrow> None
      | Some b \<Rightarrow> if now < pb_expiresAt b then Some b else None)"
  by (simp add: purgeExpiredLocked_def gm_get_filter split: option.split)

lemma cache_invD:
  assumes "cache_inv c"
  shows "gm_wf (entries c)" and "gm_wf (pending c)"
    and "1 \<le> maxEntries c" and "1 \<le> maxPendingEntries c"
  using assms by (simp_all add: cache_inv_def)

lemma cache_inv_validKey: "cache_inv c \<Longrightarrow> gm_get (entries c) k = Some e \<Longrightarrow> validKey k"
  by (auto simp: cache_inv_def entry_ok_def dest: list_all_get)

lemma cache_view_purge:
  "cache_inv c \<Longrightarrow> now \<le> t \<Longrightarrow> cache_view t (purgeExpiredLocked now c) = cache_view t c"
  by (auto simp: cache_view_def purge_get_entries cache_invD split: option.splits)

lemma cache_view_pending [simp]: "cache_view t (c\<lparr>pending := p\<rparr>) = cache_view t c"
  by (simp add: cache_view_def fun_eq_iff)

lemma cache_view_evictPending [simp]: "cache_view t (evictPendingLocked c) = cache_view t c"
  by (simp add: cache_view_def fun_eq_iff)

lemma evictEntries_get:
  "cache_inv c \<Longrightarrow> gm_get (entries (evictEntriesLocked c)) k = Some e \<Longrightarrow> gm_get (entries c) k = Some e"
  by (auto simp: evictEntriesLocked_def cache_invD intro: evict_loop_get)

lemma Store_cases:
  assumes "StoreResponseForRequest now requestID values planType c = ((key, stored, replaced), c')"
  obtains (refused) "\<not> stored" "c' = c \<or> c' = purgeExpiredLocked now c"
  | (stored) b v p where "stored" "requestID \<noteq> []" "p = purgeExpiredLocked now c"
      "gm_get (pending p) requestID = Some b" "key = pb_key b" "values = [v]"
      "validatePlanAndLength p values
         (if (case planType of [] \<Rightarrow> [] | q # _ \<Rightarrow> q) = [] \<and> pb_planType b \<noteq> []
          then pb_planType b else (case planType of [] \<Rightarrow> [] | q # _ \<Rightarrow> q)) = Some v"
      "storeLocked key v now p = (replaced, c')"
proof (cases "requestID = []")
  case True
  with assms show thesis by (intro refused) (auto simp: StoreResponseForRequest_def no_store_def)
next
  case nonempty: False
  define p where "p = purgeExpiredLocked now c"
  show thesis
  proof (cases "gm_get (pending p) requestID")
    case None
    with assms nonempty show thesis
      by (intro refused) (auto simp: StoreResponseForRequest_def no_store_def Let_def p_def)
  next
    case (Some b)
    define raw where "raw = (if (case planType of [] \<Rightarrow> [] | q # _ \<Rightarrow> q) = [] \<and> pb_planType b \<noteq> []
          then pb_planType b else (case planType of [] \<Rightarrow> [] | q # _ \<Rightarrow> q))"
    have eq: "StoreResponseForRequest now requestID values planType c =
        (case validatePlanAndLength p values raw of None \<Rightarrow> (no_store, p)
         | Some value \<Rightarrow> let (replaced, c) = storeLocked (pb_key b) value now p
                        in ((pb_key b, True, replaced), c))"
      using nonempty Some
      by (simp add: StoreResponseForRequest_def Let_def p_def [symmetric] raw_def)
    show thesis
    proof (cases "validatePlanAndLength p values raw")
      case None
      with assms eq show thesis by (intro refused) (auto simp: no_store_def p_def)
    next
      case valid: (Some v)
      with assms eq show thesis
        using nonempty Some validatePlanAndLength_value [OF valid]
        by (intro stored [of p b v]) (auto simp: p_def raw_def split: prod.splits)
    qed
  qed
qed

lemma storeLocked_get:
  assumes "storeLocked key v now c = (replaced, c')"
  shows "gm_get (entries c') key = Some \<lparr>se_value = v, se_capturedAt = now, se_expiresAt = now + stateTTL\<rparr>"
    and "k \<noteq> key \<Longrightarrow> gm_get (entries c') k =
      gm_get (entries (if replaced then c else evictEntriesLocked c)) k"
    and "replaced = (gm_get (entries c) key \<noteq> None)" and "pending c' = pending c"
  using assms by (auto simp: storeLocked_def Let_def)

section \<open>Where a binding and an entry come from\<close>

definition rebinds :: "string \<Rightarrow> gotime \<times> cache_op \<Rightarrow> bool" where
  "rebinds r x \<longleftrightarrow> (case snd x of
      OpBindRequest r' _ \<Rightarrow> r' = r | OpForgetRequest r' \<Rightarrow> r' = r | _ \<Rightarrow> False)"

definition bound_by :: "(gotime \<times> cache_op) list \<Rightarrow> string \<Rightarrow> pendingBinding \<Rightarrow> bool" where
  "bound_by ops r b \<longleftrightarrow>
     (\<exists>pre mid. ops = pre @ (pb_createdAt b, OpBindRequest r (pb_key b)) # mid \<and>
        (\<forall>x \<in> set mid. \<not> rebinds r x))"

definition captured_by :: "(gotime \<times> cache_op) list \<Rightarrow> CacheKey \<Rightarrow> stateEntry \<Rightarrow> bool" where
  "captured_by ops k e \<longleftrightarrow>
     (\<exists>pre r b plan post. ops = pre @ (se_capturedAt e, OpStore r [se_value e] plan) # post \<and>
        pb_key b = k \<and> bound_by pre r b \<and> se_capturedAt e < pb_createdAt b + pendingTTL)"

lemma bound_by_snoc:
  assumes "bound_by ops r b" and "\<not> rebinds r x"
  shows "bound_by (ops @ [x]) r b"
proof -
  from assms(1) obtain pre mid where
    "ops = pre @ (pb_createdAt b, OpBindRequest r (pb_key b)) # mid" "\<forall>y \<in> set mid. \<not> rebinds r y"
    unfolding bound_by_def by blast
  with assms(2) show ?thesis
    unfolding bound_by_def by (intro exI [of _ pre] exI [of _ "mid @ [x]"]) auto
qed

lemma captured_by_snoc:
  assumes "captured_by ops k e"
  shows "captured_by (ops @ [x]) k e"
proof -
  from assms obtain pre r b plan post where
    "ops = pre @ (se_capturedAt e, OpStore r [se_value e] plan) # post"
    "pb_key b = k" "bound_by pre r b" "se_capturedAt e < pb_createdAt b + pendingTTL"
    unfolding captured_by_def by blast
  then show ?thesis
    unfolding captured_by_def
    by (intro exI [of _ pre] exI [of _ r] exI [of _ b] exI [of _ plan] exI [of _ "post @ [x]"]) auto
qed

lemma bound_by_cong: "pb_key b = pb_key b' \<Longrightarrow> pb_createdAt b = pb_createdAt b' \<Longrightarrow>
  bound_by ops r b = bound_by ops r b'"
  by (simp add: bound_by_def)

lemma evictPending_get:
  "cache_inv c \<Longrightarrow> gm_get (pending (evictPendingLocked c)) r = Some b \<Longrightarrow> gm_get (pending c) r = Some b"
  by (auto simp: evictPendingLocked_def cache_invD intro: evict_loop_get)

lemma purge_get_pending_Some:
  "cache_inv c \<Longrightarrow> gm_get (pending (purgeExpiredLocked now c)) r = Some b \<Longrightarrow>
   gm_get (pending c) r = Some b \<and> now < pb_expiresAt b"
  by (auto simp: purge_get_pending cache_invD split: option.splits if_splits)

lemma purge_get_entries_Some:
  "cache_inv c \<Longrightarrow> gm_get (entries (purgeExpiredLocked now c)) k = Some e \<Longrightarrow>
   gm_get (entries c) k = Some e"
  by (auto simp: purge_get_entries cache_invD split: option.splits if_splits)

lemma BindRequest_pending:
  assumes "cache_inv c" and "gm_get (pending (BindRequest t r k c)) r' = Some b"
  shows "(r' = r \<and> pb_key b = k \<and> pb_createdAt b = t) \<or> (r' \<noteq> r \<and> gm_get (pending c) r' = Some b)"
proof (cases "r = []")
  case True
  with assms have "gm_get (pending c) r' = Some b" by (simp add: BindRequest_def)
  moreover from this have "r' \<noteq> []"
    using assms(1) by (auto simp: cache_inv_def pending_ok_def dest: list_all_get)
  ultimately show ?thesis using True by simp
next
  case False
  with assms cache_inv_purge [OF assms(1), of t] show ?thesis
    by (auto simp: BindRequest_def Let_def split: if_splits
        dest: purge_get_pending_Some evictPending_get)
qed

lemma Store_pending:
  assumes "cache_inv c"
    and "gm_get (pending (snd (StoreResponseForRequest t r vs p c))) r' = Some b"
  shows "gm_get (pending c) r' = Some b"
proof -
  obtain key stored replaced c' where eq: "StoreResponseForRequest t r vs p c = ((key, stored, replaced), c')"
    by (metis prod.exhaust)
  from eq show ?thesis
  proof (cases rule: Store_cases)
    case refused
    with assms eq show ?thesis by (auto dest: purge_get_pending_Some)
  next
    case (stored b v q)
    then show ?thesis
      using assms eq storeLocked_get(4) by (fastforce dest: purge_get_pending_Some)
  qed
qed

lemma pending_step:
  assumes "cache_inv c" and "gm_get (pending (cache_apply x c)) r = Some b"
  shows "(\<not> rebinds r x \<and> (\<exists>b0. gm_get (pending c) r = Some b0 \<and>
            pb_key b0 = pb_key b \<and> pb_createdAt b0 = pb_createdAt b)) \<or>
         x = (pb_createdAt b, OpBindRequest r (pb_key b))"
proof (cases "(x, c)" rule: cache_apply.cases)
  case (1 t r' p c')
  with assms show ?thesis
    by (auto simp: BindPlan_def rebinds_def split: if_splits option.splits)
next
  case (2 t r' k c')
  with assms BindRequest_pending [OF assms(1), of t r' k r b] show ?thesis
    by (auto simp: rebinds_def)
next
  case (3 t r' c')
  moreover have "r \<noteq> []" if "gm_get (pending c) r = Some b"
    using assms(1) that by (auto simp: cache_inv_def pending_ok_def dest: list_all_get)
  ultimately show ?thesis
    using assms by (auto simp: ForgetRequest_def rebinds_def split: if_splits)
next
  case (4 t k c')
  with assms show ?thesis
    by (auto simp: Lookup_def rebinds_def Let_def split: if_splits option.splits
        dest: purge_get_pending_Some)
next
  case (5 t r' vs p c')
  with assms show ?thesis
    by (auto simp: rebinds_def dest: Store_pending)
qed

lemma pending_bound_by:
  assumes "cache_inv c0" and "pending c0 = []"
    and "gm_get (pending (cache_run ops c0)) r = Some b"
  shows "bound_by ops r b"
  using assms(3)
proof (induction ops arbitrary: b rule: rev_induct)
  case Nil
  with assms(2) show ?case by simp
next
  case (snoc x ops)
  then have "gm_get (pending (cache_apply x (cache_run ops c0))) r = Some b" by simp
  from pending_step [OF cache_inv_run [OF assms(1)] this] show ?case
  proof
    assume "\<not> rebinds r x \<and> (\<exists>b0. gm_get (pending (cache_run ops c0)) r = Some b0 \<and>
        pb_key b0 = pb_key b \<and> pb_createdAt b0 = pb_createdAt b)"
    then show ?thesis using snoc.IH bound_by_snoc bound_by_cong by metis
  next
    assume "x = (pb_createdAt b, OpBindRequest r (pb_key b))"
    then show ?thesis
      unfolding bound_by_def by (intro exI [of _ ops] exI [of _ "[]"]) simp
  qed
qed

lemma entries_step:
  assumes "cache_inv c" and "gm_get (entries (cache_apply x c)) k = Some e"
  shows "gm_get (entries c) k = Some e \<or>
    (\<exists>r plan b. x = (se_capturedAt e, OpStore r [se_value e] plan) \<and>
       gm_get (pending c) r = Some b \<and> pb_key b = k \<and> se_capturedAt e < pb_expiresAt b)"
proof (cases "(x, c)" rule: cache_apply.cases)
  case (1 t r' p c')
  with assms show ?thesis
    by (auto simp: BindPlan_def split: if_splits option.splits)
next
  case (2 t r' k c')
  with assms show ?thesis
    by (auto simp: BindRequest_def Let_def split: if_splits dest: purge_get_entries_Some)
next
  case (3 t r' c')
  with assms show ?thesis
    by (auto simp: ForgetRequest_def split: if_splits)
next
  case (4 t k' c')
  with assms show ?thesis
    by (auto simp: Lookup_def Let_def split: if_splits option.splits dest: purge_get_entries_Some)
next
  case (5 t r vs p c')
  obtain key stored replaced d where eq: "StoreResponseForRequest t r vs p c = ((key, stored, replaced), d)"
    by (metis prod.exhaust)
  from eq show ?thesis
  proof (cases rule: Store_cases)
    case refused
    with assms 5 eq show ?thesis by (auto dest: purge_get_entries_Some)
  next
    case (stored b v q)
    have q: "cache_inv q" using assms(1) stored(3) by (simp add: cache_inv_purge)
    have get: "gm_get (entries d) k = Some e" using assms(2) 5 eq by simp
    have "gm_get (pending c) r = Some b \<and> t < pb_expiresAt b"
      using stored(3,4) purge_get_pending_Some [OF assms(1)] by simp
    moreover have "k \<noteq> key \<Longrightarrow> gm_get (entries c) k = Some e"
      using get storeLocked_get(2) [OF stored(8), of k] stored(3) q assms(1)
      by (auto split: if_splits dest: evictEntries_get purge_get_entries_Some)
    ultimately show ?thesis
      using get storeLocked_get(1) [OF stored(8)] stored(5,6) 5 by fastforce
  qed
qed

lemma entries_captured_by:
  assumes "cache_inv c0" and "entries c0 = []" and "pending c0 = []"
    and "gm_get (entries (cache_run ops c0)) k = Some e"
  shows "captured_by ops k e"
  using assms(4)
proof (induction ops rule: rev_induct)
  case Nil
  with assms(2) show ?case by simp
next
  case (snoc x ops)
  have inv: "cache_inv (cache_run ops c0)" using assms(1) by (rule cache_inv_run)
  from snoc.prems have "gm_get (entries (cache_apply x (cache_run ops c0))) k = Some e" by simp
  from entries_step [OF inv this] show ?case
  proof
    assume "gm_get (entries (cache_run ops c0)) k = Some e"
    then show ?thesis using snoc.IH captured_by_snoc by blast
  next
    assume "\<exists>r plan b. x = (se_capturedAt e, OpStore r [se_value e] plan) \<and>
       gm_get (pending (cache_run ops c0)) r = Some b \<and> pb_key b = k \<and> se_capturedAt e < pb_expiresAt b"
    then obtain r plan b where x: "x = (se_capturedAt e, OpStore r [se_value e] plan)"
      and b: "gm_get (pending (cache_run ops c0)) r = Some b" "pb_key b = k" "se_capturedAt e < pb_expiresAt b"
      by blast
    have "bound_by ops r b" using assms(1,3) b(1) by (rule pending_bound_by)
    moreover have "pb_expiresAt b = pb_createdAt b + pendingTTL"
      using inv b(1) by (auto simp: cache_inv_def pending_ok_def dest: list_all_get)
    ultimately show ?thesis using x b unfolding captured_by_def by fastforce
  qed
qed

lemma NewCache_empty [simp]: "entries (NewCache a b l) = []" "pending (NewCache a b l) = []"
  by (simp_all add: NewCache_def Let_def)

section \<open>Concrete runs for the witnesses\<close>

definition sample_state :: "nat \<Rightarrow> string" where
  "sample_state n = ''gAAAAA'' @ replicate (n - 6) (CHR ''x'')"

definition sample_key :: CacheKey where "sample_key = CacheKey ''acct'' ''gpt''"

definition sample_key2 :: CacheKey where "sample_key2 = CacheKey ''acct2'' ''gpt''"

definition sample_ops :: "(gotime \<times> cache_op) list" where
  "sample_ops = [(1, OpBindRequest ''r1'' sample_key), (2, OpStore ''r1'' [sample_state 292] [''pro'']),
                 (3, OpBindRequest ''r2'' sample_key2)]"

definition sample_cache :: Cache where
  "sample_cache = cache_run sample_ops (NewCache 1 2 [])"

lemma sample_cache_inv: "cache_inv sample_cache"
  unfolding sample_cache_def by (intro cache_inv_run cache_inv_NewCache)

lemma sample_store:
  "StoreResponseForRequest 4 ''r2'' [sample_state 332] [''team''] sample_cache =
     ((sample_key2, True, False),
      sample_cache\<lparr>entries := [(sample_key2, \<lparr>se_value = sample_state 332, se_capturedAt = 4,
        se_expiresAt = 4 + Hour\<rparr>)]\<rparr>)"
  by code_simp

lemma sample_entries: "entries sample_cache =
    [(sample_key, \<lparr>se_value = sample_state 292, se_capturedAt = 2, se_expiresAt = 2 + Hour\<rparr>)]"
  by code_simp

section \<open>Properties\<close>

text \<open>
  C23. Whatever calls are made and whenever, the cache a constructor built stays well formed:
  both tables are within their capacity and have distinct keys, every cached value belongs
  to a non-empty account and model, has an admissible length and expires exactly one hour
  after its capture.
\<close>

theorem cache_run_invariant: "cache_inv (cache_run ops (NewCache maxE maxP lens))"
  by (intro cache_inv_run cache_inv_NewCache)

text \<open>
  C24. \<open>Lookup\<close> returns exactly the live value of the abstract cache at the time of the call,
  and reading changes no lifetime: at every later time the abstract cache is what it was.
\<close>

theorem lookup_is_view:
  assumes "cache_inv c"
  shows "fst (Lookup now key c) =
      (case cache_view now c key of None \<Rightarrow> ([], False) | Some v \<Rightarrow> (v, True)) \<and>
    (\<forall>t \<ge> now. cache_view t (snd (Lookup now key c)) = cache_view t c)"
proof (intro conjI allI impI)
  show "fst (Lookup now key c) =
      (case cache_view now c key of None \<Rightarrow> ([], False) | Some v \<Rightarrow> (v, True))"
    using assms cache_inv_validKey [OF assms]
    by (auto simp: Lookup_def Let_def cache_view_def purge_get_entries cache_invD split: option.splits)
  show "cache_view t (snd (Lookup now key c)) = cache_view t c" if "now \<le> t" for t
    using assms that by (auto simp: Lookup_def Let_def cache_view_purge split: option.splits)
qed

theorem lookup_is_view_witness:
  "cache_inv sample_cache \<and> fst (Lookup 5 sample_key sample_cache) = (sample_state 292, True) \<and>
   fst (Lookup (2 + Hour) sample_key sample_cache) = ([], False)"
  using lookup_is_view [OF sample_cache_inv, of 5 sample_key]
    lookup_is_view [OF sample_cache_inv, of "2 + Hour" sample_key] sample_cache_inv
  by (simp add: cache_view_def sample_entries gm_get_def Hour_def Minute_def Second_def)

text \<open>
  No call but a successful capture touches the abstract cache: binding, plan hints,
  completion and lookups neither extend nor end the lifetime of any value.
\<close>

theorem bookkeeping_keeps_view:
  assumes "cache_inv c" and "now \<le> t" and "\<And>r vs p. op \<noteq> OpStore r vs p"
  shows "cache_view t (cache_apply (now, op) c) = cache_view t c"
proof (cases op)
  case (OpBindPlan r p)
  then show ?thesis by (auto simp: BindPlan_def split: option.splits)
next
  case (OpBindRequest r k)
  with assms show ?thesis by (auto simp: BindRequest_def Let_def cache_view_purge)
next
  case (OpForgetRequest r)
  then show ?thesis by (simp add: ForgetRequest_def)
next
  case (OpLookup k)
  with assms show ?thesis
    by (auto simp: Lookup_def Let_def cache_view_purge split: option.splits)
next
  case (OpStore r vs p)
  with assms(3) show ?thesis by blast
qed

theorem bookkeeping_keeps_view_witness:
  "cache_view 5 (cache_apply (5, OpForgetRequest ''r2'') sample_cache) sample_key = Some (sample_state 292)"
proof -
  have "cache_view 5 (cache_apply (5, OpForgetRequest ''r2'') sample_cache) = cache_view 5 sample_cache"
    by (rule bookkeeping_keeps_view [OF sample_cache_inv]) simp_all
  then show ?thesis
    by (simp add: cache_view_def [of 5 sample_cache] sample_entries gm_get_def Hour_def Minute_def Second_def)
qed

text \<open>
  The live keys of the cache, and the one that eviction takes: captured before all others, or at
  the same time as another with a larger key.
\<close>

definition live_keys :: "gotime \<Rightarrow> Cache \<Rightarrow> CacheKey set" where
  "live_keys now c = {k. cache_view now c k \<noteq> None}"

definition oldest_live :: "gotime \<Rightarrow> Cache \<Rightarrow> CacheKey \<Rightarrow> bool" where
  "oldest_live now c k \<longleftrightarrow>
     (\<exists>e. gm_get (entries c) k = Some e \<and> now < se_expiresAt e \<and>
        (\<forall>k' e'. gm_get (entries c) k' = Some e' \<and> now < se_expiresAt e' \<and> k' \<noteq> k \<longrightarrow>
           se_capturedAt e < se_capturedAt e' \<or> (se_capturedAt e = se_capturedAt e' \<and> k < k')))"

lemma live_purged:
  "cache_inv c \<Longrightarrow> gm_get (entries (purgeExpiredLocked now c)) k = Some e \<longleftrightarrow>
     gm_get (entries c) k = Some e \<and> now < se_expiresAt e"
  by (auto simp: purge_get_entries cache_invD split: option.splits)

lemma card_live:
  assumes "cache_inv c"
  shows "int (card (live_keys now c)) = gm_len (entries (purgeExpiredLocked now c))"
proof -
  let ?m = "entries (purgeExpiredLocked now c)"
  have "k \<in> live_keys now c \<longleftrightarrow> gm_get ?m k \<noteq> None" for k
    using assms by (auto simp: live_keys_def cache_view_def purge_get_entries cache_invD split: option.splits)
  then have "live_keys now c = fst ` set ?m" by (auto simp: gm_get_None)
  moreover have "gm_wf ?m" using cache_inv_purge [OF assms] by (rule cache_invD(1))
  ultimately show ?thesis by (metis (no_types, lifting) distinct_card gm_len_def gm_wf_def length_map list.set_map)
qed

text \<open>From a table that is exactly full, one pair goes, and it is the oldest.\<close>

lemma evictEntries_one:
  assumes "cache_inv c" and "maxEntries c \<le> gm_len (entries c)"
  obtains k e where "gm_get (entries c) k = Some e"
    and "\<And>k' e'. gm_get (entries c) k' = Some e' \<Longrightarrow> k' \<noteq> k \<Longrightarrow> entryOlder (k, e) (k', e')"
    and "entries (evictEntriesLocked c) = gm_del k (entries c)"
proof -
  let ?m = "entries c"
  note inv = cache_invD [OF assms(1)]
  have full: "gm_len ?m = maxEntries c" using assms by (simp add: cache_inv_def)
  then obtain kv where kv: "pick_oldest entryOlder None ?m = Some kv"
    using inv(3) by (cases "pick_oldest entryOlder None ?m") (auto simp: pick_oldest_None gm_len_def)
  then have "kv \<in> set ?m" by (auto dest: pick_oldest_in)
  then have get: "gm_get ?m (fst kv) = Some (snd kv)" and "gm_len (gm_del (fst kv) ?m) < maxEntries c"
    using inv(1) gm_len_del_in [of kv ?m] full gm_in_get [of ?m "fst kv" "snd kv"] by auto
  then have "entries (evictEntriesLocked c) = gm_del (fst kv) ?m"
    using kv full by (simp add: evictEntriesLocked_def evict_loop.simps [of _ _ ?m] evict_loop_id)
  moreover have "entryOlder (fst kv, snd kv) (k', e')" if "gm_get ?m k' = Some e'" "k' \<noteq> fst kv" for k' e'
  proof -
    have "(k', e') \<noteq> kv" using that(2) by auto
    with entry_order.pick_oldest_least [OF inv(1) kv gm_get_in [OF that(1)]] show ?thesis by simp
  qed
  ultimately show thesis using that get by blast
qed

text \<open>
  C25. The whole effect of a capture that reports success. The one value it was given is live for
  the key its request was bound to, for exactly one hour from now; \<open>replaced\<close> tells whether a live
  value was there. If it replaced one, or the live keys are fewer than the capacity, every other key
  keeps its value. Otherwise exactly one other key loses it, and that is the key whose value was
  captured first.
\<close>

theorem store_effect:
  assumes "cache_inv c"
    and "StoreResponseForRequest now r values planType c = ((key, True, replaced), c')"
  shows "\<exists>v b. values = [v] \<and> gm_get (pending c) r = Some b \<and> now < pb_expiresAt b \<and> pb_key b = key \<and>
      (replaced \<longleftrightarrow> key \<in> live_keys now c) \<and>
      (if replaced \<or> int (card (live_keys now c)) < maxEntries c
       then \<forall>t \<ge> now. cache_view t c' = (cache_view t c)(key := if t < now + Hour then Some v else None)
       else \<exists>old. oldest_live now c old \<and>
         (\<forall>t \<ge> now. cache_view t c' = (cache_view t c)(old := None, key := if t < now + Hour then Some v else None)))"
  using assms(2)
proof (cases rule: Store_cases)
  case (stored b v p)
  note get = storeLocked_get [OF stored(8)]
  have p: "cache_inv p" using assms(1) stored(3) by (simp add: cache_inv_purge)
  have cap: "maxEntries p = maxEntries c" by (simp add: stored(3))
  have size: "int (card (live_keys now c)) = gm_len (entries p)"
    by (simp add: card_live [OF assms(1)] stored(3))
  have new: "cache_view t c' key = (if t < now + Hour then Some v else None)" for t
    using get(1) by (simp add: cache_view_def stateTTL_def)
  have same: "cache_view t p k = cache_view t c k" if "now \<le> t" for t k
    using assms(1) that stored(3) by (simp add: cache_view_purge)
  have rep: "replaced \<longleftrightarrow> key \<in> live_keys now c"
    using get(3) assms(1) stored(3)
    by (auto simp: live_keys_def cache_view_def purge_get_entries cache_invD split: option.splits)
  have pend: "gm_get (pending c) r = Some b \<and> now < pb_expiresAt b"
    using stored(3,4) purge_get_pending_Some [OF assms(1)] by simp
  have effect: "if replaced \<or> int (card (live_keys now c)) < maxEntries c
       then \<forall>t \<ge> now. cache_view t c' = (cache_view t c)(key := if t < now + Hour then Some v else None)
       else \<exists>old. oldest_live now c old \<and>
         (\<forall>t \<ge> now. cache_view t c' = (cache_view t c)(old := None, key := if t < now + Hour then Some v else None))"
  proof (cases "replaced \<or> int (card (live_keys now c)) < maxEntries c")
    case True
    then have "gm_get (entries c') k = gm_get (entries p) k" if "k \<noteq> key" for k
      using get(2) [OF that] by (auto simp: evictEntriesLocked_def evict_loop_id size cap)
    then have "cache_view t c' k = cache_view t p k" if "k \<noteq> key" for t k
      using that by (simp add: cache_view_def)
    with True new same show ?thesis by (simp add: fun_eq_iff)
  next
    case False
    then have "maxEntries p \<le> gm_len (entries p)" by (simp add: size cap)
    with p obtain old e where old: "gm_get (entries p) old = Some e"
      "\<And>k' e'. gm_get (entries p) k' = Some e' \<Longrightarrow> k' \<noteq> old \<Longrightarrow> entryOlder (old, e) (k', e')"
      "entries (evictEntriesLocked p) = gm_del old (entries p)"
      by (rule evictEntries_one) blast
    have "oldest_live now c old"
      using old(1,2) unfolding oldest_live_def stored(3) live_purged [OF assms(1)]
      by (intro exI [of _ e]) (auto simp: entryOlder_def less_CacheKey_def)
    moreover have "gm_get (entries c') k = (if k = old then None else gm_get (entries p) k)" if "k \<noteq> key" for k
      using get(2) [OF that] False old(3) by simp
    then have "cache_view t c' k = (if k = old then None else cache_view t p k)" if "k \<noteq> key" for t k
      using that by (simp add: cache_view_def)
    ultimately show ?thesis using False new same by (auto simp: fun_eq_iff intro!: exI [of _ old])
  qed
  show ?thesis
    by (intro exI [of _ v] exI [of _ b] conjI) (use stored(5,6) rep pend effect in blast)+
qed auto

theorem store_effect_witness:
  "oldest_live 4 sample_cache sample_key \<and>
   cache_view 4 (snd (StoreResponseForRequest 4 ''r2'' [sample_state 332] [''team''] sample_cache)) =
     (cache_view 4 sample_cache)(sample_key := None, sample_key2 := Some (sample_state 332))"
proof -
  have live: "live_keys 4 sample_cache = {sample_key}"
    by (auto simp: live_keys_def cache_view_def sample_entries gm_get_def Hour_def Minute_def Second_def)
  have cap: "maxEntries sample_cache = 1" by code_simp
  have full: "\<not> (False \<or> int (card (live_keys 4 sample_cache)) < maxEntries sample_cache)"
    by (simp add: live cap)
  have only: "k = sample_key" if "oldest_live 4 sample_cache k" for k
    using that by (auto simp: oldest_live_def sample_entries gm_get_def split: if_splits)
  let ?c = "snd (StoreResponseForRequest 4 ''r2'' [sample_state 332] [''team''] sample_cache)"
  obtain old where old: "oldest_live 4 sample_cache old"
    "\<forall>t \<ge> 4. cache_view t ?c = (cache_view t sample_cache)
       (old := None, sample_key2 := if t < 4 + Hour then Some (sample_state 332) else None)"
    using store_effect [OF sample_cache_inv sample_store, unfolded if_not_P [OF full]]
    unfolding sample_store by auto
  then show ?thesis using only [OF old(1)] by (simp add: Hour_def Minute_def Second_def)
qed

text \<open>
  The reference for what may be captured: a state of the length of its plan's family, as
  \<open>CanonicalPlan\<close> of the prewarm package decides it, or of an accepted length when the plan is
  missing or unknown. The plan is the one given with the capture, else the one bound before.
\<close>

definition admissible :: "int list \<Rightarrow> string \<Rightarrow> string \<Rightarrow> bool" where
  "admissible lens rawPlan v \<longleftrightarrow>
     (if CanonicalPlan rawPlan = ''team'' then int (length v) = 332
      else if CanonicalPlan rawPlan = ''pro'' then int (length v) = 292
      else int (length v) \<in> set lens)"

definition effective_plan :: "string list \<Rightarrow> pendingBinding \<Rightarrow> string" where
  "effective_plan planType b = (if planType = [] \<or> hd planType = [] then pb_planType b else hd planType)"

text \<open>The two lists of plan names, in \<open>cache.go\<close> and in \<open>config.go\<close>, name the same families.\<close>

lemma validate_iff:
  "validatePlanAndLength c values rawPlan = Some v \<longleftrightarrow>
     values = [v] \<and> admissible (acceptedLengths c) rawPlan v"
proof (cases "values")
  case Nil
  then show ?thesis by (simp add: validatePlanAndLength_def)
next
  case (Cons x xs)
  have known: "CanonicalPlan rawPlan = ''team'' \<longleftrightarrow>
      ToLower (TrimSpace rawPlan) \<in> {''team'', ''business'', ''self_serve_business_prolite''}"
    "CanonicalPlan rawPlan = ''pro'' \<longleftrightarrow>
      ToLower (TrimSpace rawPlan) \<in> {''pro'', ''plus'', ''free'', ''individual''}"
    by (auto simp: CanonicalPlan_def Let_def pro_plans_def team_plans_def)
  show ?thesis
    unfolding admissible_def known using Cons
    by (cases xs) (auto simp: validatePlanAndLength_def Let_def StateLength_def StateLengthTeam_def)
qed

lemma ValidState_admissible: "ValidState s (CanonicalPlan raw) \<Longrightarrow> admissible lens raw s"
  using ValidState_length [of s "CanonicalPlan raw"] CanonicalPlan_range [of raw]
    ValidState_plan [of s "CanonicalPlan raw"] by (auto simp: admissible_def)

text \<open>
  C26. Exactly which captures are accepted: the request is bound and not older than two hours,
  there is exactly one value, and it is admissible for the plan given with it, or else for the
  plan bound to the request. A refused capture stores nothing and changes no live value. Both
  halves of the plugin agree on the plan families: a state that the engine would accept for the
  plan (\<open>ValidState\<close> of its \<open>CanonicalPlan\<close>) is never refused for its length.
\<close>

theorem capture_accepted_iff:
  assumes "cache_inv c"
  shows "case StoreResponseForRequest now r values planType c of ((key, stored, replaced), c') \<Rightarrow>
    (stored \<longleftrightarrow> (\<exists>b v. gm_get (pending c) r = Some b \<and> now < pb_expiresAt b \<and> values = [v] \<and>
       admissible (acceptedLengths c) (effective_plan planType b) v)) \<and>
    (\<not> stored \<longrightarrow> (key, stored, replaced) = no_store \<and> (\<forall>t \<ge> now. cache_view t c' = cache_view t c)) \<and>
    (\<forall>b s. gm_get (pending c) r = Some b \<and> now < pb_expiresAt b \<and> values = [s] \<and>
       ValidState s (CanonicalPlan (effective_plan planType b)) \<longrightarrow> stored \<and> key = pb_key b)"
proof (cases "gm_get (pending (purgeExpiredLocked now c)) r")
  case None
  then have dead: "\<nexists>b. gm_get (pending c) r = Some b \<and> now < pb_expiresAt b"
    using assms by (auto simp: purge_get_pending cache_invD split: option.splits)
  have "StoreResponseForRequest now r values planType c \<in> {(no_store, c), (no_store, purgeExpiredLocked now c)}"
    using None by (simp add: StoreResponseForRequest_def Let_def)
  with dead show ?thesis
    by (auto simp: no_store_def cache_view_purge [OF assms] split: prod.split)
next
  case (Some b)
  let ?p = "purgeExpiredLocked now c"
  have b: "gm_get (pending c) r = Some b" "now < pb_expiresAt b"
    using purge_get_pending_Some [OF assms Some] by simp_all
  have r: "r \<noteq> []" using assms b(1) by (auto simp: cache_inv_def pending_ok_def dest: list_all_get)
  have "(if (case planType of [] \<Rightarrow> [] | q # _ \<Rightarrow> q) = [] \<and> pb_planType b \<noteq> []
      then pb_planType b else (case planType of [] \<Rightarrow> [] | q # _ \<Rightarrow> q)) = effective_plan planType b"
    by (auto simp: effective_plan_def split: list.split)
  then have store: "StoreResponseForRequest now r values planType c =
      (case validatePlanAndLength ?p values (effective_plan planType b) of
         None \<Rightarrow> (no_store, ?p)
       | Some value \<Rightarrow> let (replaced, c) = storeLocked (pb_key b) value now ?p in ((pb_key b, True, replaced), c))"
    using r Some by (simp add: StoreResponseForRequest_def Let_def)
  show ?thesis
  proof (cases "validatePlanAndLength ?p values (effective_plan planType b)")
    case None
    then have "\<not> (\<exists>v. values = [v] \<and> admissible (acceptedLengths c) (effective_plan planType b) v)"
      using validate_iff [of ?p "values" "effective_plan planType b"] by auto
    with None b show ?thesis
      unfolding store using ValidState_admissible by (auto simp: no_store_def cache_view_purge [OF assms])
  next
    case (Some v)
    then have "values = [v] \<and> admissible (acceptedLengths c) (effective_plan planType b) v"
      using validate_iff [of ?p "values" "effective_plan planType b" v] by simp
    with Some b show ?thesis unfolding store by (auto split: prod.split)
  qed
qed

theorem capture_accepted_iff_witness:
  "fst (snd (fst (StoreResponseForRequest 4 ''r2'' [sample_state 332] [''team''] sample_cache))) \<and>
   fst (StoreResponseForRequest 4 ''r2'' [sample_state 292] ['' Business''] sample_cache) = no_store"
proof -
  have p: "pending sample_cache = [(''r1'', \<lparr>pb_key = sample_key, pb_planType = [], pb_createdAt = 1, pb_expiresAt = 1 + 2 * Hour\<rparr>),
      (''r2'', \<lparr>pb_key = sample_key2, pb_planType = [], pb_createdAt = 3, pb_expiresAt = 3 + 2 * Hour\<rparr>)]"
    by code_simp
  have "CanonicalPlan ''team'' = ''team''" "CanonicalPlan '' Business'' = ''team''" by code_simp+
  moreover have "length (sample_state 332) = 332" "length (sample_state 292) = 292" by (simp_all add: sample_state_def)
  ultimately show ?thesis
    using capture_accepted_iff [OF sample_cache_inv, of "''r2''" 4 "[sample_state 332]" "[''team'']"]
      capture_accepted_iff [OF sample_cache_inv, of "''r2''" 4 "[sample_state 292]" "['' Business'']"]
    by (auto simp: p gm_get_def admissible_def effective_plan_def Hour_def Minute_def Second_def split: prod.splits)
qed

text \<open>
  C34. Eviction from a full table of states removes exactly as many pairs as make room for
  one, and removes the oldest: whatever is removed was captured before everything that
  stays, or at the same time with a smaller key.
\<close>

theorem evictEntries_oldest_first:
  assumes "cache_inv c" and "maxEntries c \<le> gm_len (entries c)"
  shows "gm_len (entries (evictEntriesLocked c)) = maxEntries c - 1 \<and>
    set (entries (evictEntriesLocked c)) \<subseteq> set (entries c) \<and>
    (\<forall>x \<in> set (entries c) - set (entries (evictEntriesLocked c)).
       \<forall>y \<in> set (entries (evictEntriesLocked c)).
         se_capturedAt (snd x) < se_capturedAt (snd y) \<or>
         se_capturedAt (snd x) = se_capturedAt (snd y) \<and> fst x < fst y)"
proof (intro conjI ballI)
  note inv = cache_invD [OF assms(1)]
  show "gm_len (entries (evictEntriesLocked c)) = maxEntries c - 1"
    using inv assms(2) by (simp add: evictEntriesLocked_def evict_loop_length)
  show "set (entries (evictEntriesLocked c)) \<subseteq> set (entries c)"
    by (simp add: evictEntriesLocked_def evict_loop_subset)
  fix x y
  assume "x \<in> set (entries c) - set (entries (evictEntriesLocked c))"
    and "y \<in> set (entries (evictEntriesLocked c))"
  then have "entryOlder x y"
    using entry_order.evict_loop_oldest [OF inv(1), of x "maxEntries c" y]
    by (simp add: evictEntriesLocked_def)
  then show "se_capturedAt (snd x) < se_capturedAt (snd y) \<or>
      se_capturedAt (snd x) = se_capturedAt (snd y) \<and> fst x < fst y"
    by (simp add: entryOlder_def less_CacheKey_def)
qed

theorem evictEntries_oldest_first_witness:
  "maxEntries sample_cache = 1 \<and> gm_len (entries (evictEntriesLocked sample_cache)) = 0"
proof -
  have cap: "maxEntries sample_cache = 1" by code_simp
  have "maxEntries sample_cache \<le> gm_len (entries sample_cache)"
    by (simp add: cap sample_entries gm_len_def)
  from evictEntries_oldest_first [OF sample_cache_inv this] cap show ?thesis by simp
qed

text \<open>
  C35. Eviction does not depend on the order in which Go iterates over its maps: two caches
  with the same contents and capacities keep the same contents, in both tables.
\<close>

theorem eviction_order_free:
  assumes "cache_inv c" and "cache_inv d"
    and "set (entries c) = set (entries d)" and "set (pending c) = set (pending d)"
    and "maxEntries c = maxEntries d" and "maxPendingEntries c = maxPendingEntries d"
  shows "set (entries (evictEntriesLocked c)) = set (entries (evictEntriesLocked d)) \<and>
    set (pending (evictPendingLocked c)) = set (pending (evictPendingLocked d))"
  using entry_order.evict_loop_order_free [OF cache_invD(1) cache_invD(1) assms(3), of "maxEntries d"]
    pending_order.evict_loop_order_free [OF cache_invD(2) cache_invD(2) assms(4), of "maxPendingEntries d"]
    assms by (simp add: evictEntriesLocked_def evictPendingLocked_def)

definition sample_wide :: Cache where
  "sample_wide = cache_run (sample_ops @ [(4, OpStore ''r2'' [sample_state 332] [''team''])]) (NewCache 3 2 [])"

theorem eviction_order_free_witness:
  "let c = sample_wide\<lparr>maxEntries := 2\<rparr>; d = c\<lparr>entries := rev (entries c), pending := rev (pending c)\<rparr> in
   entries c \<noteq> entries d \<and> set (entries (evictEntriesLocked c)) = set (entries (evictEntriesLocked d))"
proof -
  define c where "c = sample_wide\<lparr>maxEntries := 2\<rparr>"
  define d where "d = c\<lparr>entries := rev (entries c), pending := rev (pending c)\<rparr>"
  have "cache_inv sample_wide"
    unfolding sample_wide_def by (intro cache_inv_run cache_inv_NewCache)
  moreover have "gm_len (entries sample_wide) = 2" by code_simp
  ultimately have c: "cache_inv c" by (simp add: c_def cache_inv_def)
  then have d: "cache_inv d"
    by (simp add: d_def cache_inv_def gm_wf_def gm_len_def rev_map [symmetric])
  have "entries sample_wide \<noteq> rev (entries sample_wide)" by code_simp
  then have "entries c \<noteq> entries d" by (simp add: c_def d_def)
  then show ?thesis
    using eviction_order_free [OF c d] by (simp add: d_def c_def Let_def)
qed

text \<open>
  The eviction loops end: from every well-formed cache the loops as written return, and
  return the tables the model computes with.
\<close>

theorem eviction_terminates:
  assumes "cache_inv c"
  shows "evict_go entryOlder (maxEntries c) (entries c) = Some (entries (evictEntriesLocked c)) \<and>
    evict_go pendingOlder (maxPendingEntries c) (pending c) = Some (pending (evictPendingLocked c))"
  using cache_invD [OF assms]
  by (simp add: evict_go_total evictEntriesLocked_def evictPendingLocked_def)

theorem eviction_terminates_witness:
  "evict_go entryOlder 1 (entries sample_cache) = Some (entries (evictEntriesLocked sample_cache))"
proof -
  have "maxEntries sample_cache = 1" by code_simp
  with eviction_terminates [OF sample_cache_inv] show ?thesis by simp
qed

text \<open>
  C27. Where a cached value comes from. In any run from an empty cache, a value cached for
  an account and model was the single value of a capture made by a request that was bound to
  exactly that account and model less than two hours earlier, and that request had neither
  completed nor been bound again in between.
\<close>

theorem cache_provenance:
  assumes "gm_get (entries (cache_run ops (NewCache maxE maxP lens))) k = Some e"
  shows "\<exists>pre t0 r mid plan post.
      ops = pre @ (t0, OpBindRequest r k) # mid @ (se_capturedAt e, OpStore r [se_value e] plan) # post \<and>
      (\<forall>x \<in> set mid. \<not> rebinds r x) \<and> se_capturedAt e < t0 + 2 * Hour"
proof -
  have "captured_by ops k e"
    using cache_inv_NewCache NewCache_empty assms by (rule entries_captured_by)
  then obtain pre r b plan post where
    ops: "ops = pre @ (se_capturedAt e, OpStore r [se_value e] plan) # post"
    and b: "pb_key b = k" "bound_by pre r b" "se_capturedAt e < pb_createdAt b + pendingTTL"
    unfolding captured_by_def by blast
  from b(2) obtain pre' mid where
    "pre = pre' @ (pb_createdAt b, OpBindRequest r (pb_key b)) # mid" "\<forall>x \<in> set mid. \<not> rebinds r x"
    unfolding bound_by_def by blast
  with ops b show ?thesis
    by (intro exI [of _ pre'] exI [of _ "pb_createdAt b"] exI [of _ r] exI [of _ mid]
        exI [of _ plan] exI [of _ post]) (auto simp: pendingTTL_def)
qed

theorem cache_provenance_witness:
  "\<exists>pre t0 r mid plan post.
     sample_ops = pre @ (t0, OpBindRequest r sample_key) # mid @ (2, OpStore r [sample_state 292] plan) # post"
proof -
  have "gm_get (entries (cache_run sample_ops (NewCache 1 2 []))) sample_key =
      Some \<lparr>se_value = sample_state 292, se_capturedAt = 2, se_expiresAt = 2 + Hour\<rparr>"
    using sample_entries by (simp add: sample_cache_def gm_get_def)
  from cache_provenance [OF this] show ?thesis by simp blast
qed

text \<open>
  A completed request cannot populate the cache any more: after \<open>ForgetRequest\<close>, and
  until the same request ID is bound again, every capture for it is refused and leaves the
  abstract cache as it is.
\<close>

theorem completed_request_refused:
  assumes "cache_inv c" and "\<And>t k. (t, OpBindRequest r k) \<notin> set ops" and "now \<le> t"
  shows "let d = cache_run ops (ForgetRequest r c); res = StoreResponseForRequest now r values planType d
         in fst res = no_store \<and> cache_view t (snd res) = cache_view t d"
proof -
  define d where "d = cache_run ops (ForgetRequest r c)"
  have inv: "cache_inv d" using assms(1) by (simp add: d_def cache_inv_run cache_inv_ForgetRequest)
  have "gm_get (pending d) r = None"
    unfolding d_def using assms(2)
  proof (induction ops rule: rev_induct)
    case Nil
    have "gm_get (pending c) [] = None"
      using assms(1) by (cases "gm_get (pending c) []")
        (auto simp: cache_inv_def pending_ok_def dest: list_all_get)
    then show ?case by (auto simp: ForgetRequest_def)
  next
    case (snoc x ops)
    then have none: "gm_get (pending (cache_run ops (ForgetRequest r c))) r = None" by auto
    have inv: "cache_inv (cache_run ops (ForgetRequest r c))"
      using assms(1) by (simp add: cache_inv_run cache_inv_ForgetRequest)
    show ?case
    proof (rule ccontr)
      assume "\<not> ?case"
      then obtain b where "gm_get (pending (cache_apply x (cache_run ops (ForgetRequest r c)))) r = Some b"
        by auto
      from pending_step [OF inv this] none snoc.prems show False by auto
    qed
  qed
  then have "gm_get (pending (purgeExpiredLocked now d)) r = None"
    using inv by (simp add: purge_get_pending cache_invD)
  then have "fst (StoreResponseForRequest now r values planType d) = no_store \<and>
      cache_view t (snd (StoreResponseForRequest now r values planType d)) = cache_view t d"
    using inv assms(3) by (simp add: StoreResponseForRequest_def Let_def cache_view_purge)
  then show ?thesis by (simp add: d_def Let_def)
qed

theorem completed_request_refused_witness:
  "fst (StoreResponseForRequest 5 ''r2'' [sample_state 332] [''team'']
     (cache_run [(4, OpLookup sample_key)] (ForgetRequest ''r2'' sample_cache))) = no_store"
proof -
  have "(t, OpBindRequest ''r2'' k) \<notin> set [(4, OpLookup sample_key)]" for t :: gotime and k
    by simp
  from completed_request_refused [OF sample_cache_inv this, of 5 5] show ?thesis
    by (simp add: Let_def)
qed

end
