(* ===== verification/Json.thy ===== *)
theory Json
  imports Go_Text
begin

text \<open>
  \<open>encoding/json\<close> as the program uses it. As in the Go package, a document is checked by an
  automaton that reads one byte at a time and keeps a stack of open arrays and objects; here
  the automaton also builds the value. \<open>json_parse\<close> is \<open>None\<close> for every syntax error, for
  input after the value and for nesting deeper than 10000. \<open>unquote\<close> decodes escapes and
  surrogate pairs and replaces invalid UTF-8 by U+FFFD.

  Decoding into a \<open>map[string]any\<close> is \<open>unmarshal_map\<close>. The decoding into the structs of
  \<open>completion.go\<close> is in the theory of that component.
\<close>

datatype json =
    JNull
  | JBool bool
  | JNum string
  | JStr string
  | JArr "json list"
  | JObj "(string \<times> json) list"

section \<open>Strings\<close>

definition is_hex :: "char \<Rightarrow> bool" where
  "is_hex c \<longleftrightarrow> is_digit c \<or> (97 \<le> byte c \<and> byte c \<le> 102) \<or> (65 \<le> byte c \<and> byte c \<le> 70)"

definition hex_val :: "char \<Rightarrow> nat" where
  "hex_val c = (if is_digit c then byte c - 48 else if is_lower c then byte c - 87 else byte c - 55)"

definition hex4 :: "string \<Rightarrow> nat" where
  "hex4 s = foldl (\<lambda>n c. 16 * n + hex_val c) 0 (take 4 s)"

definition utf8_encode :: "nat \<Rightarrow> string" where
  "utf8_encode n =
     (if n < 128 then [char_of n]
      else if n < 2048 then [char_of (192 + n div 64), char_of (128 + n mod 64)]
      else if (55296 \<le> n \<and> n < 57344) \<or> 1114111 < n then [CHR 0xEF, CHR 0xBF, CHR 0xBD]
      else if n < 65536 then
        [char_of (224 + n div 4096), char_of (128 + n div 64 mod 64), char_of (128 + n mod 64)]
      else [char_of (240 + n div 262144), char_of (128 + n div 4096 mod 64),
            char_of (128 + n div 64 mod 64), char_of (128 + n mod 64)])"

definition cont :: "nat \<Rightarrow> nat \<Rightarrow> char \<Rightarrow> bool" where
  "cont lo hi c \<longleftrightarrow> lo \<le> byte c \<and> byte c \<le> hi"

text \<open>The length of the valid multi-byte rune at the front, 0 when there is none.\<close>

definition utf8_len :: "string \<Rightarrow> nat" where
  "utf8_len s =
     (case s of
        a # b # r \<Rightarrow>
          (let x = byte a in
           if 194 \<le> x \<and> x \<le> 223 then (if cont 128 191 b then 2 else 0)
           else if 224 \<le> x \<and> x \<le> 239 then
             (let lo = (if x = 224 then 160 else 128); hi = (if x = 237 then 159 else 191) in
              (case r of c # _ \<Rightarrow> if cont lo hi b \<and> cont 128 191 c then 3 else 0 | [] \<Rightarrow> 0))
           else if 240 \<le> x \<and> x \<le> 244 then
             (let lo = (if x = 240 then 144 else 128); hi = (if x = 244 then 143 else 191) in
              (case r of c # d # _ \<Rightarrow>
                 if cont lo hi b \<and> cont 128 191 c \<and> cont 128 191 d then 4 else 0 | _ \<Rightarrow> 0))
           else 0)
      | _ \<Rightarrow> 0)"

definition unescape :: "char \<Rightarrow> char" where
  "unescape e =
     (if e = CHR ''b'' then CHR 0x08 else if e = CHR ''f'' then CHR 0x0C
      else if e = CHR ''n'' then CHR 0x0A else if e = CHR ''r'' then CHR 0x0D
      else if e = CHR ''t'' then CHR 0x09 else e)"

fun unquote :: "string \<Rightarrow> string" where
  "unquote [] = []"
| "unquote (c # cs) =
     (if c = CHR 0x5C then
        (if take 1 cs = ''u'' then
           (let n = hex4 (drop 1 cs); n2 = hex4 (drop 7 cs) in
            if 55296 \<le> n \<and> n < 57344 then
              (if n < 56320 \<and> take 2 (drop 5 cs) = [CHR 0x5C, CHR ''u''] \<and>
                  56320 \<le> n2 \<and> n2 < 57344
               then utf8_encode (65536 + (n - 55296) * 1024 + (n2 - 56320)) @ unquote (drop 11 cs)
               else utf8_encode n @ unquote (drop 5 cs))
            else utf8_encode n @ unquote (drop 5 cs))
         else map unescape (take 1 cs) @ unquote (drop 1 cs))
      else if byte c < 128 then c # unquote cs
      else if utf8_len (c # cs) = 0 then [CHR 0xEF, CHR 0xBF, CHR 0xBD] @ unquote cs
      else take (utf8_len (c # cs)) (c # cs) @ unquote (drop (utf8_len (c # cs) - 1) cs))"

section \<open>Numbers\<close>

datatype numst = NNeg | NZero | NInt | NDot | NFrac | NExp | NExpSign | NExpDigits

definition num_next :: "numst \<Rightarrow> char \<Rightarrow> numst option" where
  "num_next s c =
     (let dig = is_digit c; ex = (c = CHR ''e'' \<or> c = CHR ''E'') in
      case s of
        NNeg \<Rightarrow> if c = CHR ''0'' then Some NZero else if dig then Some NInt else None
      | NZero \<Rightarrow> if c = CHR ''.'' then Some NDot else if ex then Some NExp else None
      | NInt \<Rightarrow> if dig then Some NInt else if c = CHR ''.'' then Some NDot
                 else if ex then Some NExp else None
      | NDot \<Rightarrow> if dig then Some NFrac else None
      | NFrac \<Rightarrow> if dig then Some NFrac else if ex then Some NExp else None
      | NExp \<Rightarrow> if c = CHR ''+'' \<or> c = CHR ''-'' then Some NExpSign
                 else if dig then Some NExpDigits else None
      | NExpSign \<Rightarrow> if dig then Some NExpDigits else None
      | NExpDigits \<Rightarrow> if dig then Some NExpDigits else None)"

definition num_final :: "numst \<Rightarrow> bool" where
  "num_final s \<longleftrightarrow> s \<in> {NZero, NInt, NFrac, NExpDigits}"

definition digits_val :: "string \<Rightarrow> int" where
  "digits_val s = foldl (\<lambda>n c. 10 * n + int (byte c - 48)) 0 s"

text \<open>
  Whether the number is too large for a \<open>float64\<close>, which is an error when the target is an
  \<open>any\<close>: its absolute value is at least the largest finite value plus half an ulp.
\<close>

definition float_overflow :: "string \<Rightarrow> bool" where
  "float_overflow s =
     (let s = dropWhile (\<lambda>c. c = CHR ''-'') s;
          ip = takeWhile is_digit s; r = dropWhile is_digit s;
          fp = (if take 1 r = ''.'' then takeWhile is_digit (tl r) else []);
          r = (if take 1 r = ''.'' then dropWhile is_digit (tl r) else r);
          ex = (case r of
                  [] \<Rightarrow> 0
                | _ # t \<Rightarrow> if take 1 t = ''-'' then - digits_val (tl t)
                           else if take 1 t = ''+'' then digits_val (tl t) else digits_val t);
          m = digits_val (ip @ fp); e = ex - int (length fp);
          lim = 2 ^ 1024 - 2 ^ 970
      in if 0 \<le> e then lim \<le> m * 10 ^ nat e else lim * 10 ^ nat (- e) \<le> m)"

section \<open>The automaton\<close>

datatype frame = FArr "json list" | FObj "(string \<times> json) list" "string option"

datatype jmode =
    MValue | MFirstElem | MFirstKey | MKey | MColon | MAfter
  | MStr bool string | MEsc bool string | MHex bool string nat
  | MLit string json | MNum numst string | MFail

record jstate =
  js_mode :: jmode
  js_stack :: "frame list"
  js_top :: "json option"

definition max_nesting :: int where "max_nesting = 10000"

definition json_space :: "char \<Rightarrow> bool" where
  "json_space c \<longleftrightarrow> c = CHR 0x20 \<or> c = CHR 0x09 \<or> c = CHR 0x0D \<or> c = CHR 0x0A"

definition js_fail :: "jstate \<Rightarrow> jstate" where
  "js_fail j = j\<lparr>js_mode := MFail\<rparr>"

definition js_goto :: "jmode \<Rightarrow> jstate \<Rightarrow> jstate" where
  "js_goto m j = j\<lparr>js_mode := m\<rparr>"

definition js_push :: "frame \<Rightarrow> jmode \<Rightarrow> jstate \<Rightarrow> jstate" where
  "js_push f m j =
     (if int (length (js_stack j)) < max_nesting
      then j\<lparr>js_stack := f # js_stack j, js_mode := m\<rparr> else js_fail j)"

definition js_value :: "json \<Rightarrow> jstate \<Rightarrow> jstate" where
  "js_value v j =
     (case js_stack j of
        [] \<Rightarrow> j\<lparr>js_top := Some v, js_mode := MAfter\<rparr>
      | FArr vs # st \<Rightarrow> j\<lparr>js_stack := FArr (v # vs) # st, js_mode := MAfter\<rparr>
      | FObj fs (Some k) # st \<Rightarrow> j\<lparr>js_stack := FObj ((k, v) # fs) None # st, js_mode := MAfter\<rparr>
      | FObj fs None # st \<Rightarrow> js_fail j)"

definition js_close :: "jstate \<Rightarrow> jstate" where
  "js_close j =
     (case js_stack j of
        FArr vs # st \<Rightarrow> js_value (JArr (rev vs)) (j\<lparr>js_stack := st\<rparr>)
      | FObj fs None # st \<Rightarrow> js_value (JObj (rev fs)) (j\<lparr>js_stack := st\<rparr>)
      | _ \<Rightarrow> js_fail j)"

definition js_begin :: "char \<Rightarrow> jstate \<Rightarrow> jstate" where
  "js_begin c j =
     (if json_space c then j
      else if c = CHR ''{'' then js_push (FObj [] None) MFirstKey j
      else if c = CHR ''['' then js_push (FArr []) MFirstElem j
      else if c = CHR 0x22 then js_goto (MStr False []) j
      else if c = CHR ''-'' then js_goto (MNum NNeg [c]) j
      else if c = CHR ''0'' then js_goto (MNum NZero [c]) j
      else if is_digit c then js_goto (MNum NInt [c]) j
      else if c = CHR ''t'' then js_goto (MLit ''rue'' (JBool True)) j
      else if c = CHR ''f'' then js_goto (MLit ''alse'' (JBool False)) j
      else if c = CHR ''n'' then js_goto (MLit ''ull'' JNull) j
      else js_fail j)"

definition js_after :: "char \<Rightarrow> jstate \<Rightarrow> jstate" where
  "js_after c j =
     (if json_space c then j
      else case js_stack j of
             [] \<Rightarrow> js_fail j
           | FArr _ # _ \<Rightarrow> if c = CHR '','' then js_goto MValue j
                           else if c = CHR '']'' then js_close j else js_fail j
           | FObj _ _ # _ \<Rightarrow> if c = CHR '','' then js_goto MKey j
                             else if c = CHR ''}'' then js_close j else js_fail j)"

definition js_string_end :: "bool \<Rightarrow> string \<Rightarrow> jstate \<Rightarrow> jstate" where
  "js_string_end key acc j =
     (let s = unquote (rev acc) in
      if key then
        (case js_stack j of
           FObj fs None # st \<Rightarrow> j\<lparr>js_stack := FObj fs (Some s) # st, js_mode := MColon\<rparr>
         | _ \<Rightarrow> js_fail j)
      else js_value (JStr s) j)"

definition js_step :: "jstate \<Rightarrow> char \<Rightarrow> jstate" where
  "js_step j c =
     (case js_mode j of
        MValue \<Rightarrow> js_begin c j
      | MFirstElem \<Rightarrow> if c = CHR '']'' then js_close j
                      else if json_space c then j else js_begin c j
      | MFirstKey \<Rightarrow> if json_space c then j
                     else if c = CHR ''}'' then js_close j
                     else if c = CHR 0x22 then js_goto (MStr True []) j else js_fail j
      | MKey \<Rightarrow> if json_space c then j
                else if c = CHR 0x22 then js_goto (MStr True []) j else js_fail j
      | MColon \<Rightarrow> if json_space c then j
                  else if c = CHR '':'' then js_goto MValue j else js_fail j
      | MAfter \<Rightarrow> js_after c j
      | MStr key acc \<Rightarrow> if c = CHR 0x22 then js_string_end key acc j
                        else if c = CHR 0x5C then js_goto (MEsc key (c # acc)) j
                        else if byte c < 32 then js_fail j
                        else js_goto (MStr key (c # acc)) j
      | MEsc key acc \<Rightarrow> if c = CHR ''u'' then js_goto (MHex key (c # acc) 4) j
                        else if c \<in> set ''bfnrt/'' \<or> c = CHR 0x5C \<or> c = CHR 0x22
                        then js_goto (MStr key (c # acc)) j else js_fail j
      | MHex key acc n \<Rightarrow> if \<not> is_hex c then js_fail j
                          else if n \<le> 1 then js_goto (MStr key (c # acc)) j
                          else js_goto (MHex key (c # acc) (n - 1)) j
      | MLit s v \<Rightarrow> if take 1 s = [c]
                    then (if length s \<le> 1 then js_value v j else js_goto (MLit (tl s) v) j)
                    else js_fail j
      | MNum s acc \<Rightarrow>
          (case num_next s c of
             Some s' \<Rightarrow> js_goto (MNum s' (c # acc)) j
           | None \<Rightarrow>
               if num_final s then
                 (let j' = js_value (JNum (rev acc)) j in
                  if js_mode j' = MAfter then js_after c j' else j')
               else js_fail j)
      | MFail \<Rightarrow> j)"

definition json_parse :: "string \<Rightarrow> json option" where
  "json_parse s =
     (let j = foldl js_step \<lparr>js_mode = MValue, js_stack = [], js_top = None\<rparr> s;
          j = (case js_mode j of
                 MNum n acc \<Rightarrow> if num_final n then js_value (JNum (rev acc)) j else js_fail j
               | _ \<Rightarrow> j)
      in if js_mode j = MAfter \<and> js_stack j = [] then js_top j else None)"

section \<open>Decoding into an untyped map\<close>

fun json_any_ok :: "json \<Rightarrow> bool" where
  "json_any_ok (JNum s) = (\<not> float_overflow s)"
| "json_any_ok (JArr vs) = list_all json_any_ok vs"
| "json_any_ok (JObj fs) = list_all (\<lambda>kv. json_any_ok (snd kv)) fs"
| "json_any_ok _ = True"

text \<open>The fields of an object as a map: a repeated key keeps its last value.\<close>

definition as_map :: "(string \<times> 'v) list \<Rightarrow> (string, 'v) gomap" where
  "as_map fs = foldl (\<lambda>m kv. gm_put (fst kv) (snd kv) m) [] fs"

lemma gm_wf_as_map [simp]:
  fixes fs :: "(string \<times> 'v) list"
  shows "gm_wf (as_map fs)"
proof -
  have "gm_wf m \<Longrightarrow> gm_wf (foldl (\<lambda>m kv. gm_put (fst kv) (snd kv) m) m fs)" for m :: "(string, 'v) gomap"
    by (induction fs arbitrary: m) auto
  then show ?thesis by (simp add: as_map_def)
qed

definition unmarshal_map :: "string \<Rightarrow> (string, json) gomap option" where
  "unmarshal_map s =
     (case json_parse s of
        None \<Rightarrow> None
      | Some v \<Rightarrow>
          if json_any_ok v then
            (case v of JObj fs \<Rightarrow> Some (as_map fs) | JNull \<Rightarrow> Some [] | _ \<Rightarrow> None)
          else None)"

end
