(* ===== verification/Completion.thy ===== *)
theory Completion
  imports Json
begin

text \<open>
  The watcher of response bodies, \<open>internal/prewarm/completion.go\<close>: it splits a stream of
  bytes into lines, joins the \<open>data:\<close> lines of a server-sent event, decodes the event and
  compares the model of a successful completion with the requested one. Lines, events and
  JSON documents are bounded by \<open>maxEventBytes\<close>.

  \<open>Feed\<close> is the loop over a chunk as written; \<open>feed_byte\<close> is the automaton it implements one
  byte at a time.
\<close>

definition maxEventBytes :: int where "maxEventBytes = 1048576"
definition MaxProbeBytes :: int where "MaxProbeBytes = 4194304"

record Completion =
  co_expected :: string
  co_line :: string
  co_event :: string
  co_completed :: bool
  co_mismatch :: bool
  co_actual :: string
  co_malformed :: bool

definition NewCompletion :: "string \<Rightarrow> Completion" where
  "NewCompletion model =
     \<lparr>co_expected = model, co_line = [], co_event = [], co_completed = False,
      co_mismatch = False, co_actual = [], co_malformed = False\<rparr>"

section \<open>Decoding an event\<close>

text \<open>
  \<open>json.Unmarshal\<close> into the anonymous struct of \<open>Completion.JSON\<close>. Object members are taken in
  order, matched to a field by exact name and otherwise case-insensitively; a string field
  takes a string, ignores \<open>null\<close> and makes the decoding fail on anything else; a raw field
  keeps any value; the \<open>response\<close> pointer is cleared by \<open>null\<close> and otherwise decoded into.
\<close>

record ev_response =
  er_status :: string
  er_model :: string
  er_error :: "json option"

record event =
  ev_type :: string
  ev_object :: string
  ev_status :: string
  ev_model :: string
  ev_error :: "json option"
  ev_response :: "ev_response option"

definition match_field :: "string list \<Rightarrow> string \<Rightarrow> string option" where
  "match_field names k = (if k \<in> set names then Some k else find (EqualFold k) names)"

definition decode_string :: "json \<Rightarrow> string \<Rightarrow> string option" where
  "decode_string j old = (case j of JStr s \<Rightarrow> Some s | JNull \<Rightarrow> Some old | _ \<Rightarrow> None)"

fun decode_response_fields :: "(string \<times> json) list \<Rightarrow> ev_response \<Rightarrow> ev_response option" where
  "decode_response_fields [] r = Some r"
| "decode_response_fields ((k, j) # fs) r =
     (let f = match_field [''status'', ''model'', ''error''] k in
      case (if f = Some ''status'' then
              map_option (\<lambda>s. r\<lparr>er_status := s\<rparr>) (decode_string j (er_status r))
            else if f = Some ''model'' then
              map_option (\<lambda>s. r\<lparr>er_model := s\<rparr>) (decode_string j (er_model r))
            else if f = Some ''error'' then Some (r\<lparr>er_error := Some j\<rparr>)
            else Some r) of
        None \<Rightarrow> None
      | Some r \<Rightarrow> decode_response_fields fs r)"

definition decode_response :: "json \<Rightarrow> ev_response option \<Rightarrow> ev_response option option" where
  "decode_response j old =
     (case j of
        JNull \<Rightarrow> Some None
      | JObj fs \<Rightarrow>
          map_option Some
            (decode_response_fields fs
              (case old of Some r \<Rightarrow> r | None \<Rightarrow> \<lparr>er_status = [], er_model = [], er_error = None\<rparr>))
      | _ \<Rightarrow> None)"

fun decode_event_fields :: "(string \<times> json) list \<Rightarrow> event \<Rightarrow> event option" where
  "decode_event_fields [] e = Some e"
| "decode_event_fields ((k, j) # fs) e =
     (let f = match_field [''type'', ''object'', ''status'', ''model'', ''error'', ''response''] k in
      case (if f = Some ''type'' then
              map_option (\<lambda>s. e\<lparr>ev_type := s\<rparr>) (decode_string j (ev_type e))
            else if f = Some ''object'' then
              map_option (\<lambda>s. e\<lparr>ev_object := s\<rparr>) (decode_string j (ev_object e))
            else if f = Some ''status'' then
              map_option (\<lambda>s. e\<lparr>ev_status := s\<rparr>) (decode_string j (ev_status e))
            else if f = Some ''model'' then
              map_option (\<lambda>s. e\<lparr>ev_model := s\<rparr>) (decode_string j (ev_model e))
            else if f = Some ''error'' then Some (e\<lparr>ev_error := Some j\<rparr>)
            else if f = Some ''response'' then
              map_option (\<lambda>r. e\<lparr>ev_response := r\<rparr>) (decode_response j (ev_response e))
            else Some e) of
        None \<Rightarrow> None
      | Some e \<Rightarrow> decode_event_fields fs e)"

definition unmarshal_event :: "string \<Rightarrow> event option" where
  "unmarshal_event raw =
     (let zero = \<lparr>ev_type = [], ev_object = [], ev_status = [], ev_model = [], ev_error = None,
                  ev_response = None\<rparr> in
      case json_parse raw of
        Some (JObj fs) \<Rightarrow> decode_event_fields fs zero
      | Some JNull \<Rightarrow> Some zero
      | _ \<Rightarrow> None)"

definition noError :: "json option \<Rightarrow> bool" where
  "noError e \<longleftrightarrow> e = None \<or> e = Some JNull"

text \<open>The model of a successful completion event, empty for every other event.\<close>

definition event_model :: "event \<Rightarrow> string" where
  "event_model e =
     (let other = (if ev_object e = ''response'' \<and> ev_status e = ''completed'' \<and> noError (ev_error e)
                   then ev_model e else [])
      in case ev_response e of
           Some r \<Rightarrow>
             if ev_type e = ''response.completed'' \<and> noError (ev_error e) \<and> noError (er_error r) \<and>
                (er_status r = ''completed'' \<or> er_status r = [])
             then er_model r else other
         | None \<Rightarrow> other)"

section \<open>The methods\<close>

definition JSON :: "string \<Rightarrow> Completion \<Rightarrow> Completion" where
  "JSON raw c =
     (if maxEventBytes < int (length raw) then c\<lparr>co_malformed := True\<rparr>
      else case unmarshal_event raw of
             None \<Rightarrow> c\<lparr>co_malformed := True\<rparr>
           | Some e \<Rightarrow>
               let model = event_model e in
               if TrimSpace model \<noteq> [] then
                 c\<lparr>co_actual := model, co_completed := True,
                   co_mismatch := (if model \<noteq> co_expected c then True else co_mismatch c)\<rparr>
               else c)"

definition consumeEvent :: "Completion \<Rightarrow> Completion" where
  "consumeEvent c =
     (let raw = TrimSpace (co_event c); c = c\<lparr>co_event := []\<rparr> in
      if raw = [] \<or> raw = ''[DONE]'' then c else JSON raw c)"

definition trim_suffix :: "char \<Rightarrow> string \<Rightarrow> string" where
  "trim_suffix x s = (if s \<noteq> [] \<and> last s = x then butlast s else s)"

definition trim_prefix :: "char \<Rightarrow> string \<Rightarrow> string" where
  "trim_prefix x s = (if take 1 s = [x] then tl s else s)"

definition consumeLine :: "Completion \<Rightarrow> Completion" where
  "consumeLine c =
     (let line = trim_suffix (CHR 0x0D) (co_line c);
          c = (if line = [] then consumeEvent c
               else if HasPrefix line ''data:'' then
                 (let data = trim_prefix (CHR 0x20) (drop 5 line) in
                  if maxEventBytes < int (length (co_event c)) + int (length data) + 1
                  then c\<lparr>co_malformed := True, co_event := []\<rparr>
                  else c\<lparr>co_event := co_event c @ data @ [CHR 0x0A]\<rparr>)
               else c)
      in c\<lparr>co_line := []\<rparr>)"

definition overflow :: "Completion \<Rightarrow> Completion" where
  "overflow c = c\<lparr>co_malformed := True, co_line := [], co_event := []\<rparr>"

function feed_loop :: "string \<Rightarrow> Completion \<Rightarrow> Completion" where
  "feed_loop p c =
     (if p = [] then c
      else
        let h = takeWhile (\<lambda>b. b \<noteq> CHR 0x0A) p; rest = drop (length h) p in
        if maxEventBytes < int (length (co_line c)) + int (length h) then overflow c
        else
          let c = c\<lparr>co_line := co_line c @ h\<rparr> in
          if rest = [] then c
          else
            let c = consumeLine c in
            if co_malformed c then c else feed_loop (tl rest) c)"
  by pat_completeness auto
termination
  by (relation "measure (\<lambda>(p, c). length p)") auto

declare feed_loop.simps [simp del]

definition Feed :: "string \<Rightarrow> Completion \<Rightarrow> Completion" where
  "Feed p c = (if co_malformed c then c else feed_loop p c)"

definition Finish :: "Completion \<Rightarrow> Completion" where
  "Finish c = consumeEvent (if co_line c \<noteq> [] then consumeLine c else c)"

definition ActualModel :: "Completion \<Rightarrow> string" where
  "ActualModel c = co_actual c"

definition Success :: "Completion \<Rightarrow> bool" where
  "Success c \<longleftrightarrow> co_completed c \<and> \<not> co_mismatch c \<and> \<not> co_malformed c"

definition Mismatch :: "Completion \<Rightarrow> bool" where
  "Mismatch c \<longleftrightarrow> co_completed c \<and> co_mismatch c"

definition EvaluateProbeBody :: "string \<Rightarrow> string \<Rightarrow> bool \<times> string" where
  "EvaluateProbeBody body model =
     (let o1 = NewCompletion model;
          o2 = (if HasPrefix (TrimSpace body) ''{'' then JSON body o1 else Finish (Feed body o1))
      in (Success o2, ActualModel o2))"

text \<open>One byte of a chunk.\<close>

definition feed_byte :: "char \<Rightarrow> Completion \<Rightarrow> Completion" where
  "feed_byte b c =
     (if co_malformed c then c
      else if b = CHR 0x0A then
        (if maxEventBytes < int (length (co_line c)) then overflow c else consumeLine c)
      else if maxEventBytes < int (length (co_line c)) + 1 then overflow c
      else c\<lparr>co_line := co_line c @ [b]\<rparr>)"

section \<open>Feeding chunks and feeding bytes\<close>

lemma overflow_malformed [simp]: "co_malformed (overflow c)"
  by (simp add: overflow_def)

lemma fold_feed_malformed: "co_malformed c \<Longrightarrow> fold feed_byte p c = c"
  by (induction p) (simp_all add: feed_byte_def)

lemma overflow_line [simp]: "overflow (c\<lparr>co_line := l\<rparr>) = overflow c"
  by (simp add: overflow_def)

lemma fold_feed_line:
  assumes "\<not> co_malformed c" and "\<forall>b \<in> set h. b \<noteq> CHR 0x0A" and "int (length (co_line c)) + int (length h) \<le> maxEventBytes"
  shows "fold feed_byte h c = c\<lparr>co_line := co_line c @ h\<rparr>"
  using assms by (induction h arbitrary: c) (simp_all add: feed_byte_def)

lemma fold_feed_line_overflow:
  assumes "\<not> co_malformed c" and "\<forall>b \<in> set h. b \<noteq> CHR 0x0A" and "h \<noteq> []"
    and "maxEventBytes < int (length (co_line c)) + int (length h)"
  shows "fold feed_byte h c = overflow c"
  using assms
proof (induction h arbitrary: c)
  case Nil
  then show ?case by simp
next
  case (Cons b h)
  show ?case
  proof (cases "maxEventBytes < int (length (co_line c)) + 1")
    case True
    with Cons.prems have "feed_byte b c = overflow c" by (simp add: feed_byte_def)
    then show ?thesis by (simp add: fold_feed_malformed)
  next
    case False
    with Cons.prems(4) have "h \<noteq> []" by (cases h) simp_all
    moreover from False Cons.prems have "feed_byte b c = c\<lparr>co_line := co_line c @ [b]\<rparr>"
      by (simp add: feed_byte_def)
    ultimately show ?thesis
      using Cons.prems Cons.IH [of "c\<lparr>co_line := co_line c @ [b]\<rparr>"] by simp
  qed
qed

lemma feed_loop_bytes: "\<not> co_malformed c \<Longrightarrow> feed_loop p c = fold feed_byte p c"
proof (induction p c rule: feed_loop.induct)
  case (1 p c)
  define h where "h = takeWhile (\<lambda>b. b \<noteq> CHR 0x0A) p"
  define rest where "rest = drop (length h) p"
  define c1 where "c1 = c\<lparr>co_line := co_line c @ h\<rparr>"
  have rest_eq: "rest = dropWhile (\<lambda>b. b \<noteq> CHR 0x0A) p"
    unfolding rest_def h_def by (rule dropWhile_eq_drop [symmetric])
  have p: "p = h @ rest"
    unfolding rest_eq h_def by (rule takeWhile_dropWhile_id [symmetric])
  have h: "\<forall>b \<in> set h. b \<noteq> CHR 0x0A" by (auto simp: h_def dest: set_takeWhileD)
  have rest: "rest = [] \<or> rest = CHR 0x0A # tl rest"
    using hd_dropWhile [of "\<lambda>b. b \<noteq> CHR 0x0A" p]
    by (cases rest) (simp_all flip: rest_eq)
  have loop: "feed_loop p c = (if p = [] then c
      else if maxEventBytes < int (length (co_line c)) + int (length h) then overflow c
      else if rest = [] then c1
      else if co_malformed (consumeLine c1) then consumeLine c1
      else feed_loop (tl rest) (consumeLine c1))"
    by (subst feed_loop.simps) (simp add: Let_def h_def rest_def c1_def)
  show ?case
  proof (cases "p = [] \<or> maxEventBytes < int (length (co_line c)) + int (length h)")
    case True
    show ?thesis
    proof (cases "p = []")
      case True
      then show ?thesis by (subst loop) simp
    next
      case nonempty: False
      with True have long: "maxEventBytes < int (length (co_line c)) + int (length h)" by simp
      have "fold feed_byte p c = overflow c"
      proof (cases "h = []")
        case True
        with nonempty rest p obtain q where q: "p = CHR 0x0A # q" by auto
        have "feed_byte (CHR 0x0A) c = overflow c"
          using long True "1.prems" by (simp add: feed_byte_def)
        then show ?thesis by (simp add: q fold_feed_malformed)
      next
        case False
        with h long "1.prems" have "fold feed_byte h c = overflow c"
          by (intro fold_feed_line_overflow)
        then show ?thesis by (simp add: p fold_feed_malformed)
      qed
      with nonempty long show ?thesis by (simp add: loop)
    qed
  next
    case False
    then have le: "int (length (co_line c)) + int (length h) \<le> maxEventBytes" by simp
    with "1.prems" h have line: "fold feed_byte h c = c1"
      by (simp add: fold_feed_line c1_def)
    show ?thesis
    proof (cases "rest = []")
      case True
      with False have "feed_loop p c = c1" by (subst loop) simp
      with True line p show ?thesis by simp
    next
      case False': False
      then obtain q where q: "rest = CHR 0x0A # q" using rest by auto
      have step: "feed_byte (CHR 0x0A) c1 = consumeLine c1"
        using "1.prems" le by (simp add: feed_byte_def c1_def)
      have all: "fold feed_byte p c = fold feed_byte (tl rest) (consumeLine c1)"
        by (simp add: p q line step)
      show ?thesis
      proof (cases "co_malformed (consumeLine c1)")
        case True
        with False False' all show ?thesis by (simp add: loop fold_feed_malformed)
      next
        case ok: False
        have "feed_loop (tl rest) (consumeLine c1) = fold feed_byte (tl rest) (consumeLine c1)"
          using "1.IH" [OF _ h_def rest_def _ c1_def False' refl ok ok] False by auto
        with False False' ok all show ?thesis by (simp add: loop)
      qed
    qed
  qed
qed

lemma Feed_bytes: "Feed p c = fold feed_byte p c"
  by (simp add: Feed_def feed_loop_bytes fold_feed_malformed)

end
