(* ===== verification/Completion_Spec.thy ===== *)
theory Completion_Spec
  imports Completion
begin

text \<open>
  What the watcher of response bodies promises: its result does not depend on how the
  stream was cut into chunks, its buffers stay bounded, an event is assembled from its data
  lines and judged as one JSON document, and a mismatch, once seen, is never lost.
\<close>

section \<open>The invariant\<close>

definition completion_inv :: "Completion \<Rightarrow> bool" where
  "completion_inv c \<longleftrightarrow>
     int (length (co_line c)) \<le> maxEventBytes \<and> int (length (co_event c)) \<le> maxEventBytes \<and>
     (co_completed c \<longrightarrow> TrimSpace (co_actual c) \<noteq> []) \<and>
     (co_completed c \<and> \<not> co_mismatch c \<longrightarrow> co_actual c = co_expected c) \<and>
     (\<not> co_completed c \<longrightarrow> co_actual c = [] \<and> \<not> co_mismatch c)"

lemma completion_inv_new: "completion_inv (NewCompletion m)"
  by (simp add: completion_inv_def NewCompletion_def maxEventBytes_def)

lemma completion_inv_JSON: "completion_inv c \<Longrightarrow> completion_inv (JSON raw c)"
  by (auto simp: JSON_def completion_inv_def Let_def split: option.splits)

lemma completion_inv_clear:
  "completion_inv c \<Longrightarrow> completion_inv (c\<lparr>co_event := []\<rparr>)"
  "completion_inv c \<Longrightarrow> completion_inv (c\<lparr>co_line := []\<rparr>)"
  "completion_inv c \<Longrightarrow> completion_inv (c\<lparr>co_malformed := b\<rparr>)"
  by (auto simp: completion_inv_def maxEventBytes_def)

lemma completion_inv_consumeEvent: "completion_inv c \<Longrightarrow> completion_inv (consumeEvent c)"
  by (simp add: consumeEvent_def Let_def completion_inv_JSON completion_inv_clear)

lemma completion_inv_consumeLine:
  assumes "completion_inv c"
  shows "completion_inv (consumeLine c)"
proof -
  define data where "data = trim_prefix (CHR 0x20) (drop 5 (trim_suffix (CHR 0x0D) (co_line c)))"
  have "completion_inv (c\<lparr>co_malformed := True, co_event := []\<rparr>)"
    using assms by (auto simp: completion_inv_def maxEventBytes_def)
  moreover have "completion_inv (c\<lparr>co_event := co_event c @ data @ [CHR 0x0A]\<rparr>)"
    if "\<not> maxEventBytes < int (length (co_event c)) + int (length data) + 1"
    using assms that by (auto simp: completion_inv_def)
  ultimately show ?thesis
    using assms completion_inv_consumeEvent [OF assms]
    by (auto simp: consumeLine_def Let_def data_def intro!: completion_inv_clear(2))
qed

lemma completion_inv_overflow: "completion_inv c \<Longrightarrow> completion_inv (overflow c)"
  by (auto simp: overflow_def completion_inv_def maxEventBytes_def)

lemma completion_inv_feed_byte: "completion_inv c \<Longrightarrow> completion_inv (feed_byte b c)"
  by (simp add: feed_byte_def completion_inv_overflow completion_inv_consumeLine)
    (auto simp: completion_inv_def)

lemma completion_inv_Feed: "completion_inv c \<Longrightarrow> completion_inv (Feed p c)"
  unfolding Feed_bytes by (induction p arbitrary: c) (simp_all add: completion_inv_feed_byte)

lemma completion_inv_Finish: "completion_inv c \<Longrightarrow> completion_inv (Finish c)"
  by (simp add: Finish_def completion_inv_consumeEvent completion_inv_consumeLine)

text \<open>The calls the engine and the probe make on a watcher.\<close>

datatype watch_op = WFeed string | WJSON string | WFinish

fun watch_apply :: "watch_op \<Rightarrow> Completion \<Rightarrow> Completion" where
  "watch_apply (WFeed p) c = Feed p c"
| "watch_apply (WJSON p) c = JSON p c"
| "watch_apply WFinish c = Finish c"

lemma completion_inv_watch: "completion_inv c \<Longrightarrow> completion_inv (fold watch_apply ops c)"
proof (induction ops arbitrary: c)
  case Nil
  then show ?case by simp
next
  case (Cons x ops)
  then have "completion_inv (watch_apply x c)"
    by (cases x) (simp_all add: completion_inv_Feed completion_inv_JSON completion_inv_Finish)
  then show ?case using Cons.IH by simp
qed

section \<open>Sticky flags\<close>

definition sticky :: "Completion \<Rightarrow> Completion \<Rightarrow> bool" where
  "sticky c d \<longleftrightarrow> co_expected d = co_expected c \<and> (co_malformed c \<longrightarrow> co_malformed d) \<and>
     (Mismatch c \<longrightarrow> Mismatch d)"

lemma sticky_refl [simp]: "sticky c c"
  by (simp add: sticky_def)

lemma sticky_trans: "sticky c d \<Longrightarrow> sticky d e \<Longrightarrow> sticky c e"
  by (simp add: sticky_def)

lemma sticky_fields [simp]:
  "sticky c (d\<lparr>co_line := l\<rparr>) = sticky c d" "sticky c (d\<lparr>co_event := l\<rparr>) = sticky c d"
  "sticky (c\<lparr>co_line := l\<rparr>) d = sticky c d" "sticky (c\<lparr>co_event := l\<rparr>) d = sticky c d"
  "sticky c (c\<lparr>co_malformed := True\<rparr>)"
  by (simp_all add: sticky_def Mismatch_def)

lemma sticky_JSON: "sticky c (JSON raw c)"
  by (auto simp: JSON_def Let_def sticky_def Mismatch_def split: option.splits)

lemma sticky_consumeEvent: "sticky c (consumeEvent c)"
  using sticky_JSON [of "c\<lparr>co_event := []\<rparr>"] by (simp add: consumeEvent_def Let_def)

lemma sticky_consumeLine: "sticky c (consumeLine c)"
  using sticky_consumeEvent [of c] by (simp add: consumeLine_def Let_def)

lemma sticky_feed_byte: "sticky c (feed_byte b c)"
  by (simp add: feed_byte_def sticky_consumeLine overflow_def)

lemma sticky_Feed: "sticky c (Feed p c)"
  unfolding Feed_bytes
  by (induction p arbitrary: c) (auto intro: sticky_trans sticky_feed_byte)

lemma sticky_Finish: "sticky c (Finish c)"
  using sticky_consumeEvent [of c] sticky_trans [OF sticky_consumeLine sticky_consumeEvent, of c]
  by (simp add: Finish_def)

lemma sticky_watch: "sticky c (fold watch_apply ops c)"
proof (induction ops arbitrary: c)
  case Nil
  then show ?case by simp
next
  case (Cons x ops)
  have "sticky c (watch_apply x c)"
    by (cases x) (simp_all add: sticky_Feed sticky_JSON sticky_Finish)
  from sticky_trans [OF this Cons.IH] show ?case by simp
qed

section \<open>Lines\<close>

lemma consumeLine_data:
  assumes "co_line c = ''data: '' @ l" and "l = [] \<or> last l \<noteq> CHR 0x0D"
    and "int (length (co_event c)) + int (length l) + 1 \<le> maxEventBytes"
  shows "consumeLine c = c\<lparr>co_event := co_event c @ l @ [CHR 0x0A], co_line := []\<rparr>"
proof -
  have "trim_suffix (CHR 0x0D) (co_line c) = ''data: '' @ l"
    using assms(1,2) by (auto simp: trim_suffix_def)
  then show ?thesis
    using assms(3) by (simp add: consumeLine_def Let_def HasPrefix_def trim_prefix_def)
qed

lemma Feed_append: "Feed (p @ q) c = Feed q (Feed p c)"
  by (simp add: Feed_bytes)

lemma Feed_data_line:
  assumes "\<not> co_malformed c" and "co_line c = []" and "CHR 0x0A \<notin> set l"
    and "l = [] \<or> last l \<noteq> CHR 0x0D" and "int (length l) + 6 \<le> maxEventBytes"
    and "int (length (co_event c)) + int (length l) + 1 \<le> maxEventBytes"
  shows "Feed (''data: '' @ l @ [CHR 0x0A]) c = c\<lparr>co_event := co_event c @ l @ [CHR 0x0A]\<rparr>"
proof -
  have "fold feed_byte (''data: '' @ l) c = c\<lparr>co_line := co_line c @ ''data: '' @ l\<rparr>"
    using assms(1,2,3,5) by (intro fold_feed_line) auto
  then have "Feed (''data: '' @ l @ [CHR 0x0A]) c = feed_byte (CHR 0x0A) (c\<lparr>co_line := ''data: '' @ l\<rparr>)"
    using assms(2) fold_append [of feed_byte "''data: '' @ l" "[CHR 0x0A]"] by (simp add: Feed_bytes)
  also have "\<dots> = consumeLine (c\<lparr>co_line := ''data: '' @ l\<rparr>)"
    using assms(1,5) by (simp add: feed_byte_def)
  also have "\<dots> = c\<lparr>co_event := co_event c @ l @ [CHR 0x0A]\<rparr>"
    using assms(2,4,6) by (cases c) (simp add: consumeLine_data)
  finally show ?thesis .
qed

definition join_lines :: "string list \<Rightarrow> string" where
  "join_lines ls = concat (map (\<lambda>l. l @ [CHR 0x0A]) ls)"

definition data_lines :: "string list \<Rightarrow> string" where
  "data_lines ls = concat (map (\<lambda>l. ''data: '' @ l @ [CHR 0x0A]) ls)"

definition sse_line :: "string \<Rightarrow> bool" where
  "sse_line l \<longleftrightarrow> CHR 0x0A \<notin> set l \<and> (l = [] \<or> last l \<noteq> CHR 0x0D) \<and> int (length l) + 6 \<le> maxEventBytes"

lemma Feed_data_lines:
  assumes "\<not> co_malformed c" and "co_line c = []" and "list_all sse_line ls"
    and "int (length (co_event c)) + int (length (join_lines ls)) \<le> maxEventBytes"
  shows "Feed (data_lines ls) c = c\<lparr>co_event := co_event c @ join_lines ls\<rparr>"
  using assms
proof (induction ls arbitrary: c)
  case Nil
  then show ?case by (simp add: data_lines_def join_lines_def Feed_bytes)
next
  case (Cons l ls)
  have "Feed (data_lines (l # ls)) c = Feed (data_lines ls) (Feed (''data: '' @ l @ [CHR 0x0A]) c)"
    using Feed_append [of "''data: '' @ l @ [CHR 0x0A]" "data_lines ls"] by (simp add: data_lines_def)
  also have "\<dots> = Feed (data_lines ls) (c\<lparr>co_event := co_event c @ l @ [CHR 0x0A]\<rparr>)"
    using Cons.prems by (subst Feed_data_line) (auto simp: sse_line_def join_lines_def)
  also have "\<dots> = c\<lparr>co_event := co_event c @ join_lines (l # ls)\<rparr>"
    using Cons.prems by (subst Cons.IH) (auto simp: join_lines_def)
  finally show ?case .
qed

section \<open>Concrete streams for the witnesses\<close>

definition sample_event :: "string \<Rightarrow> string" where
  "sample_event model = map (\<lambda>c. if c = CHR ''~'' then CHR 0x22 else c)
     (''{~type~:~response.completed~,~response~:{~status~:~completed~,~model~:~'' @ model @ ''~}}'')"

section \<open>Properties\<close>

text \<open>
  C36. Chunking does not matter: feeding two chunks in turn leaves the watcher exactly where
  feeding their concatenation does, size limits and malformed streams included.
\<close>

theorem feed_chunking: "Feed q (Feed p c) = Feed (p @ q) c"
  by (simp add: Feed_bytes)

text \<open>
  C37. Bounded memory and honest verdicts. After any sequence of calls on a new watcher the
  two buffers hold at most \<open>maxEventBytes\<close> bytes each, and success means that a completion
  was seen and the model it reported is exactly the requested one.
\<close>

theorem watcher_bounds:
  "let c = fold watch_apply ops (NewCompletion model) in
   int (length (co_line c)) \<le> 1048576 \<and> int (length (co_event c)) \<le> 1048576 \<and>
   (Success c \<longrightarrow> ActualModel c = model \<and> TrimSpace model \<noteq> [])"
proof -
  define c where "c = fold watch_apply ops (NewCompletion model)"
  have "completion_inv c"
    unfolding c_def by (intro completion_inv_watch completion_inv_new)
  moreover have "co_expected c = model"
    using sticky_watch [of "NewCompletion model" ops] by (simp add: sticky_def NewCompletion_def c_def)
  ultimately have "int (length (co_line c)) \<le> 1048576 \<and> int (length (co_event c)) \<le> 1048576 \<and>
      (Success c \<longrightarrow> ActualModel c = model \<and> TrimSpace model \<noteq> [])"
    by (auto simp: completion_inv_def Success_def ActualModel_def maxEventBytes_def)
  then show ?thesis by (simp add: c_def Let_def)
qed

theorem watcher_bounds_witness:
  "Success (fold watch_apply [WFeed (data_lines [sample_event ''gpt'']), WFinish] (NewCompletion ''gpt'')) \<and>
   ActualModel (fold watch_apply [WFeed (data_lines [sample_event ''gpt'']), WFinish] (NewCompletion ''gpt'')) = ''gpt''"
proof -
  have "Success (fold watch_apply [WFeed (data_lines [sample_event ''gpt'']), WFinish] (NewCompletion ''gpt''))"
    by code_simp
  with watcher_bounds [of "[WFeed (data_lines [sample_event ''gpt'']), WFinish]" "''gpt''"] show ?thesis
    by (simp add: Let_def)
qed

text \<open>
  A mismatch is never lost: once a completion of another model has been seen, whatever
  is fed later the watcher still reports the mismatch and never success.
\<close>

theorem mismatch_sticky:
  assumes "Mismatch c"
  shows "Mismatch (fold watch_apply ops c) \<and> \<not> Success (fold watch_apply ops c)"
  using sticky_watch [of c ops] assms by (simp add: sticky_def Mismatch_def Success_def)

theorem mismatch_sticky_witness:
  "\<not> Success (fold watch_apply [WJSON (sample_event ''gpt'')] (JSON (sample_event ''other'') (NewCompletion ''gpt'')))"
proof -
  have "Mismatch (JSON (sample_event ''other'') (NewCompletion ''gpt''))"
    by code_simp
  from mismatch_sticky [OF this] show ?thesis by blast
qed

text \<open>
  An event is the concatenation of its data lines: a blank line after any number of
  \<open>data:\<close> lines hands exactly their joined content, without surrounding white space, to the
  JSON check, unless it is empty or the \<open>[DONE]\<close> marker, which are skipped.
\<close>

theorem event_assembly:
  assumes "\<not> co_malformed c" and "co_line c = []" and "co_event c = []"
    and "list_all sse_line ls" and "int (length (join_lines ls)) \<le> maxEventBytes"
  shows "Feed (data_lines ls @ [CHR 0x0A]) c =
    (let raw = TrimSpace (join_lines ls) in
     if raw = [] \<or> raw = ''[DONE]'' then c else JSON raw c)"
proof -
  have "Feed (data_lines ls @ [CHR 0x0A]) c = Feed [CHR 0x0A] (Feed (data_lines ls) c)"
    by (rule Feed_append)
  also have "\<dots> = feed_byte (CHR 0x0A) (c\<lparr>co_event := join_lines ls\<rparr>)"
    using Feed_data_lines [OF assms(1,2,4)] assms(3,5) by (simp add: Feed_bytes)
  also have "\<dots> = (consumeEvent (c\<lparr>co_event := join_lines ls\<rparr>))\<lparr>co_line := []\<rparr>"
    using assms(1,2) by (simp add: feed_byte_def maxEventBytes_def consumeLine_def trim_suffix_def)
  also have "\<dots> = (let raw = TrimSpace (join_lines ls) in
      if raw = [] \<or> raw = ''[DONE]'' then c else JSON raw c)"
    using assms(2,3) by (auto simp: consumeEvent_def Let_def JSON_def split: option.splits)
  finally show ?thesis .
qed

theorem event_assembly_witness:
  "Feed (data_lines [''{'', ''}''] @ [CHR 0x0A]) (NewCompletion ''gpt'') =
   JSON (''{'' @ [CHR 0x0A] @ ''}'') (NewCompletion ''gpt'')"
proof -
  have "\<not> co_malformed (NewCompletion ''gpt'')" "co_line (NewCompletion ''gpt'') = []"
    "co_event (NewCompletion ''gpt'') = []" "list_all sse_line [''{'', ''}'']"
    "int (length (join_lines [''{'', ''}''])) \<le> maxEventBytes"
    by (simp_all add: NewCompletion_def sse_line_def maxEventBytes_def join_lines_def)
  note eq = event_assembly [OF this]
  have "TrimSpace (join_lines [''{'', ''}'']) = ''{'' @ [CHR 0x0A] @ ''}''" by code_simp
  with eq show ?thesis by (simp add: Let_def)
qed

end
