(* ===== verification/Budget.thy ===== *)
theory Budget
  imports Prelude
begin

text \<open>
  The hourly probe budget, \<open>internal/prewarm/budget.go\<close>. \<open>allow\<close> is the one method, atomic
  under the budget's mutex; the budget outlives the engines that share it, so a run is a list
  of calls with the clock reading and the limit of each (\<open>budget_run\<close>, which also keeps the
  times it granted). \<open>budget_repr\<close> relates the stored timestamps to that history.
\<close>

record Budget =
  timestamps :: "gotime list"

definition allow :: "gotime \<Rightarrow> int \<Rightarrow> Budget \<Rightarrow> bool \<times> Budget" where
  "allow now limit b =
     (let cutoff = now - Hour;
          ts = dropWhile (\<lambda>t. \<not> cutoff < t) (timestamps b)
      in if limit \<le> int (length ts) then (False, b\<lparr>timestamps := ts\<rparr>)
         else (True, b\<lparr>timestamps := ts @ [now]\<rparr>))"

fun budget_run :: "(gotime \<times> int) list \<Rightarrow> gotime list \<times> Budget \<Rightarrow> gotime list \<times> Budget" where
  "budget_run [] s = s"
| "budget_run ((now, limit) # calls) (granted, b) =
     (let (ok, b') = allow now limit b
      in budget_run calls (if ok then granted @ [now] else granted, b'))"

definition budget_empty :: Budget where
  "budget_empty = \<lparr>timestamps = []\<rparr>"

text \<open>The grants of the hour that ends at \<open>t\<close>: after \<open>t\<close> minus one hour, up to \<open>t\<close>.\<close>

definition window :: "gotime \<Rightarrow> gotime list \<Rightarrow> gotime list" where
  "window t granted = filter (\<lambda>x. t - Hour < x \<and> x \<le> t) granted"

definition budget_repr :: "gotime \<Rightarrow> gotime list \<Rightarrow> Budget \<Rightarrow> bool" where
  "budget_repr now granted b \<longleftrightarrow>
     sorted granted \<and> (\<forall>x \<in> set granted. x \<le> now) \<and>
     (\<exists>old. granted = old @ timestamps b \<and> (\<forall>x \<in> set old. x \<le> now - Hour))"

lemma dropWhile_sorted: "sorted ts \<Longrightarrow> dropWhile (\<lambda>t. \<not> c < t) ts = filter (\<lambda>t. c < t) (ts :: int list)"
proof (induction ts)
  case Nil
  then show ?case by simp
next
  case (Cons a ts)
  then show ?case by (auto intro!: filter_True [symmetric])
qed

lemma budget_repr_ts:
  assumes "budget_repr T granted b" and "T \<le> now"
  shows "dropWhile (\<lambda>t. \<not> now - Hour < t) (timestamps b) = window now granted"
proof -
  from assms(1) obtain old where g: "granted = old @ timestamps b"
    and old: "\<forall>x \<in> set old. x \<le> T - Hour" and le: "\<forall>x \<in> set granted. x \<le> T" and s: "sorted granted"
    unfolding budget_repr_def by blast
  have "window now granted = filter (\<lambda>t. now - Hour < t) granted"
    unfolding window_def using le assms(2) by (intro filter_cong) auto
  also have "\<dots> = filter (\<lambda>t. now - Hour < t) (timestamps b)"
    using old assms(2) by (fastforce simp: g filter_empty_conv)
  finally show ?thesis
    using s by (simp add: g sorted_append dropWhile_sorted)
qed

lemma allow_repr:
  assumes "budget_repr T granted b" and "T \<le> now" and "allow now limit b = (ok, b')"
  shows "ok \<longleftrightarrow> int (length (window now granted)) < limit"
    and "budget_repr now (if ok then granted @ [now] else granted) b'"
proof -
  note ts = budget_repr_ts [OF assms(1,2)]
  from assms(1) obtain old where g: "granted = old @ timestamps b"
    and old: "\<forall>x \<in> set old. x \<le> T - Hour" and le: "\<forall>x \<in> set granted. x \<le> T" and s: "sorted granted"
    unfolding budget_repr_def by blast
  show ok: "ok \<longleftrightarrow> int (length (window now granted)) < limit"
    using assms(3) ts by (auto simp: allow_def Let_def split: if_splits)
  define dropped where "dropped = takeWhile (\<lambda>t. \<not> now - Hour < t) (timestamps b)"
  have split: "granted = (old @ dropped) @ window now granted"
    unfolding g dropped_def by (simp flip: ts [unfolded g])
  have "\<forall>x \<in> set (old @ dropped). x \<le> now - Hour"
    using old assms(2) by (auto simp: dropped_def dest: set_takeWhileD)
  moreover have "sorted (granted @ [now])" and "\<forall>x \<in> set (granted @ [now]). x \<le> now"
    using s le assms(2) by (auto simp: sorted_append intro: order_trans)
  moreover have "timestamps b' = (if ok then window now granted @ [now] else window now granted)"
    using assms(3) ts by (auto simp: allow_def Let_def split: if_splits)
  ultimately show "budget_repr now (if ok then granted @ [now] else granted) b'"
    unfolding budget_repr_def using split s le assms(2)
    by (auto intro!: exI [of _ "old @ dropped"] intro: order_trans)
qed

lemma window_append: "window t (xs @ ys) = window t xs @ window t ys"
  by (simp add: window_def)

lemma window_le_of_later:
  assumes "\<forall>x \<in> set granted. x \<le> now" and "now \<le> t"
  shows "length (window t granted) \<le> length (window now granted)"
proof -
  have "window t granted = filter (\<lambda>x. t - Hour < x) (window now granted)"
    unfolding window_def filter_filter using assms by (intro filter_cong) auto
  then show ?thesis by simp
qed

lemma window_grant:
  assumes "\<forall>x \<in> set granted. x \<le> now" and "\<forall>t. int (length (window t granted)) \<le> L"
    and "int (length (window now granted)) < L"
  shows "int (length (window t (granted @ [now]))) \<le> L"
proof (cases "now \<le> t")
  case True
  then have "length (window t granted) \<le> length (window now granted)"
    using assms(1) by (intro window_le_of_later)
  with assms(3) show ?thesis by (simp add: window_append window_def)
next
  case False
  with assms(2) show ?thesis by (simp add: window_append window_def)
qed

definition nondecreasing :: "gotime \<Rightarrow> (gotime \<times> int) list \<Rightarrow> bool" where
  "nondecreasing T calls \<longleftrightarrow> sorted (T # map fst calls)"

lemma budget_run_repr:
  assumes "budget_repr T granted b" and "nondecreasing T calls"
    and "budget_run calls (granted, b) = (granted', b')"
  shows "\<exists>T' \<ge> T. T' \<in> insert T (fst ` set calls) \<and> budget_repr T' granted' b'"
  using assms
proof (induction calls arbitrary: T granted b)
  case Nil
  then show ?case by auto
next
  case (Cons c calls)
  obtain now limit where c: "c = (now, limit)" by (cases c)
  obtain ok b1 where al: "allow now limit b = (ok, b1)" by (cases "allow now limit b")
  have T: "T \<le> now" and rest: "nondecreasing now calls"
    using Cons.prems(2) by (auto simp: nondecreasing_def c)
  have "budget_repr now (if ok then granted @ [now] else granted) b1"
    using allow_repr(2) [OF Cons.prems(1) T al] .
  moreover have "budget_run calls (if ok then granted @ [now] else granted, b1) = (granted', b')"
    using Cons.prems(3) by (simp add: c al)
  ultimately obtain T' where "now \<le> T'" "T' \<in> insert now (fst ` set calls)" "budget_repr T' granted' b'"
    using Cons.IH [OF _ rest] by blast
  with T show ?case by (intro exI [of _ T']) (auto simp: c)
qed

lemma budget_run_window:
  assumes "budget_repr T granted b" and "nondecreasing T calls"
    and "\<forall>c \<in> set calls. snd c \<le> L" and "\<forall>t. int (length (window t granted)) \<le> L"
    and "budget_run calls (granted, b) = (granted', b')"
  shows "int (length (window t granted')) \<le> L"
  using assms
proof (induction calls arbitrary: T granted b)
  case Nil
  then show ?case by auto
next
  case (Cons c calls)
  obtain now limit where c: "c = (now, limit)" by (cases c)
  obtain ok b1 where al: "allow now limit b = (ok, b1)" by (cases "allow now limit b")
  have T: "T \<le> now" and rest: "nondecreasing now calls" and lim: "limit \<le> L"
    using Cons.prems(2,3) by (auto simp: nondecreasing_def c)
  note al_repr = allow_repr [OF Cons.prems(1) T al]
  have le: "\<forall>x \<in> set granted. x \<le> now"
    using Cons.prems(1) T by (auto simp: budget_repr_def)
  have win: "\<forall>t. int (length (window t (if ok then granted @ [now] else granted))) \<le> L"
    using window_grant [OF le Cons.prems(4)] al_repr(1) lim Cons.prems(4) by auto
  from Cons.IH [OF al_repr(2) rest _ win] Cons.prems(3,5) show ?case by (simp add: c al)
qed

lemma budget_repr_empty: "budget_repr T [] budget_empty"
  by (simp add: budget_repr_def budget_empty_def)

section \<open>Properties\<close>

text \<open>
  The budget is a true sliding window. With a clock that does not go back, any sequence
  of requests under limits of at most \<open>L\<close>, across reconfigurations that change the limit,
  is granted at most \<open>L\<close> times in every hour, wherever that hour starts.
\<close>

theorem budget_window_bound:
  assumes "nondecreasing T calls" and "\<forall>c \<in> set calls. snd c \<le> L" and "0 \<le> L"
  shows "int (length (window t (fst (budget_run calls ([], budget_empty))))) \<le> L"
proof -
  obtain granted b where run: "budget_run calls ([], budget_empty) = (granted, b)"
    by (cases "budget_run calls ([], budget_empty)")
  have "\<forall>t. int (length (window t [])) \<le> L" using assms(3) by (simp add: window_def)
  from budget_run_window [OF budget_repr_empty assms(1,2) this run] show ?thesis
    by (simp add: run)
qed

theorem budget_window_bound_witness:
  "int (length (window 3 (fst (budget_run [(1, 2), (2, 2), (3, 2)] ([], budget_empty))))) \<le> 2 \<and>
   fst (budget_run [(1, 2), (2, 2), (3, 2)] ([], budget_empty)) = [1, 2]"
proof -
  have "nondecreasing 0 [(1, 2), (2, 2), (3, 2)]" by (simp add: nondecreasing_def)
  from budget_window_bound [OF this, of 2 3] have
    "int (length (window 3 (fst (budget_run [(1, 2), (2, 2), (3, 2)] ([], budget_empty))))) \<le> 2"
    by simp
  moreover have "fst (budget_run [(1, 2), (2, 2), (3, 2)] ([], budget_empty)) = [1, 2]"
    by code_simp
  ultimately show ?thesis by blast
qed

text \<open>
  The budget never refuses without cause: after any history, a request is granted
  exactly when fewer than \<open>limit\<close> requests were granted in the hour before it. The pruned
  list of timestamps decides the same as the complete history would.
\<close>

theorem budget_exact:
  assumes "nondecreasing T (calls @ [(now, limit)])"
    and "budget_run calls ([], budget_empty) = (granted, b)"
  shows "fst (allow now limit b) \<longleftrightarrow> int (length (window now granted)) < limit"
proof -
  have nd: "nondecreasing T calls" and le: "\<forall>x \<in> insert T (fst ` set calls). x \<le> now"
    using assms(1) by (auto simp: nondecreasing_def sorted_append)
  from budget_run_repr [OF budget_repr_empty nd assms(2)] le obtain T' where
    "T' \<le> now" "budget_repr T' granted b" by blast
  from allow_repr(1) [OF this(2,1)] show ?thesis
    by (metis prod.collapse)
qed

theorem budget_exact_witness:
  "fst (allow (1 + Hour) 1 (snd (budget_run [(1, 1), (2, 1)] ([], budget_empty))))"
proof -
  have "nondecreasing 0 ([(1, 1), (2, 1)] @ [(1 + Hour, 1)])"
    by (simp add: nondecreasing_def Hour_def Minute_def Second_def)
  moreover have "budget_run [(1, 1), (2, 1)] ([], budget_empty) = ([1], \<lparr>timestamps = [1]\<rparr>)"
    by code_simp
  ultimately show ?thesis
    using budget_exact [of 0 "[(1, 1), (2, 1)]" "1 + Hour" 1 "[1]" "\<lparr>timestamps = [1]\<rparr>"]
    by (simp add: window_def)
qed

end
