(* ===== verification/Config.thy ===== *)
theory Config
  imports Plans Json
begin

text \<open>
  The prewarm configuration, \<open>internal/prewarm/config.go\<close>: its data, the defaults, the
  selection of accounts and the validation. An \<open>error\<close> is its message, \<open>nil\<close> is \<open>None\<close>.

  \<open>Validate\<close> has one argument that is not in the source, \<open>ip_literal\<close>: which texts the
  standard library accepts as an IP address between the brackets of an email domain
  literal. Everything else of \<open>mail.ParseAddress\<close> that an unchanged address depends on is in
  \<open>plain_address\<close>: a dot-atom, \<open>@\<close>, and a dot-atom or a domain literal. (An address with a
  display name, comment, quoted local part or surrounding space is never returned as it was
  given.) Reading the proxy list is not part of this theory.
\<close>

definition maxAccounts :: int where "maxAccounts = 1000"
definition maxModels :: int where "maxModels = 16"
definition maxProxies :: int where "maxProxies = 10000"

datatype Key = Key (key_AuthID: string) (key_Model: string)

record Account =
  ac_Email :: string
  ac_AuthID :: string
  ac_Plan :: string
  ac_Models :: "string list"

record Config =
  Enabled :: bool
  Models :: "string list"
  MaxProbesPerHour :: int
  Proxies :: "string list"
  ProxyFile :: string
  HostConfigFile :: string
  Accounts :: "Account list"
  Workers :: int
  MaxAttempts :: int
  AttemptIntervalSeconds :: int
  CooldownSeconds :: int
  TTLSeconds :: int
  RefreshBeforeSeconds :: int
  ProbeTimeoutSeconds :: int
  MaxPending :: int

definition or_default :: "int \<Rightarrow> int \<Rightarrow> int" where
  "or_default d v = (if v = 0 then d else v)"

definition Defaults :: "Config \<Rightarrow> Config" where
  "Defaults c = c\<lparr>
     Workers := or_default 2 (Workers c),
     MaxAttempts := or_default 6 (MaxAttempts c),
     AttemptIntervalSeconds := or_default 2 (AttemptIntervalSeconds c),
     CooldownSeconds := or_default 300 (CooldownSeconds c),
     TTLSeconds := or_default 3600 (TTLSeconds c),
     RefreshBeforeSeconds := or_default 300 (RefreshBeforeSeconds c),
     ProbeTimeoutSeconds := or_default 20 (ProbeTimeoutSeconds c),
     MaxProbesPerHour := or_default 12 (MaxProbesPerHour c),
     MaxPending := or_default 20000 (MaxPending c)\<rparr>"

definition AutoAccounts :: "Config \<Rightarrow> bool" where
  "AutoAccounts c \<longleftrightarrow> \<not> list_ex (\<lambda>a. ac_Plan a \<noteq> [] \<or> ac_Models a \<noteq> []) (Accounts c)"

definition selects :: "Account \<Rightarrow> Account \<Rightarrow> bool" where
  "selects selector a \<longleftrightarrow>
     (ac_AuthID selector \<noteq> [] \<and> ac_AuthID selector = ac_AuthID a) \<or>
     (ac_Email selector \<noteq> [] \<and> EqualFold (ac_Email selector) (TrimSpace (ac_Email a)))"

definition Selected :: "Config \<Rightarrow> Account \<Rightarrow> bool" where
  "Selected c a \<longleftrightarrow> Accounts c = [] \<or> list_ex (\<lambda>selector. selects selector a) (Accounts c)"

section \<open>Validation\<close>

definition alnum :: "char \<Rightarrow> bool" where
  "alnum c \<longleftrightarrow> is_lower c \<or> is_upper c \<or> is_digit c"

text \<open>The regular expression \<open>modelPattern\<close>.\<close>

definition model_pattern :: "string \<Rightarrow> bool" where
  "model_pattern m =
     (case m of
        [] \<Rightarrow> False
      | c # cs \<Rightarrow> alnum c \<and> int (length cs) \<le> 127 \<and>
          list_all (\<lambda>d. alnum d \<or> d = CHR ''.'' \<or> d = CHR ''_'' \<or> d = CHR ''-'') cs)"

fun models_loop :: "string list \<Rightarrow> string list \<Rightarrow> bool" where
  "models_loop seen [] = True"
| "models_loop seen (m # ms) =
     (if \<not> model_pattern m \<or> m \<in> set seen then False else models_loop (m # seen) ms)"

definition validModels :: "string list \<Rightarrow> bool" where
  "validModels models =
     (if models = [] \<or> maxModels < int (length models) then False else models_loop [] models)"

definition validAuthID :: "string \<Rightarrow> bool" where
  "validAuthID s \<longleftrightarrow> s \<noteq> [] \<and> int (length s) \<le> 1024 \<and> s = TrimSpace s"

definition atext :: "char \<Rightarrow> bool" where
  "atext c \<longleftrightarrow> 33 \<le> byte c \<and> byte c \<le> 126 \<and> c \<notin> set ''()<>[]:;@,'' \<and> c \<noteq> CHR 0x5C \<and> c \<noteq> CHR 0x22"

text \<open>The longest run of atom characters and the rest; \<open>None\<close> at invalid UTF-8.\<close>

fun take_atom :: "string \<Rightarrow> (string \<times> string) option" where
  "take_atom [] = Some ([], [])"
| "take_atom (c # cs) =
     (if byte c < 128 then
        (if atext c then map_option (\<lambda>(a, r). (c # a, r)) (take_atom cs) else Some ([], c # cs))
      else
        (let n = utf8_len (c # cs) in
         if n = 0 then None
         else map_option (\<lambda>(a, r). (take n (c # cs) @ a, r)) (take_atom (drop (n - 1) cs))))"

fun has_double_dot :: "string \<Rightarrow> bool" where
  "has_double_dot (a # b # s) = ((a = CHR ''.'' \<and> b = CHR ''.'') \<or> has_double_dot (b # s))"
| "has_double_dot _ = False"

definition dot_atom :: "string \<Rightarrow> bool" where
  "dot_atom a \<longleftrightarrow> a \<noteq> [] \<and> hd a \<noteq> CHR ''.'' \<and> last a \<noteq> CHR ''.'' \<and> \<not> has_double_dot a"

definition plain_address :: "(string \<Rightarrow> bool) \<Rightarrow> string \<Rightarrow> bool" where
  "plain_address ip_literal s =
     (case take_atom s of
        Some (local, CHR ''@'' # dpart) \<Rightarrow>
          dot_atom local \<and>
          (if take 1 dpart = ''['' then last dpart = CHR '']'' \<and> ip_literal (butlast (tl dpart))
           else (case take_atom dpart of Some (d, []) \<Rightarrow> dot_atom d | _ \<Rightarrow> False))
      | _ \<Rightarrow> False)"

definition limits_ok :: "Config \<Rightarrow> bool" where
  "limits_ok c \<longleftrightarrow> \<not> (Workers c < 1 \<or> Workers c > 8 \<or> MaxAttempts c < 1 \<or> MaxAttempts c > 20 \<or>
     AttemptIntervalSeconds c < 1 \<or> AttemptIntervalSeconds c > 300 \<or>
     CooldownSeconds c < 1 \<or> CooldownSeconds c > 86400 \<or>
     TTLSeconds c < 60 \<or> TTLSeconds c > 3600 \<or>
     RefreshBeforeSeconds c < 1 \<or> RefreshBeforeSeconds c \<ge> TTLSeconds c \<or>
     ProbeTimeoutSeconds c < 1 \<or> ProbeTimeoutSeconds c > 60 \<or>
     MaxProbesPerHour c < 2 \<or> MaxProbesPerHour c > 1000 \<or>
     MaxPending c < 1 \<or> MaxPending c > 100000)"

text \<open>The loop over the selectors of the automatic mode.\<close>

fun selectors_loop :: "(string \<Rightarrow> bool) \<Rightarrow> string list \<Rightarrow> Account list \<Rightarrow> string option" where
  "selectors_loop ip_literal seen [] = None"
| "selectors_loop ip_literal seen (a # as) =
     (if (ac_AuthID a = []) = (ac_Email a = [])
      then Some ''each prewarm account selector requires either email or auth_id''
      else if ac_Email a \<noteq> [] \<and>
         (\<not> plain_address ip_literal (ac_Email a) \<or> int (length (ac_Email a)) > 320)
      then Some ''invalid prewarm email selector''
      else if ac_Email a = [] \<and> \<not> validAuthID (ac_AuthID a)
      then Some ''invalid prewarm auth_id selector''
      else
        let key = (if ac_Email a \<noteq> [] then ''email:'' @ ToLower (ac_Email a) else ''id:'' @ ac_AuthID a) in
        if key \<in> set seen then Some ''duplicate prewarm account selector''
        else selectors_loop ip_literal (key # seen) as)"

text \<open>The loop over the models of one explicit account; \<open>Inr\<close> gives the keys seen so far.\<close>

fun account_keys_loop :: "string \<Rightarrow> Key list \<Rightarrow> string list \<Rightarrow> string + Key list" where
  "account_keys_loop authID seen [] = Inr seen"
| "account_keys_loop authID seen (m # ms) =
     (if Key authID m \<in> set seen then Inl ''duplicate prewarm account/model''
      else account_keys_loop authID (Key authID m # seen) ms)"

fun accounts_loop :: "Key list \<Rightarrow> Account list \<Rightarrow> string option" where
  "accounts_loop seen [] = None"
| "accounts_loop seen (a # as) =
     (if ac_Email a \<noteq> [] \<or> \<not> validAuthID (ac_AuthID a) \<or>
         (ac_Plan a \<noteq> ''pro'' \<and> ac_Plan a \<noteq> ''team'') \<or> \<not> validModels (ac_Models a)
      then Some ''prewarm accounts require an auth_id, pro/team plan and 1..16 models''
      else case account_keys_loop (ac_AuthID a) seen (ac_Models a) of
             Inl e \<Rightarrow> Some e
           | Inr seen \<Rightarrow> accounts_loop seen as)"

definition Validate :: "(string \<Rightarrow> bool) \<Rightarrow> Config \<Rightarrow> string option" where
  "Validate ip_literal c =
     (if \<not> Enabled c then None
      else if (Proxies c = []) = (ProxyFile c = [])
      then Some ''prewarm requires exactly one of proxies or legacy proxy_file''
      else if int (length (Proxies c)) > maxProxies then Some ''too many prewarm proxies''
      else if int (length (Accounts c)) > maxAccounts then Some ''too many prewarm accounts''
      else if (AutoAccounts c \<or> Models c \<noteq> []) \<and> \<not> validModels (Models c)
      then Some ''prewarm models must contain 1..16 unique upstream model names''
      else if \<not> limits_ok c then Some ''prewarm limits out of range''
      else if AutoAccounts c then selectors_loop ip_literal [] (Accounts c)
      else accounts_loop [] (Accounts c))"

section \<open>What the loops decide\<close>

lemma models_loop_iff:
  "models_loop seen ms \<longleftrightarrow> list_all model_pattern ms \<and> distinct ms \<and> set ms \<inter> set seen = {}"
  by (induction seen ms rule: models_loop.induct) auto

lemma validModels_iff:
  "validModels ms \<longleftrightarrow> ms \<noteq> [] \<and> int (length ms) \<le> 16 \<and> distinct ms \<and> list_all model_pattern ms"
  by (auto simp: validModels_def models_loop_iff maxModels_def)

definition account_keys :: "Account \<Rightarrow> Key list" where
  "account_keys a = map (Key (ac_AuthID a)) (ac_Models a)"

definition explicit_ok :: "Account \<Rightarrow> bool" where
  "explicit_ok a \<longleftrightarrow> ac_Email a = [] \<and> validAuthID (ac_AuthID a) \<and>
     ac_Plan a \<in> {''pro'', ''team''} \<and> validModels (ac_Models a)"

lemma account_keys_loop_Inr:
  "account_keys_loop authID seen ms = Inr seen' \<longleftrightarrow>
     distinct ms \<and> Key authID ` set ms \<inter> set seen = {} \<and> seen' = rev (map (Key authID) ms) @ seen"
  by (induction authID seen ms arbitrary: seen' rule: account_keys_loop.induct) auto

lemma accounts_loop_None:
  "accounts_loop seen as = None \<longleftrightarrow>
     list_all explicit_ok as \<and> distinct (concat (map account_keys as)) \<and>
     set (concat (map account_keys as)) \<inter> set seen = {}"
proof (induction seen as rule: accounts_loop.induct)
  case (1 seen)
  then show ?case by simp
next
  case (2 seen a as)
  show ?case
  proof (cases "explicit_ok a")
    case False
    then show ?thesis by (auto simp: explicit_ok_def)
  next
    case ok: True
    then have guard: "\<not> (ac_Email a \<noteq> [] \<or> \<not> validAuthID (ac_AuthID a) \<or>
        (ac_Plan a \<noteq> ''pro'' \<and> ac_Plan a \<noteq> ''team'') \<or> \<not> validModels (ac_Models a))"
      by (auto simp: explicit_ok_def)
    have inj: "distinct (account_keys a) = distinct (ac_Models a)"
      by (auto simp: account_keys_def distinct_map inj_on_def)
    show ?thesis
    proof (cases "account_keys_loop (ac_AuthID a) seen (ac_Models a)")
      case (Inl e)
      then have "\<not> (distinct (ac_Models a) \<and> Key (ac_AuthID a) ` set (ac_Models a) \<inter> set seen = {})"
        using account_keys_loop_Inr [of "ac_AuthID a" seen "ac_Models a"] by auto
      with Inl guard inj show ?thesis by (auto simp: account_keys_def)
    next
      case (Inr seen')
      note seen = account_keys_loop_Inr [THEN iffD1, OF Inr]
      have "accounts_loop seen (a # as) = accounts_loop seen' as"
        unfolding accounts_loop.simps(2) if_not_P [OF guard] Inr by simp
      moreover define ks where "ks = concat (map account_keys as)"
      moreover have "distinct (account_keys a)" and "set (account_keys a) \<inter> set seen = {}"
        and "set seen' = set (account_keys a) \<union> set seen"
        using seen inj by (auto simp: account_keys_def)
      ultimately show ?thesis
        using 2 [OF guard Inr] ok by (simp flip: ks_def) blast
    qed
  qed
qed

definition selector_key :: "Account \<Rightarrow> string" where
  "selector_key a = (if ac_Email a \<noteq> [] then ''email:'' @ ToLower (ac_Email a) else ''id:'' @ ac_AuthID a)"

definition selector_ok :: "(string \<Rightarrow> bool) \<Rightarrow> Account \<Rightarrow> bool" where
  "selector_ok lit a \<longleftrightarrow>
     (if ac_Email a \<noteq> [] then ac_AuthID a = [] \<and> plain_address lit (ac_Email a) \<and> int (length (ac_Email a)) \<le> 320
      else validAuthID (ac_AuthID a))"

lemma selectors_loop_None:
  "selectors_loop lit seen as = None \<longleftrightarrow>
     list_all (selector_ok lit) as \<and> distinct (map selector_key as) \<and>
     set (map selector_key as) \<inter> set seen = {}"
proof (induction lit seen as rule: selectors_loop.induct)
  case (1 lit seen)
  then show ?case by simp
next
  case (2 lit seen a as)
  show ?case
  proof (cases "selector_ok lit a")
    case False
    then show ?thesis by (auto simp: selector_ok_def validAuthID_def Let_def split: if_splits)
  next
    case True
    then have g1: "\<not> (ac_AuthID a = []) = (ac_Email a = [])"
      and g2: "\<not> (ac_Email a \<noteq> [] \<and>
        (\<not> plain_address lit (ac_Email a) \<or> int (length (ac_Email a)) > 320))"
      and g3: "\<not> (ac_Email a = [] \<and> \<not> validAuthID (ac_AuthID a))"
      by (auto simp: selector_ok_def validAuthID_def split: if_splits)
    have g1': "\<not> ((ac_AuthID a = []) = (ac_Email a = []))" using g1 by blast
    have loop: "selectors_loop lit seen (a # as) =
        (if selector_key a \<in> set seen then Some ''duplicate prewarm account selector''
         else selectors_loop lit (selector_key a # seen) as)"
      unfolding selectors_loop.simps(2) if_not_P [OF g1'] if_not_P [OF g2] if_not_P [OF g3]
        Let_def selector_key_def ..
    note IH = 2 [OF g1' g2 g3 selector_key_def]
    show ?thesis
    proof (cases "selector_key a \<in> set seen")
      case True
      then show ?thesis unfolding loop by auto
    next
      case False
      with IH \<open>selector_ok lit a\<close> show ?thesis unfolding loop by auto
    qed
  qed
qed

section \<open>Properties\<close>

text \<open>
  The reference for names and identifiers, by their characters and not by the loops of the code.
\<close>

definition letters_digits :: string where
  "letters_digits = ''abcdefghijklmnopqrstuvwxyzABCDEFGHIJKLMNOPQRSTUVWXYZ0123456789''"

definition model_name :: "string \<Rightarrow> bool" where
  "model_name m \<longleftrightarrow> 1 \<le> length m \<and> length m \<le> 128 \<and> set m \<subseteq> set (letters_digits @ ''._-'') \<and> hd m \<in> set letters_digits"

definition model_list :: "string list \<Rightarrow> bool" where
  "model_list ms \<longleftrightarrow> 1 \<le> length ms \<and> length ms \<le> 16 \<and> distinct ms \<and> (\<forall>m \<in> set ms. model_name m)"

definition account_id :: "string \<Rightarrow> bool" where
  "account_id s \<longleftrightarrow> 1 \<le> length s \<and> length s \<le> 1024 \<and> TrimSpace s = s"

text \<open>A selector names an account by its address or by its id, but not by both.\<close>

definition one_selector :: "(string \<Rightarrow> bool) \<Rightarrow> Account \<Rightarrow> bool" where
  "one_selector lit a \<longleftrightarrow>
     (ac_AuthID a = [] \<and> ac_Email a \<noteq> [] \<and> plain_address lit (ac_Email a) \<and> length (ac_Email a) \<le> 320) \<or>
     (ac_Email a = [] \<and> account_id (ac_AuthID a))"

definition explicit_account :: "Account \<Rightarrow> bool" where
  "explicit_account a \<longleftrightarrow> ac_Email a = [] \<and> account_id (ac_AuthID a) \<and> ac_Plan a \<in> {''pro'', ''team''} \<and>
     model_list (ac_Models a)"

lemma alnum_letters: "alnum c \<longleftrightarrow> c \<in> set letters_digits"
proof -
  have bytes: "map byte letters_digits = [97..<123] @ [65..<91] @ [48..<58]" by code_simp
  have "inj byte" by (auto simp: inj_def byte_def)
  then have "c \<in> set letters_digits \<longleftrightarrow> byte c \<in> set (map byte letters_digits)"
    by (simp add: inj_image_mem_iff)
  then show ?thesis
    unfolding bytes alnum_def is_lower_def is_upper_def is_digit_def
    by (simp only: set_append set_upt Un_iff atLeastLessThan_iff) linarith
qed

lemma model_pattern_name: "model_pattern m \<longleftrightarrow> model_name m"
  by (cases m) (auto simp: model_pattern_def model_name_def alnum_letters list_all_iff)

lemma validModels_list: "validModels ms \<longleftrightarrow> model_list ms"
  by (cases ms) (auto simp: validModels_iff model_list_def model_pattern_name list_all_iff)

lemma validAuthID_id: "validAuthID s \<longleftrightarrow> account_id s"
  by (cases s) (auto simp: validAuthID_def account_id_def)

lemma selector_ok_one: "selector_ok lit a \<longleftrightarrow> one_selector lit a"
  by (auto simp: selector_ok_def one_selector_def validAuthID_id)

lemma explicit_ok_account: "explicit_ok a \<longleftrightarrow> explicit_account a"
  by (simp add: explicit_ok_def explicit_account_def validAuthID_id validModels_list)

lemma distinct_account_keys:
  "distinct (concat (map account_keys as)) \<longleftrightarrow>
     distinct (concat (map (\<lambda>a. map (\<lambda>m. (ac_AuthID a, m)) (ac_Models a)) as))"
proof -
  let ?f = "\<lambda>(i, m). Key i m"
  have "concat (map account_keys as) = map ?f (concat (map (\<lambda>a. map (\<lambda>m. (ac_AuthID a, m)) (ac_Models a)) as))"
    by (induction as) (auto simp: account_keys_def)
  moreover have "inj_on ?f A" for A by (auto simp: inj_on_def)
  ultimately show ?thesis by (simp add: distinct_map)
qed

lemma ToLower_nonempty: "ToLower s = [] \<longleftrightarrow> s = []" "ToLower [] = ToLower s \<longleftrightarrow> s = []"
  "ToLower s = ToLower [] \<longleftrightarrow> s = []"
  by (cases s; auto simp: ToLower_def split: option.split)+

text \<open>The texts the code keeps in its map tell selectors apart as the pairs do.\<close>

lemma distinct_map_cong:
  "(\<And>a b. a \<in> set as \<Longrightarrow> b \<in> set as \<Longrightarrow> f a = f b \<longleftrightarrow> g a = g b) \<Longrightarrow> distinct (map f as) \<longleftrightarrow> distinct (map g as)"
  by (induction as) (simp_all add: image_iff)

lemma selector_key_eq:
  assumes "one_selector lit a" and "one_selector lit b"
  shows "selector_key a = selector_key b \<longleftrightarrow> (ToLower (ac_Email a), ac_AuthID a) = (ToLower (ac_Email b), ac_AuthID b)"
proof -
  have form: "ac_Email x \<noteq> [] \<and> ac_AuthID x = [] \<or> ac_Email x = []" if "one_selector lit x" for x
    using that by (auto simp: one_selector_def)
  show ?thesis
    using form [OF assms(1)] form [OF assms(2)]
    by (cases "ac_Email a = []"; cases "ac_Email b = []") (auto simp: selector_key_def ToLower_nonempty)
qed

lemma distinct_selector_keys:
  "\<forall>a \<in> set as. one_selector lit a \<Longrightarrow>
   distinct (map selector_key as) \<longleftrightarrow> distinct (map (\<lambda>a. (ToLower (ac_Email a), ac_AuthID a)) as)"
  by (rule distinct_map_cong) (metis selector_key_eq)

text \<open>
  C40. Exactly which enabled configurations are accepted. Every limit lies in its range, and the
  refresh margin is below the ticket lifetime; there is exactly one source of proxies, with at most
  10000 entries, and at most 1000 accounts. When no account has a plan or models of its own, there
  are 1 to 16 distinct well-formed models and every account is one selector, by address or by
  id, none given twice (addresses compared without case). Otherwise every account has an id, a
  plan of \<open>pro\<close> or \<open>team\<close> and 1 to 16 models, and no pair of account and model occurs twice.
\<close>

theorem validate_exact:
  assumes "Enabled c"
  shows "Validate lit c = None \<longleftrightarrow>
    Workers c \<in> {1..8} \<and> MaxAttempts c \<in> {1..20} \<and> AttemptIntervalSeconds c \<in> {1..300} \<and>
    CooldownSeconds c \<in> {1..86400} \<and> TTLSeconds c \<in> {60..3600} \<and> 1 \<le> RefreshBeforeSeconds c \<and>
    RefreshBeforeSeconds c < TTLSeconds c \<and> ProbeTimeoutSeconds c \<in> {1..60} \<and>
    MaxProbesPerHour c \<in> {2..1000} \<and> MaxPending c \<in> {1..100000} \<and>
    (Proxies c = [] \<longleftrightarrow> ProxyFile c \<noteq> []) \<and> length (Proxies c) \<le> 10000 \<and> length (Accounts c) \<le> 1000 \<and>
    (if \<forall>a \<in> set (Accounts c). ac_Plan a = [] \<and> ac_Models a = []
     then model_list (Models c) \<and> (\<forall>a \<in> set (Accounts c). one_selector lit a) \<and>
       distinct (map (\<lambda>a. (ToLower (ac_Email a), ac_AuthID a)) (Accounts c))
     else (Models c = [] \<or> model_list (Models c)) \<and> (\<forall>a \<in> set (Accounts c). explicit_account a) \<and>
       distinct (concat (map (\<lambda>a. map (\<lambda>m. (ac_AuthID a, m)) (ac_Models a)) (Accounts c))))"
proof -
  have limits: "limits_ok c \<longleftrightarrow> Workers c \<in> {1..8} \<and> MaxAttempts c \<in> {1..20} \<and> AttemptIntervalSeconds c \<in> {1..300} \<and>
    CooldownSeconds c \<in> {1..86400} \<and> TTLSeconds c \<in> {60..3600} \<and> 1 \<le> RefreshBeforeSeconds c \<and>
    RefreshBeforeSeconds c < TTLSeconds c \<and> ProbeTimeoutSeconds c \<in> {1..60} \<and>
    MaxProbesPerHour c \<in> {2..1000} \<and> MaxPending c \<in> {1..100000}"
    unfolding limits_ok_def by auto
  have auto: "AutoAccounts c \<longleftrightarrow> (\<forall>a \<in> set (Accounts c). ac_Plan a = [] \<and> ac_Models a = [])"
    by (auto simp: AutoAccounts_def list_ex_iff)
  have explicit: "accounts_loop [] (Accounts c) = None \<longleftrightarrow> (\<forall>a \<in> set (Accounts c). explicit_account a) \<and>
      distinct (concat (map (\<lambda>a. map (\<lambda>m. (ac_AuthID a, m)) (ac_Models a)) (Accounts c)))"
    by (simp add: accounts_loop_None list_all_iff explicit_ok_account distinct_account_keys)
  have selectors: "selectors_loop lit [] (Accounts c) = None \<longleftrightarrow> (\<forall>a \<in> set (Accounts c). one_selector lit a) \<and>
      distinct (map (\<lambda>a. (ToLower (ac_Email a), ac_AuthID a)) (Accounts c))"
    using distinct_selector_keys [of "Accounts c" lit] by (auto simp: selectors_loop_None list_all_iff selector_ok_one)
  have "Validate lit c = None \<longleftrightarrow> (Proxies c = [] \<longleftrightarrow> ProxyFile c \<noteq> []) \<and> length (Proxies c) \<le> 10000 \<and>
      length (Accounts c) \<le> 1000 \<and> (AutoAccounts c \<or> Models c \<noteq> [] \<longrightarrow> validModels (Models c)) \<and> limits_ok c \<and>
      (if AutoAccounts c then selectors_loop lit [] (Accounts c) = None else accounts_loop [] (Accounts c) = None)"
    using assms by (auto simp: Validate_def maxProxies_def maxAccounts_def)
  then show ?thesis unfolding limits validModels_list selectors explicit auto by auto
qed

definition sample_config :: Config where
  "sample_config = Defaults
     \<lparr>Enabled = True, Models = [''gpt-6''], MaxProbesPerHour = 0, Proxies = [''socks5h://p:1''],
      ProxyFile = [], HostConfigFile = [],
      Accounts = [\<lparr>ac_Email = ''a@b.c'', ac_AuthID = [], ac_Plan = [], ac_Models = []\<rparr>],
      Workers = 0, MaxAttempts = 0, AttemptIntervalSeconds = 0, CooldownSeconds = 0, TTLSeconds = 0,
      RefreshBeforeSeconds = 0, ProbeTimeoutSeconds = 0, MaxPending = 0\<rparr>"

theorem validate_exact_witness:
  "RefreshBeforeSeconds sample_config = 300 \<and> Validate (\<lambda>_. False) sample_config = None \<and>
   Validate (\<lambda>_. False) (sample_config\<lparr>TTLSeconds := 300\<rparr>) \<noteq> None \<and>
   Validate (\<lambda>_. False) (sample_config\<lparr>Workers := 80\<rparr>) \<noteq> None"
proof -
  have "Enabled (sample_config\<lparr>TTLSeconds := 300\<rparr>)" "Enabled (sample_config\<lparr>Workers := 80\<rparr>)"
    "RefreshBeforeSeconds sample_config = 300" "Validate (\<lambda>_. False) sample_config = None"
    by code_simp+
  then show ?thesis
    using validate_exact [of "sample_config\<lparr>TTLSeconds := 300\<rparr>" "\<lambda>_. False"]
      validate_exact [of "sample_config\<lparr>Workers := 80\<rparr>" "\<lambda>_. False"] by simp
qed

text \<open>
  The defaults: filling them in twice changes nothing more, explicit non-zero limits are
  kept, and a configuration that sets no limit at all gets limits that pass validation.
\<close>

theorem defaults_sound:
  "Defaults (Defaults c) = Defaults c \<and>
   TTLSeconds (Defaults c) = (if TTLSeconds c = 0 then 3600 else TTLSeconds c) \<and>
   MaxProbesPerHour (Defaults c) = (if MaxProbesPerHour c = 0 then 12 else MaxProbesPerHour c) \<and>
   limits_ok (Defaults (c\<lparr>Workers := 0, MaxAttempts := 0, AttemptIntervalSeconds := 0,
     CooldownSeconds := 0, TTLSeconds := 0, RefreshBeforeSeconds := 0, ProbeTimeoutSeconds := 0,
     MaxProbesPerHour := 0, MaxPending := 0\<rparr>))"
  by (simp add: Defaults_def or_default_def limits_ok_def)

end
