(* ===== verification/Engine.thy ===== *)
theory Engine
  imports Completion Budget Config
begin

text \<open>
  The prewarm engine, \<open>internal/prewarm/engine.go\<close>: its state and the sections it executes
  under its mutex. A section is a function from the engine to the engine with the reading of
  \<open>e.now()\<close> as an argument (a section that reads the clock more than once reads one time).
  Pointers in the maps are only followed inside a section, so records, tickets and
  observations are stored as values.

  The \<open>uint64\<close> counters \<open>version\<close> and \<open>epoch\<close> are natural numbers (they would wrap after
  2^64 events). The context of the engine is cancelled by \<open>Close\<close> only, in the section that
  sets \<open>closed\<close>, so \<open>e.ctx.Err() != nil\<close> is \<open>en_closed\<close>. The order in which a \<open>range\<close> visits
  a map is an argument where the result depends on it.

  Replies of the \<open>Host\<close> interface are arguments: an \<open>Identity\<close> and whether the error is
  non-nil for \<open>Describe\<close>, a \<open>ProbeResult\<close> and whether the error is non-nil for \<open>Probe\<close>.
\<close>

section \<open>Data\<close>

definition StateHeader :: string where "StateHeader = ''X-Codex-Turn-State''"

record Identity =
  id_Scope :: string
  id_Plan :: string

record ProbeRequest =
  rq_AuthID :: string
  rq_Model :: string
  rq_ProxyOverride :: "string option"
  rq_State :: string
  rq_ExpectedScope :: string
  rq_TimeoutSeconds :: int

record ProbeResult =
  rs_Scope :: string
  rs_Status :: int
  rs_State :: string
  rs_ActualModel :: string
  rs_Plan :: string
  rs_Body :: string

record ticket =
  tk_state :: string
  tk_scope :: string
  tk_version :: nat
  tk_expires :: gotime

record job =
  jb_key :: Key
  jb_epoch :: nat
  jb_proxyIndex :: int

record observation =
  ob_key :: Key
  ob_version :: nat
  ob_observer :: "Completion option"
  ob_created :: gotime

record engine_record =
  rc_value :: "ticket option"
  rc_epoch :: nat
  rc_running :: bool
  rc_cooldown :: gotime

record proxyNode =
  pn_url :: string
  pn_successes :: int
  pn_failures :: int
  pn_cooldown :: gotime

record Engine =
  en_cfg :: Config
  en_discovery :: bool
  en_nextDiscovery :: gotime
  en_discoveryCount :: int
  en_owned :: "(Key, bool) gomap"
  en_ownsAllModels :: bool
  en_epoch :: nat
  en_plans :: "(Key, string) gomap"
  en_proxies :: "proxyNode list"
  en_nextProxy :: int
  en_goodProxy :: int
  en_lastProxy :: "(Key, int) gomap"
  en_lastFailure :: "(Key, string) gomap"
  en_records :: "(Key, engine_record) gomap"
  en_requests :: "(string, observation) gomap"
  en_queue :: "job list"
  en_queueCap :: int
  en_closed :: bool
  en_version :: nat
  en_startupDelay :: int
  en_budget :: Budget

definition zero_record :: engine_record where
  "zero_record = \<lparr>rc_value = None, rc_epoch = 0, rc_running = False, rc_cooldown = 0\<rparr>"

definition zero_result :: ProbeResult where
  "zero_result = \<lparr>rs_Scope = [], rs_Status = 0, rs_State = [], rs_ActualModel = [], rs_Plan = [], rs_Body = []\<rparr>"

definition seconds :: "int \<Rightarrow> int" where
  "seconds n = n * Second"

section \<open>Construction\<close>

text \<open>The keys of the explicit accounts with their plans, in the order of the loops of \<open>New\<close>.\<close>

definition config_plans :: "Config \<Rightarrow> (Key \<times> string) list" where
  "config_plans c =
     concat (map (\<lambda>a. map (\<lambda>m. (Key (ac_AuthID a) m, ac_Plan a)) (ac_Models a)) (Accounts c))"

text \<open>
  \<open>loaded\<close> is the result of \<open>LoadProxies\<close>, \<open>has_host\<close> and \<open>discoverer\<close> tell whether a host
  was given and whether it implements \<open>AccountDiscoverer\<close>.
\<close>

definition New :: "(string \<Rightarrow> bool) \<Rightarrow> Config \<Rightarrow> string + string list \<Rightarrow> bool \<Rightarrow> bool \<Rightarrow> string + Engine" where
  "New ip_literal c loaded has_host discoverer =
     (let c = Defaults c in
      if \<not> Enabled c then Inl ''prewarm is disabled''
      else case Validate ip_literal c of
        Some err \<Rightarrow> Inl err
      | None \<Rightarrow>
        (case loaded of
           Inl err \<Rightarrow> Inl err
         | Inr proxies \<Rightarrow>
           if \<not> has_host then Inl ''prewarm Host is required''
           else if AutoAccounts c \<and> \<not> discoverer
           then Inl ''automatic accounts require read-only account discovery''
           else
             let plans = foldl (\<lambda>m kp. gm_put (fst kp) (snd kp) m) [] (config_plans c);
                 records = foldl (\<lambda>m kp. gm_put (fst kp) zero_record m) [] (config_plans c)
             in Inr
               \<lparr>en_cfg = c, en_discovery = AutoAccounts c, en_nextDiscovery = 0,
                en_discoveryCount = - 1, en_owned = [], en_ownsAllModels = False, en_epoch = 0,
                en_plans = plans,
                en_proxies = map (\<lambda>u. \<lparr>pn_url = u, pn_successes = 0, pn_failures = 0, pn_cooldown = 0\<rparr>) proxies,
                en_nextProxy = 0, en_goodProxy = - 1, en_lastProxy = [], en_lastFailure = [],
                en_records = records, en_requests = [], en_queue = [],
                en_queueCap = (if AutoAccounts c then maxAccounts * int (length (Models c)) else gm_len plans),
                en_closed = False, en_version = 0, en_startupDelay = 0, en_budget = budget_empty\<rparr>))"

definition SetBudget :: "Budget \<Rightarrow> Engine \<Rightarrow> Engine" where
  "SetBudget b e = e\<lparr>en_budget := b\<rparr>"

definition DelayStart :: "int \<Rightarrow> Engine \<Rightarrow> Engine" where
  "DelayStart delay e = e\<lparr>en_startupDelay := delay\<rparr>"

text \<open>The section of \<open>Close\<close>; the wait for the workers comes after it.\<close>

definition Close :: "Engine \<Rightarrow> Engine" where
  "Close e = e\<lparr>en_closed := True\<rparr>"

section \<open>Ownership and plans\<close>

definition identityPlanMatches :: "Engine \<Rightarrow> string \<Rightarrow> string \<Rightarrow> bool" where
  "identityPlanMatches e raw expected =
     (if AutoAccounts (en_cfg e) then CanonicalPlan raw = expected else PlanMatches raw expected)"

definition Manages :: "Key \<Rightarrow> Engine \<Rightarrow> bool" where
  "Manages k e =
     (if AutoAccounts (en_cfg e) then
        (if key_Model k \<notin> set (Models (en_cfg e)) then False
         else if Accounts (en_cfg e) = [] then True
         else if list_ex (\<lambda>s. ac_AuthID s \<noteq> [] \<and> ac_AuthID s = key_AuthID k) (Accounts (en_cfg e)) then True
         else en_discoveryCount e < 0 \<or> en_ownsAllModels e \<or> gm_get0 False (en_owned e) k \<or>
           gm_get0 [] (en_plans e) k \<noteq> [])
      else gm_get (en_plans e) k \<noteq> None)"

section \<open>Records, epochs and the queue\<close>

text \<open>\<open>bumpEpochLocked\<close> on the record \<open>r\<close>: the new record and the new engine epoch.\<close>

definition bumpEpochLocked :: "engine_record \<Rightarrow> Engine \<Rightarrow> engine_record \<times> Engine" where
  "bumpEpochLocked r e =
     (let n = (if en_epoch e < rc_epoch r then rc_epoch r else en_epoch e) + 1
      in (r\<lparr>rc_epoch := n\<rparr>, e\<lparr>en_epoch := n\<rparr>))"

definition put_record :: "Key \<Rightarrow> engine_record \<Rightarrow> Engine \<Rightarrow> Engine" where
  "put_record k r e = e\<lparr>en_records := gm_put k r (en_records e)\<rparr>"

definition enqueueLocked :: "gotime \<Rightarrow> Key \<Rightarrow> Engine \<Rightarrow> Engine" where
  "enqueueLocked now k e =
     (case gm_get (en_records e) k of
        None \<Rightarrow> e
      | Some r \<Rightarrow>
          if en_closed e \<or> gm_get (en_plans e) k = None \<or> rc_running r \<or> now < rc_cooldown r then e
          else
            let e = e\<lparr>en_lastProxy := gm_put k (- 1) (en_lastProxy e),
                      en_lastFailure := gm_put k [] (en_lastFailure e)\<rparr>
            in if int (length (en_queue e)) < en_queueCap e
               then put_record k (r\<lparr>rc_running := True\<rparr>)
                      (e\<lparr>en_queue := en_queue e @ [\<lparr>jb_key = k, jb_epoch = rc_epoch r, jb_proxyIndex = - 1\<rparr>]\<rparr>)
               else put_record k (r\<lparr>rc_running := False\<rparr>) e)"

definition active :: "job \<Rightarrow> Engine \<Rightarrow> bool" where
  "active j e \<longleftrightarrow> \<not> en_closed e \<and> gm_get (en_plans e) (jb_key j) \<noteq> None \<and>
     (case gm_get (en_records e) (jb_key j) of None \<Rightarrow> False | Some r \<Rightarrow> rc_epoch r = jb_epoch j)"

text \<open>
  The locked section of \<open>schedule\<close>; \<open>ord\<close> is the order in which the records are visited.
\<close>

definition needs_refresh :: "gotime \<Rightarrow> Config \<Rightarrow> engine_record \<Rightarrow> bool" where
  "needs_refresh now c r =
     (case rc_value r of
        None \<Rightarrow> True
      | Some t \<Rightarrow> \<not> now + seconds (RefreshBeforeSeconds c) < tk_expires t)"

definition schedule_locked :: "gotime \<Rightarrow> Key list \<Rightarrow> Engine \<Rightarrow> Engine" where
  "schedule_locked now ord e =
     (let e = e\<lparr>en_requests := filter (\<lambda>(r, ob). \<not> now - ob_created ob > 2 * Hour) (en_requests e)\<rparr>
      in foldl (\<lambda>e k. case gm_get (en_records e) k of
                        None \<Rightarrow> e
                      | Some r \<Rightarrow> if needs_refresh now (en_cfg e) r then enqueueLocked now k e else e)
           e ord)"

definition noteFailure :: "Key \<Rightarrow> string \<Rightarrow> Engine \<Rightarrow> Engine" where
  "noteFailure k reason e = e\<lparr>en_lastFailure := gm_put k reason (en_lastFailure e)\<rparr>"

definition reserveProbe :: "gotime \<Rightarrow> Engine \<Rightarrow> bool \<times> Engine" where
  "reserveProbe now e =
     (if en_closed e then (False, e)
      else let (ok, b) = allow now (MaxProbesPerHour (en_cfg e)) (en_budget e)
           in (ok, e\<lparr>en_budget := b\<rparr>))"

text \<open>\<open>describe\<close>: the reply of the host, with an empty scope turned into an error.\<close>

definition describe :: "Identity \<Rightarrow> bool \<Rightarrow> Identity \<times> bool" where
  "describe ident err = (ident, err \<or> id_Scope ident = [])"

definition stopStatus :: "int \<Rightarrow> bool" where
  "stopStatus status \<longleftrightarrow> status = 401 \<or> status = 403 \<or> status = 429"

definition SuccessfulProbe :: "ProbeResult \<Rightarrow> string \<Rightarrow> bool" where
  "SuccessfulProbe result model =
     (if rs_Status result \<noteq> 200 \<or> int (length (rs_Body result)) > MaxProbeBytes then False
      else fst (EvaluateProbeBody (rs_Body result) model))"

section \<open>The proxy pool\<close>

text \<open>Signed 64-bit wrap-around, for the one product of durations that has no fixed bound.\<close>

definition int64 :: "int \<Rightarrow> int" where
  "int64 x = (x + 2 ^ 63) mod 2 ^ 64 - 2 ^ 63"

definition cooling :: "gotime \<Rightarrow> Engine \<Rightarrow> int \<Rightarrow> bool" where
  "cooling now e i \<longleftrightarrow> now < pn_cooldown (en_proxies e ! nat i)"

definition chooseProxyLocked :: "gotime \<Rightarrow> Engine \<Rightarrow> (int \<times> string) \<times> Engine" where
  "chooseProxyLocked now e =
     (let e = (if en_goodProxy e \<ge> 0 \<and> cooling now e (en_goodProxy e) then e\<lparr>en_goodProxy := - 1\<rparr> else e);
          n = int (length (en_proxies e))
      in if en_goodProxy e \<ge> 0
         then ((en_goodProxy e, pn_url (en_proxies e ! nat (en_goodProxy e))), e)
         else case find (\<lambda>idx. \<not> cooling now e idx)
                    (map (\<lambda>i. (en_nextProxy e + int i) mod n) [0..<length (en_proxies e)]) of
                None \<Rightarrow> ((- 1, []), e)
              | Some idx \<Rightarrow> ((idx, pn_url (en_proxies e ! nat idx)), e\<lparr>en_nextProxy := (idx + 1) mod n\<rparr>))"

definition markProxy :: "gotime \<Rightarrow> int \<Rightarrow> bool \<Rightarrow> Engine \<Rightarrow> Engine" where
  "markProxy now index ok e =
     (if index < 0 \<or> index \<ge> int (length (en_proxies e)) then e
      else
        let n = en_proxies e ! nat index in
        if ok then
          e\<lparr>en_proxies := (en_proxies e)[nat index :=
              n\<lparr>pn_successes := pn_successes n + 1, pn_failures := 0, pn_cooldown := 0\<rparr>],
            en_goodProxy := index\<rparr>
        else
          let failures = pn_failures n + 1;
              backoff = int64 (failures * Minute);
              limit = seconds (CooldownSeconds (en_cfg e));
              backoff = (if backoff > limit then limit else backoff)
          in e\<lparr>en_proxies := (en_proxies e)[nat index :=
                 n\<lparr>pn_failures := failures, pn_cooldown := now + backoff\<rparr>],
               en_goodProxy := (if en_goodProxy e = index then - 1 else en_goodProxy e)\<rparr>)"

section \<open>Requests\<close>

text \<open>The section of \<open>Bind\<close> after the host was asked for the identity.\<close>

definition bind_locked ::
  "gotime \<Rightarrow> string \<Rightarrow> Key \<Rightarrow> bool \<Rightarrow> Identity \<times> bool \<Rightarrow> Engine \<Rightarrow> (string \<times> bool) \<times> Engine" where
  "bind_locked now requestID k callerState answer e =
     (let (ident, err) = answer;
          previous = gm_get (en_requests e) requestID;
          e = (case previous of
                 None \<Rightarrow> e
               | Some ob \<Rightarrow> e\<lparr>en_requests :=
                   gm_put requestID (ob\<lparr>ob_observer := None, ob_created := now\<rparr>) (en_requests e)\<rparr>)
      in if en_closed e then (([], False), e)
         else case (gm_get (en_plans e) k, gm_get (en_records e) k) of
           (Some plan, Some r) \<Rightarrow>
             let (r, e) =
               (case rc_value r of
                  Some t \<Rightarrow>
                    if err \<or> tk_scope t \<noteq> id_Scope ident \<or>
                       \<not> identityPlanMatches e (id_Plan ident) plan \<or> \<not> now < tk_expires t
                    then (let (r, e) = bumpEpochLocked (r\<lparr>rc_value := None\<rparr>) e in (r, put_record k r e))
                    else (r, e)
                | None \<Rightarrow> (r, e))
             in case rc_value r of
                  None \<Rightarrow> (([], False), enqueueLocked now k e)
                | Some t \<Rightarrow>
                    if callerState then (([], False), e)
                    else if gm_len (en_requests e) \<ge> MaxPending (en_cfg e) then (([], False), e)
                    else
                      let observer = (if previous = None then Some (NewCompletion (key_Model k)) else None)
                      in ((tk_state t, True),
                          e\<lparr>en_requests := gm_put requestID
                              \<lparr>ob_key = k, ob_version = tk_version t, ob_observer = observer, ob_created = now\<rparr>
                              (en_requests e)\<rparr>)
         | _ \<Rightarrow> (([], False), e))"

text \<open>
  The whole of \<open>Bind\<close>, when no other section runs between its own; \<open>answer\<close> is the reply of
  the host to \<open>Describe\<close>, which is only asked for an eligible key.
\<close>

definition Bind ::
  "gotime \<Rightarrow> string \<Rightarrow> Key \<Rightarrow> bool \<Rightarrow> Identity \<times> bool \<Rightarrow> Engine \<Rightarrow> (string \<times> bool) \<times> Engine" where
  "Bind now requestID k callerState answer e =
     (if requestID = [] \<or> \<not> Manages k e then (([], False), e)
      else if gm_get (en_plans e) k = None then (([], False), e)
      else bind_locked now requestID k callerState (describe (fst answer) (snd answer)) e)"

definition invalidateLocked :: "gotime \<Rightarrow> observation \<Rightarrow> Engine \<Rightarrow> Engine" where
  "invalidateLocked now ob e =
     (if ob_observer ob = None then e
      else case gm_get (en_records e) (ob_key ob) of
        None \<Rightarrow> e
      | Some r \<Rightarrow>
          (case rc_value r of
             None \<Rightarrow> e
           | Some t \<Rightarrow>
               if tk_version t \<noteq> ob_version ob then e
               else
                 let (r, e) = bumpEpochLocked (r\<lparr>rc_value := None\<rparr>) e;
                     e = put_record (ob_key ob) (r\<lparr>rc_cooldown := 0\<rparr>) e
                 in enqueueLocked now (ob_key ob) e))"

definition check_header :: "gotime \<Rightarrow> observation \<Rightarrow> Engine \<Rightarrow> string \<times> string list \<Rightarrow> Engine" where
  "check_header now ob e nv =
     (let (name, values) = nv;
          e = (if CanonicalHeaderKey name = ''X-Codex-Plan-Type'' then
                 foldl (\<lambda>e v. if \<not> PlanMatches v (gm_get0 [] (en_plans e) (ob_key ob))
                              then invalidateLocked now ob e else e) e values
               else e)
      in if CanonicalHeaderKey name = StateHeader then
           (let e = (if length values > 1 then invalidateLocked now ob e else e)
            in foldl (\<lambda>e v. if length v = 312 then invalidateLocked now ob e else e) e values)
         else e)"

definition Headers :: "gotime \<Rightarrow> string \<Rightarrow> header \<Rightarrow> Engine \<Rightarrow> Engine" where
  "Headers now requestID h e =
     (case gm_get (en_requests e) requestID of
        None \<Rightarrow> e
      | Some ob \<Rightarrow> foldl (check_header now ob) e h)"

text \<open>\<open>Chunk\<close>, \<open>JSON\<close> and \<open>Complete\<close> share what they do with the watcher of a request.\<close>

definition observe ::
  "gotime \<Rightarrow> string \<Rightarrow> (Completion \<Rightarrow> Completion) \<Rightarrow> Engine \<Rightarrow> Engine" where
  "observe now requestID f e =
     (case gm_get (en_requests e) requestID of
        None \<Rightarrow> e
      | Some ob \<Rightarrow>
          (case ob_observer ob of
             None \<Rightarrow> e
           | Some w \<Rightarrow>
               let ob = ob\<lparr>ob_observer := Some (f w)\<rparr>;
                   e = e\<lparr>en_requests := gm_put requestID ob (en_requests e)\<rparr>
               in if Mismatch (f w) then invalidateLocked now ob e else e))"

definition Chunk :: "gotime \<Rightarrow> string \<Rightarrow> string \<Rightarrow> Engine \<Rightarrow> Engine" where
  "Chunk now requestID p e = observe now requestID (Feed p) e"

definition EngineJSON :: "gotime \<Rightarrow> string \<Rightarrow> string \<Rightarrow> Engine \<Rightarrow> Engine" where
  "EngineJSON now requestID p e = observe now requestID (JSON p) e"

definition Complete :: "gotime \<Rightarrow> string \<Rightarrow> Engine \<Rightarrow> Engine" where
  "Complete now requestID e =
     (case gm_get (en_requests e) requestID of
        None \<Rightarrow> e
      | Some ob \<Rightarrow>
          if ob_observer ob = None then e
          else
            let e = observe now requestID Finish e
            in e\<lparr>en_requests := gm_del requestID (en_requests e)\<rparr>)"

end
