(* ===== verification/Discovery.thy ===== *)
theory Discovery
  imports Engine
begin

text \<open>
  Account discovery inside the engine, \<open>internal/prewarm/discovery.go\<close>: reading a snapshot of
  accounts, and the locked section of \<open>applyAccounts\<close> that withdraws and adds account and
  model pairs. The section ranges over three maps; the orders in which Go visits them are the
  arguments \<open>ordS\<close> (selected keys), \<open>ordP\<close> (current plans) and \<open>ordD\<close> (desired plans).
\<close>

section \<open>Reading a snapshot\<close>

record snapshot_view =
  sv_desired :: "(Key, string) gomap"
  sv_ids :: "string list"
  sv_selected :: "(Key, bool) gomap"
  sv_eligible :: int

definition snapshot_empty :: snapshot_view where
  "snapshot_empty = \<lparr>sv_desired = [], sv_ids = [], sv_selected = [], sv_eligible = 0\<rparr>"

definition put_models :: "string \<Rightarrow> 'v \<Rightarrow> string list \<Rightarrow> (Key, 'v) gomap \<Rightarrow> (Key, 'v) gomap" where
  "put_models authID v models m = foldl (\<lambda>m model. gm_put (Key authID model) v m) m models"

fun read_snapshot :: "Config \<Rightarrow> snapshot_view \<Rightarrow> Account list \<Rightarrow> snapshot_view option" where
  "read_snapshot c s [] = Some s"
| "read_snapshot c s (a # as) =
     (if \<not> validAuthID (ac_AuthID a) \<or> ac_AuthID a \<in> set (sv_ids s) \<or>
         (ac_Plan a \<noteq> [] \<and> ac_Plan a \<noteq> ''pro'' \<and> ac_Plan a \<noteq> ''team'')
      then None
      else
        let s = s\<lparr>sv_ids := ac_AuthID a # sv_ids s\<rparr> in
        if \<not> Selected c a then read_snapshot c s as
        else
          let s = s\<lparr>sv_selected := put_models (ac_AuthID a) True (Models c) (sv_selected s)\<rparr> in
          if ac_Plan a = [] then read_snapshot c s as
          else read_snapshot c
                 (s\<lparr>sv_eligible := sv_eligible s + 1,
                   sv_desired := put_models (ac_AuthID a) (ac_Plan a) (Models c) (sv_desired s)\<rparr>) as)"

section \<open>The locked section\<close>

fun own_loop :: "Key list \<Rightarrow> Engine \<Rightarrow> Engine" where
  "own_loop [] e = e"
| "own_loop (k # ks) e =
     (if gm_len (en_owned e) \<ge> maxAccounts * maxModels \<and> \<not> gm_get0 False (en_owned e) k
      then e\<lparr>en_ownsAllModels := True, en_owned := []\<rparr>
      else own_loop ks (e\<lparr>en_owned := gm_put k True (en_owned e)\<rparr>))"

text \<open>The body of the loop over the current plans, for one key.\<close>

definition withdraw :: "(Key, string) gomap \<Rightarrow> Key \<Rightarrow> Engine \<times> bool \<Rightarrow> Engine \<times> bool" where
  "withdraw desired k ec =
     (let (e, changed) = ec in
      case gm_get (en_plans e) k of
        None \<Rightarrow> ec
      | Some plan \<Rightarrow>
          if gm_get desired k = Some plan then ec
          else
            let e = (case gm_get (en_records e) k of
                       None \<Rightarrow> e
                     | Some r \<Rightarrow>
                         let (r, e) = bumpEpochLocked (r\<lparr>rc_value := None\<rparr>) e;
                             r = r\<lparr>rc_cooldown := 0\<rparr>;
                             e = put_record k r e
                         in if gm_get desired k = None \<and> \<not> rc_running r
                            then e\<lparr>en_records := gm_del k (en_records e),
                                   en_lastProxy := gm_del k (en_lastProxy e),
                                   en_lastFailure := gm_del k (en_lastFailure e)\<rparr>
                            else e)
            in (e\<lparr>en_plans := gm_del k (en_plans e)\<rparr>, True))"

text \<open>The body of the loop over the desired plans, for one key.\<close>

definition admit :: "(Key, string) gomap \<Rightarrow> Key \<Rightarrow> Engine \<times> bool \<Rightarrow> Engine \<times> bool" where
  "admit desired k ec =
     (let (e, changed) = ec in
      case gm_get desired k of
        None \<Rightarrow> ec
      | Some plan \<Rightarrow>
          if gm_get0 [] (en_plans e) k = plan then ec
          else
            let r = (case gm_get (en_records e) k of None \<Rightarrow> zero_record | Some r \<Rightarrow> r);
                (r, e) = bumpEpochLocked (r\<lparr>rc_value := None, rc_cooldown := 0\<rparr>) e;
                e = put_record k r e
            in (e\<lparr>en_plans := gm_put k plan (en_plans e)\<rparr>, True))"

definition apply_locked ::
  "Key list \<Rightarrow> Key list \<Rightarrow> Key list \<Rightarrow> snapshot_view \<Rightarrow> Engine \<Rightarrow> Engine \<times> bool" where
  "apply_locked ordS ordP ordD s e =
     (if en_closed e then (e, False)
      else
        let changed = (en_discoveryCount e < 0);
            e = (if Accounts (en_cfg e) \<noteq> [] \<and> \<not> en_ownsAllModels e then own_loop ordS e else e);
            (e, changed) = fold (withdraw (sv_desired s)) ordP (e, changed);
            (e, changed) = fold (admit (sv_desired s)) ordD (e, changed)
        in (e\<lparr>en_discoveryCount := sv_eligible s\<rparr>, changed))"

text \<open>
  \<open>applyAccounts\<close>: the error, whether a change is logged, and the engine.
\<close>

definition applyAccounts ::
  "Key list \<Rightarrow> Key list \<Rightarrow> Key list \<Rightarrow> Account list \<Rightarrow> Engine \<Rightarrow> string option \<times> bool \<times> Engine" where
  "applyAccounts ordS ordP ordD accounts e =
     (if int (length accounts) > maxAccounts then (Some ''too many discovered accounts'', False, e)
      else case read_snapshot (en_cfg e) snapshot_empty accounts of
             None \<Rightarrow> (Some ''invalid account discovery snapshot'', False, e)
           | Some s \<Rightarrow> let (e, changed) = apply_locked ordS ordP ordD s e in (None, changed, e))"

section \<open>Refreshing\<close>

text \<open>
  \<open>refreshAccounts\<close> up to the call of the discoverer, and after it. The first part tells
  whether the discoverer is called at all. \<open>accounts\<close> is its reply, \<open>None\<close> for an error.
\<close>

definition refresh_begin :: "gotime \<Rightarrow> bool \<Rightarrow> Engine \<Rightarrow> bool \<times> Engine" where
  "refresh_begin now force e =
     (if \<not> en_discovery e then (False, e)
      else if en_closed e \<or> (\<not> force \<and> now < en_nextDiscovery e) then (False, e)
      else (True, e\<lparr>en_nextDiscovery := now + Minute\<rparr>))"

definition refresh_end ::
  "gotime \<Rightarrow> Key list \<Rightarrow> Key list \<Rightarrow> Key list \<Rightarrow> Account list option \<Rightarrow> Engine \<Rightarrow> Engine" where
  "refresh_end now ordS ordP ordD accounts e =
     (let (err, e) = (case accounts of
                        None \<Rightarrow> (True, e)
                      | Some as \<Rightarrow> let (err, _, e) = applyAccounts ordS ordP ordD as e in (err \<noteq> None, e))
      in if err \<and> \<not> en_closed e then e\<lparr>en_nextDiscovery := now + 10 * Second\<rparr> else e)"

end
