(* ===== verification/Collect.thy ===== *)
theory Collect
  imports Engine
begin

text \<open>
  The worker of the engine: \<open>worker\<close>, \<open>collect\<close>, \<open>probe\<close> and \<open>describe\<close> of
  \<open>internal/prewarm/engine.go\<close>. A worker releases the mutex between its sections and waits for
  the host outside it, so it is a state machine: \<open>wpc\<close> says where it is and holds its local
  variables, \<open>wstep\<close> is one section or one reply of the host. Between two steps any other
  section of the engine may run.
\<close>

text \<open>
  What moves a worker: plain progress (also a timer that fires), the cancelled context, a
  reply of the host with whether its error is non-nil.
\<close>

datatype input = IGo | ICancel | IDescribe Identity bool | IProbe ProbeResult bool

datatype probe_error = NoError | BudgetError | HostError

text \<open>Short locked sections that \<open>collect\<close> calls for their effect only.\<close>

datatype act = ANote string | AMark int bool

text \<open>
  The local variables of one attempt: the job, the plan read at the start, the attempt
  number, the identity described first, the proxy.
\<close>

record attempt =
  at_job :: job
  at_plan :: string
  at_no :: int
  at_id :: Identity
  at_proxyIndex :: int
  at_proxy :: string
  at_captured :: gotime

datatype wpc =
    WFetch
  | WStart job
  | WLoop job string int
  | WWait job string int
  | WDescribe job string int
  | WChoose job string int Identity
  | WCapture attempt
  | WReserve attempt
  | WProbe attempt
  | WRedescribe attempt ProbeResult
  | WReserveFormal attempt ProbeResult Identity
  | WProbeFormal attempt ProbeResult Identity
  | WRecheck attempt ProbeResult Identity
  | WPublish attempt ProbeResult Identity
  | WActs job "act list" wpc
  | WDone job string
  | WExit

definition acts :: "job \<Rightarrow> act list \<Rightarrow> wpc \<Rightarrow> wpc" where
  "acts j as pc = (if as = [] then pc else WActs j as pc)"

fun do_act :: "gotime \<Rightarrow> job \<Rightarrow> act \<Rightarrow> Engine \<Rightarrow> Engine" where
  "do_act now j (ANote reason) e = noteFailure (jb_key j) reason e"
| "do_act now j (AMark index ok) e = markProxy now index ok e"

definition next_attempt :: "attempt \<Rightarrow> act list \<Rightarrow> wpc" where
  "next_attempt a as = acts (at_job a) as (WLoop (at_job a) (at_plan a) (at_no a + 1))"

definition at_model :: "attempt \<Rightarrow> string" where
  "at_model a = key_Model (jb_key (at_job a))"

text \<open>The two requests \<open>collect\<close> sends, as \<open>probe\<close> passes them to the host.\<close>

definition harvest_request :: "Config \<Rightarrow> attempt \<Rightarrow> ProbeRequest" where
  "harvest_request c a =
     \<lparr>rq_AuthID = key_AuthID (jb_key (at_job a)), rq_Model = at_model a,
      rq_ProxyOverride = Some (at_proxy a), rq_State = [], rq_ExpectedScope = id_Scope (at_id a),
      rq_TimeoutSeconds = ProbeTimeoutSeconds c\<rparr>"

definition formal_request :: "Config \<Rightarrow> attempt \<Rightarrow> ProbeResult \<Rightarrow> Identity \<Rightarrow> ProbeRequest" where
  "formal_request c a candidate fixd =
     \<lparr>rq_AuthID = key_AuthID (jb_key (at_job a)), rq_Model = at_model a,
      rq_ProxyOverride = None, rq_State = rs_State candidate, rq_ExpectedScope = id_Scope fixd,
      rq_TimeoutSeconds = ProbeTimeoutSeconds c\<rparr>"

definition harvest_ok :: "attempt \<Rightarrow> ProbeResult \<Rightarrow> bool" where
  "harvest_ok a candidate \<longleftrightarrow>
     \<not> (rs_Scope candidate \<noteq> id_Scope (at_id a) \<or> \<not> SuccessfulProbe candidate (at_model a) \<or>
        \<not> PlanMatches (rs_Plan candidate) (at_plan a) \<or> \<not> ValidState (rs_State candidate) (at_plan a))"

definition formal_ok :: "attempt \<Rightarrow> Identity \<Rightarrow> ProbeResult \<Rightarrow> bool" where
  "formal_ok a fixd checked \<longleftrightarrow>
     \<not> (rs_Scope checked \<noteq> id_Scope fixd \<or> \<not> SuccessfulProbe checked (at_model a) \<or>
        \<not> PlanMatches (rs_Plan checked) (at_plan a) \<or> length (rs_State checked) = 312)"

definition failure_reason :: "string \<Rightarrow> string \<Rightarrow> attempt \<Rightarrow> ProbeResult \<Rightarrow> string" where
  "failure_reason plain mismatch a result =
     (if rs_ActualModel result \<noteq> [] \<and> rs_ActualModel result \<noteq> at_model a
      then mismatch @ rs_ActualModel result else plain)"

text \<open>What follows the reply to the acquisition request.\<close>

definition after_harvest :: "attempt \<Rightarrow> ProbeResult \<Rightarrow> probe_error \<Rightarrow> Engine \<Rightarrow> wpc" where
  "after_harvest a candidate err e =
     (let j = at_job a; fail = AMark (at_proxyIndex a) False in
      if stopStatus (rs_Status candidate) then acts j [fail] (WDone j ''upstream_rejected'')
      else if err \<noteq> NoError then
        (if err = BudgetError then WDone j ''budget_exhausted''
         else if en_closed e then WDone j ''cancelled''
         else next_attempt a [ANote ''harvest_transport'', fail])
      else if \<not> harvest_ok a candidate then
        next_attempt a
          [ANote (failure_reason ''harvest_model_plan_or_state'' ''harvest_model_mismatch_'' a candidate), fail]
      else WRedescribe a candidate)"

text \<open>What follows the reply to the formal verification.\<close>

definition after_formal :: "attempt \<Rightarrow> ProbeResult \<Rightarrow> Identity \<Rightarrow> ProbeResult \<Rightarrow> probe_error \<Rightarrow> wpc" where
  "after_formal a candidate fixd checked err =
     (let j = at_job a; fail = AMark (at_proxyIndex a) False in
      if stopStatus (rs_Status checked) then acts j [fail] (WDone j ''upstream_rejected'')
      else if err = BudgetError then WDone j ''budget_exhausted''
      else if err \<noteq> NoError \<or> \<not> formal_ok a fixd checked then
        next_attempt a
          [ANote (failure_reason ''formal_model_plan_state_or_transport'' ''formal_model_mismatch_'' a checked), fail]
      else WRecheck a candidate fixd)"

text \<open>The section that makes a verified candidate available.\<close>

definition publish :: "gotime \<Rightarrow> attempt \<Rightarrow> ProbeResult \<Rightarrow> Identity \<Rightarrow> Engine \<Rightarrow> wpc \<times> Engine" where
  "publish now a candidate current e =
     (let j = at_job a; k = jb_key j; expires = at_captured a + seconds (TTLSeconds (en_cfg e)) in
      case gm_get (en_records e) k of
        None \<Rightarrow> (WDone j ''cancelled'', e)
      | Some r \<Rightarrow>
          if en_closed e \<or> rc_epoch r \<noteq> jb_epoch j \<or> gm_get0 [] (en_plans e) k \<noteq> at_plan a \<or> \<not> now < expires
          then (WDone j ''cancelled'', e)
          else
            let v = en_version e + 1;
                t = \<lparr>tk_state = rs_State candidate, tk_scope = id_Scope current, tk_version = v, tk_expires = expires\<rparr>;
                e = put_record k (r\<lparr>rc_value := Some t, rc_cooldown := 0\<rparr>) (e\<lparr>en_version := v\<rparr>)
            in (WDone j ''ready'', e\<lparr>en_lastFailure := gm_put k [] (en_lastFailure e)\<rparr>))"

text \<open>The section of \<open>worker\<close> after \<open>collect\<close> returned.\<close>

definition finish_job :: "gotime \<Rightarrow> string \<Rightarrow> job \<Rightarrow> Engine \<Rightarrow> Engine" where
  "finish_job now reason j e =
     (let k = jb_key j;
          e = (case gm_get (en_records e) k of
                 None \<Rightarrow> e
               | Some r \<Rightarrow>
                   let r = r\<lparr>rc_running := False\<rparr>;
                       r = (if reason \<noteq> ''ready'' \<and> \<not> en_closed e \<and> rc_epoch r = jb_epoch j
                            then r\<lparr>rc_cooldown := now + seconds (CooldownSeconds (en_cfg e))\<rparr> else r)
                   in put_record k r e)
      in if gm_get (en_plans e) k = None
         then e\<lparr>en_records := gm_del k (en_records e), en_lastProxy := gm_del k (en_lastProxy e),
                en_lastFailure := gm_del k (en_lastFailure e)\<rparr>
         else e)"

text \<open>
  One step of a worker; \<open>None\<close> when the input does not fit the place the worker is at. The
  auxiliary functions are the parts of a step for each kind of input.
\<close>

definition choose_step :: "gotime \<Rightarrow> job \<Rightarrow> string \<Rightarrow> int \<Rightarrow> Identity \<Rightarrow> Engine \<Rightarrow> wpc \<times> Engine" where
  "choose_step now j plan n ident e =
     (let ((index, proxy), e) = chooseProxyLocked now e in
      if index \<ge> 0 then
        (WCapture \<lparr>at_job = j\<lparr>jb_proxyIndex := index\<rparr>, at_plan = plan, at_no = n, at_id = ident,
                   at_proxyIndex = index, at_proxy = proxy, at_captured = 0\<rparr>,
         e\<lparr>en_lastProxy := gm_put (jb_key j) index (en_lastProxy e)\<rparr>)
      else (acts j [ANote ''all_proxies_cooldown''] (WDone j ''proxy_pool_cooldown''), e))"

definition go_step :: "gotime \<Rightarrow> wpc \<Rightarrow> Engine \<Rightarrow> (wpc \<times> Engine) option" where
  "go_step now pc e =
     (case pc of
        WFetch \<Rightarrow> (case en_queue e of [] \<Rightarrow> None | j # q \<Rightarrow> Some (WStart j, e\<lparr>en_queue := q\<rparr>))
      | WStart j \<Rightarrow>
          Some (case gm_get (en_plans e) (jb_key j) of
                  None \<Rightarrow> WDone j ''cancelled''
                | Some plan \<Rightarrow> WLoop j plan 0, e)
      | WLoop j plan n \<Rightarrow>
          Some (if \<not> n < MaxAttempts (en_cfg e) then WDone j ''attempts_exhausted''
                else if \<not> active j e \<or> en_closed e then WDone j ''cancelled''
                else if n > 0 then WWait j plan n
                else WDescribe j plan n, e)
      | WWait j plan n \<Rightarrow> Some (WDescribe j plan n, e)
      | WChoose j plan n ident \<Rightarrow> Some (choose_step now j plan n ident e)
      | WCapture a \<Rightarrow> Some (WReserve (a\<lparr>at_captured := now\<rparr>), e)
      | WReserve a \<Rightarrow>
          (let (ok, e) = reserveProbe now e in
           Some (if ok then WProbe a else after_harvest a zero_result BudgetError e, e))
      | WReserveFormal a candidate fixd \<Rightarrow>
          (let (ok, e) = reserveProbe now e in
           Some (if ok then WProbeFormal a candidate fixd
                 else after_formal a candidate fixd zero_result BudgetError, e))
      | WPublish a candidate current \<Rightarrow> Some (publish now a candidate current e)
      | WActs j as pc \<Rightarrow> (case as of [] \<Rightarrow> None | x # xs \<Rightarrow> Some (acts j xs pc, do_act now j x e))
      | WDone j reason \<Rightarrow> Some (WFetch, finish_job now reason j e)
      | _ \<Rightarrow> None)"

definition cancel_step :: "wpc \<Rightarrow> Engine \<Rightarrow> (wpc \<times> Engine) option" where
  "cancel_step pc e =
     (if \<not> en_closed e then None
      else case pc of
        WFetch \<Rightarrow> Some (WExit, e)
      | WWait j plan n \<Rightarrow> Some (WDone j ''cancelled'', e)
      | _ \<Rightarrow> None)"

definition describe_step :: "Identity \<Rightarrow> bool \<Rightarrow> wpc \<Rightarrow> Engine \<Rightarrow> wpc option" where
  "describe_step ident err pc e =
     (case pc of
        WDescribe j plan n \<Rightarrow>
          (let (ident, err) = describe ident err in
           Some (if err then acts j [ANote ''identity_unavailable''] (WDone j ''identity_unavailable'')
                 else if \<not> identityPlanMatches e (id_Plan ident) plan
                 then acts j [ANote ''harvest_plan_mismatch''] (WDone j ''plan_mismatch'')
                 else WChoose j plan n ident))
      | WRedescribe a candidate \<Rightarrow>
          (let (fixd, err) = describe ident err in
           Some (if err then WDone (at_job a) ''identity_unavailable''
                 else if id_Scope fixd \<noteq> id_Scope (at_id a)
                 then next_attempt a [ANote ''harvest_scope_changed'', AMark (at_proxyIndex a) False]
                 else WReserveFormal a candidate fixd))
      | WRecheck a candidate fixd \<Rightarrow>
          (let (current, err) = describe ident err in
           Some (if err \<or> id_Scope current \<noteq> id_Scope fixd
                 then next_attempt a [ANote ''formal_scope_changed'', AMark (at_proxyIndex a) False]
                 else acts (at_job a) [AMark (at_proxyIndex a) True] (WPublish a candidate current)))
      | _ \<Rightarrow> None)"

definition probe_step :: "ProbeResult \<Rightarrow> bool \<Rightarrow> wpc \<Rightarrow> Engine \<Rightarrow> wpc option" where
  "probe_step result err pc e =
     (case pc of
        WProbe a \<Rightarrow> Some (after_harvest a result (if err then HostError else NoError) e)
      | WProbeFormal a candidate fixd \<Rightarrow>
          Some (after_formal a candidate fixd result (if err then HostError else NoError))
      | _ \<Rightarrow> None)"

definition wstep :: "gotime \<Rightarrow> input \<Rightarrow> wpc \<Rightarrow> Engine \<Rightarrow> (wpc \<times> Engine) option" where
  "wstep now inp pc e =
     (case inp of
        IGo \<Rightarrow> go_step now pc e
      | ICancel \<Rightarrow> cancel_step pc e
      | IDescribe ident err \<Rightarrow> map_option (\<lambda>pc. (pc, e)) (describe_step ident err pc e)
      | IProbe result err \<Rightarrow> map_option (\<lambda>pc. (pc, e)) (probe_step result err pc e))"

text \<open>The request a worker has sent and waits for.\<close>

definition pending_request :: "Config \<Rightarrow> wpc \<Rightarrow> ProbeRequest option" where
  "pending_request c pc =
     (case pc of
        WProbe a \<Rightarrow> Some (harvest_request c a)
      | WProbeFormal a candidate fixd \<Rightarrow> Some (formal_request c a candidate fixd)
      | _ \<Rightarrow> None)"

end
