(* ===== verification/Engine_Frame.thy ===== *)
theory Engine_Frame
  imports Discovery Collect
begin

text \<open>
  What the sections of the engine have in common. \<open>live\<close> is the ticket of a key, \<open>busy\<close> its
  running flag, \<open>balance\<close> the number of its queued jobs less the flag, and \<open>fenced\<close> says that
  every job of the key with this epoch is out of date. \<open>quiet e e'\<close> is the relation every
  section satisfies that neither publishes a ticket nor takes or ends a job: tickets are kept
  or dropped, a kept ticket keeps its plan, the balance stays, fences stay up, and a closed
  engine stays closed, with its queue as it is.
\<close>

named_theorems quiet_intros "sections that leave the engine quiet"

section \<open>Views of the engine\<close>

definition live :: "Engine \<Rightarrow> Key \<Rightarrow> ticket option" where
  "live e k = (case gm_get (en_records e) k of None \<Rightarrow> None | Some r \<Rightarrow> rc_value r)"

definition busy :: "Engine \<Rightarrow> Key \<Rightarrow> bool" where
  "busy e k \<longleftrightarrow> (case gm_get (en_records e) k of None \<Rightarrow> False | Some r \<Rightarrow> rc_running r)"

definition queued :: "Engine \<Rightarrow> Key \<Rightarrow> nat" where
  "queued e k = length (filter (\<lambda>j. jb_key j = k) (en_queue e))"

definition balance :: "Engine \<Rightarrow> Key \<Rightarrow> int" where
  "balance e k = int (queued e k) - (if busy e k then 1 else 0)"

definition fenced :: "Engine \<Rightarrow> Key \<Rightarrow> nat \<Rightarrow> bool" where
  "fenced e k n \<longleftrightarrow> n \<le> en_epoch e \<and>
     (case gm_get (en_records e) k of None \<Rightarrow> True | Some r \<Rightarrow> n < rc_epoch r)"

definition quiet :: "Engine \<Rightarrow> Engine \<Rightarrow> bool" where
  "quiet e e' \<longleftrightarrow> en_cfg e' = en_cfg e \<and> en_version e' = en_version e \<and> en_epoch e \<le> en_epoch e' \<and>
     (en_closed e \<longrightarrow> en_closed e' \<and> en_queue e' = en_queue e) \<and>
     (\<forall>k. balance e' k = balance e k) \<and> (\<forall>k n. fenced e k n \<longrightarrow> fenced e' k n) \<and>
     (\<forall>k. live e' k = None \<or> live e' k = live e k \<and> gm_get (en_plans e') k = gm_get (en_plans e) k)"

lemma quiet_refl [simp, quiet_intros]: "quiet e e"
  by (simp add: quiet_def)

lemma quiet_trans: "quiet e e' \<Longrightarrow> quiet e' e'' \<Longrightarrow> quiet e e''"
  unfolding quiet_def by (metis le_trans)

lemma quiet_cfg: "quiet e e' \<Longrightarrow> en_cfg e' = en_cfg e"
  by (simp add: quiet_def)

lemma quiet_version: "quiet e e' \<Longrightarrow> en_version e' = en_version e"
  by (simp add: quiet_def)

lemma quiet_closed: "quiet e e' \<Longrightarrow> en_closed e \<Longrightarrow> en_closed e'"
  by (simp add: quiet_def)

lemma quiet_queue: "quiet e e' \<Longrightarrow> en_closed e \<Longrightarrow> en_queue e' = en_queue e"
  by (simp add: quiet_def)

lemma quiet_balance: "quiet e e' \<Longrightarrow> balance e' k = balance e k"
  by (simp add: quiet_def)

lemma quiet_fenced: "quiet e e' \<Longrightarrow> fenced e k n \<Longrightarrow> fenced e' k n"
  by (simp add: quiet_def)

lemma quiet_live:
  "quiet e e' \<Longrightarrow> live e' k = Some t \<Longrightarrow>
     live e k = Some t \<and> gm_get (en_plans e') k = gm_get (en_plans e) k"
  unfolding quiet_def by (metis option.distinct(1))

lemma quiet_foldl:
  assumes "\<And>e x. quiet e (f e x)"
  shows "quiet e (foldl f e xs)"
proof (induction xs arbitrary: e)
  case Nil
  then show ?case by simp
next
  case (Cons x xs)
  show ?case using quiet_trans [OF assms Cons.IH] by simp
qed

lemma quiet_fold:
  assumes "\<And>x ec. quiet (fst ec) (fst (f x ec))"
  shows "quiet (fst ec) (fst (fold f xs ec))"
proof (induction xs arbitrary: ec)
  case Nil
  then show ?case by simp
next
  case (Cons x xs)
  show ?case using quiet_trans [OF assms Cons.IH] by simp
qed

section \<open>Elementary changes\<close>

lemma quiet_frame:
  "en_cfg e' = en_cfg e \<Longrightarrow> en_version e' = en_version e \<Longrightarrow> en_epoch e' = en_epoch e \<Longrightarrow>
   en_plans e' = en_plans e \<Longrightarrow> en_records e' = en_records e \<Longrightarrow> en_queue e' = en_queue e \<Longrightarrow>
   (en_closed e \<Longrightarrow> en_closed e') \<Longrightarrow> quiet e e'"
  by (simp add: quiet_def balance_def queued_def busy_def live_def fenced_def)

lemma quiet_put_record:
  assumes "gm_get (en_records e) k = Some r" and "rc_running r' = rc_running r"
    and "rc_value r' = None \<or> rc_value r' = rc_value r" and "rc_epoch r \<le> rc_epoch r'"
  shows "quiet e (put_record k r' e)"
  using assms
  by (auto simp: quiet_def put_record_def balance_def queued_def busy_def live_def fenced_def
      split: option.splits)

lemma quiet_epoch: "en_epoch e \<le> n \<Longrightarrow> quiet e (e\<lparr>en_epoch := n\<rparr>)"
  by (auto simp: quiet_def balance_def queued_def busy_def live_def fenced_def split: option.splits)

lemma quiet_bump:
  assumes "gm_get (en_records e) k = Some r"
    and "bumpEpochLocked (r\<lparr>rc_value := None\<rparr>) e = (r', e')"
    and "rc_running r'' = rc_running r'" and "rc_value r'' = rc_value r'" and "rc_epoch r'' = rc_epoch r'"
  shows "quiet e (put_record k r'' e')"
proof -
  let ?n = "(if en_epoch e < rc_epoch r then rc_epoch r else en_epoch e) + 1"
  have e': "e' = e\<lparr>en_epoch := ?n\<rparr>" and r': "r' = r\<lparr>rc_value := None, rc_epoch := ?n\<rparr>"
    using assms(2) by (auto simp: bumpEpochLocked_def Let_def)
  have "quiet e e'" unfolding e' by (rule quiet_epoch) simp
  moreover have "quiet e' (put_record k r'' e')"
    by (rule quiet_put_record [where r = r]) (use assms in \<open>simp_all add: e' r'\<close>)
  ultimately show ?thesis by (rule quiet_trans)
qed

lemma quiet_enqueue [quiet_intros]: "quiet e (enqueueLocked now k e)"
  by (auto simp: enqueueLocked_def Let_def quiet_def put_record_def balance_def queued_def busy_def
      live_def fenced_def split: option.splits)

lemma quiet_noteFailure [quiet_intros]: "quiet e (noteFailure k reason e)"
  by (rule quiet_frame) (simp_all add: noteFailure_def)

lemma quiet_markProxy [quiet_intros]: "quiet e (markProxy now index ok e)"
  by (rule quiet_frame) (simp_all add: markProxy_def Let_def)

lemma quiet_reserveProbe [quiet_intros]: "quiet e (snd (reserveProbe now e))"
  by (rule quiet_frame) (simp_all add: reserveProbe_def split: prod.split)

lemma quiet_chooseProxy [quiet_intros]: "quiet e (snd (chooseProxyLocked now e))"
  by (rule quiet_frame) (simp_all add: chooseProxyLocked_def Let_def split: option.split)

lemma quiet_do_act [quiet_intros]: "quiet e (do_act now j x e)"
  by (cases x) (simp_all add: quiet_noteFailure quiet_markProxy)

lemma quiet_Close [quiet_intros]: "quiet e (Close e)"
  by (rule quiet_frame) (simp_all add: Close_def)

section \<open>Request handlers\<close>

lemma quiet_schedule [quiet_intros]: "quiet e (schedule_locked now ord e)"
proof -
  let ?e = "e\<lparr>en_requests := filter (\<lambda>(r, ob). \<not> now - ob_created ob > 2 * Hour) (en_requests e)\<rparr>"
  have "quiet e ?e" by (rule quiet_frame) simp_all
  moreover have "quiet ?e (schedule_locked now ord e)"
    unfolding schedule_locked_def Let_def
    by (rule quiet_foldl) (auto simp: quiet_enqueue split: option.split)
  ultimately show ?thesis by (rule quiet_trans)
qed

lemma quiet_invalidate [quiet_intros]: "quiet e (invalidateLocked now ob e)"
proof -
  have "quiet e (case bumpEpochLocked (r\<lparr>rc_value := None\<rparr>) e of
          (r, e) \<Rightarrow> enqueueLocked now (ob_key ob) (put_record (ob_key ob) (r\<lparr>rc_cooldown := 0\<rparr>) e))"
    if "gm_get (en_records e) (ob_key ob) = Some r" for r
  proof -
    obtain r' e' where b: "bumpEpochLocked (r\<lparr>rc_value := None\<rparr>) e = (r', e')" by fastforce
    have "quiet e (put_record (ob_key ob) (r'\<lparr>rc_cooldown := 0\<rparr>) e')"
      by (rule quiet_bump [OF that b]) simp_all
    with quiet_trans quiet_enqueue show ?thesis unfolding b by fastforce
  qed
  then show ?thesis by (auto simp: invalidateLocked_def Let_def split: option.split)
qed

lemma quiet_check_header [quiet_intros]: "quiet e (check_header now ob e nv)"
  unfolding check_header_def Let_def case_prod_beta
  by (auto intro!: quiet_trans [OF _ quiet_foldl] quiet_foldl simp: quiet_invalidate
      intro: quiet_trans [OF quiet_foldl quiet_invalidate])

lemma quiet_Headers [quiet_intros]: "quiet e (Headers now rid h e)"
  unfolding Headers_def by (auto split: option.split intro!: quiet_foldl quiet_check_header)

lemma quiet_requests: "quiet e (e\<lparr>en_requests := q\<rparr>)"
  by (rule quiet_frame) simp_all

lemma quiet_observe [quiet_intros]: "quiet e (observe now rid f e)"
  unfolding observe_def Let_def
  by (auto split: option.split intro: quiet_requests quiet_trans [OF quiet_requests quiet_invalidate])

lemma quiet_Chunk [quiet_intros]: "quiet e (Chunk now rid p e)"
  by (simp add: Chunk_def quiet_observe)

lemma quiet_JSON [quiet_intros]: "quiet e (EngineJSON now rid p e)"
  by (simp add: EngineJSON_def quiet_observe)

lemma quiet_Complete [quiet_intros]: "quiet e (Complete now rid e)"
  unfolding Complete_def Let_def
  by (auto split: option.split intro: quiet_trans [OF quiet_observe quiet_requests])

text \<open>The three stages of the section of \<open>Bind\<close>: tombstone, check of the ticket, answer.\<close>

definition bind_touch :: "gotime \<Rightarrow> string \<Rightarrow> Engine \<Rightarrow> Engine" where
  "bind_touch now rid e =
     (case gm_get (en_requests e) rid of
        None \<Rightarrow> e
      | Some ob \<Rightarrow> e\<lparr>en_requests := gm_put rid (ob\<lparr>ob_observer := None, ob_created := now\<rparr>) (en_requests e)\<rparr>)"

definition ticket_fits :: "gotime \<Rightarrow> Identity \<times> bool \<Rightarrow> string \<Rightarrow> ticket \<Rightarrow> Engine \<Rightarrow> bool" where
  "ticket_fits now answer plan t e \<longleftrightarrow>
     \<not> snd answer \<and> tk_scope t = id_Scope (fst answer) \<and>
     identityPlanMatches e (id_Plan (fst answer)) plan \<and> now < tk_expires t"

definition drop_ticket :: "Key \<Rightarrow> engine_record \<Rightarrow> Engine \<Rightarrow> Engine" where
  "drop_ticket k r e = (let (r, e) = bumpEpochLocked (r\<lparr>rc_value := None\<rparr>) e in put_record k r e)"

lemma drop_ticket_fields:
  "live (drop_ticket k r e) k = None"
  "en_requests (drop_ticket k r e) = en_requests e"
  "en_closed (drop_ticket k r e) = en_closed e"
  "en_plans (drop_ticket k r e) = en_plans e"
  "en_cfg (drop_ticket k r e) = en_cfg e"
  by (simp_all add: drop_ticket_def bumpEpochLocked_def put_record_def Let_def live_def)

lemma quiet_drop_ticket: "gm_get (en_records e) k = Some r \<Longrightarrow> quiet e (drop_ticket k r e)"
  unfolding drop_ticket_def by (auto intro: quiet_bump split: prod.split)

lemma bind_touch_fields:
  "en_records (bind_touch now rid e) = en_records e"
  "en_plans (bind_touch now rid e) = en_plans e"
  "en_closed (bind_touch now rid e) = en_closed e"
  "en_cfg (bind_touch now rid e) = en_cfg e"
  "en_version (bind_touch now rid e) = en_version e"
  "live (bind_touch now rid e) = live e"
  by (auto simp: bind_touch_def live_def fun_eq_iff split: option.split)

lemma bind_locked_unfold:
  "bind_locked now rid k callerState answer e =
     (let e0 = bind_touch now rid e in
      if en_closed e then (([], False), e0)
      else case (gm_get (en_plans e) k, gm_get (en_records e) k) of
        (Some plan, Some r) \<Rightarrow>
          (case rc_value r of
             None \<Rightarrow> (([], False), enqueueLocked now k e0)
           | Some t \<Rightarrow>
               if \<not> ticket_fits now answer plan t e
               then (([], False), enqueueLocked now k (drop_ticket k r e0))
               else if callerState \<or> gm_len (en_requests e0) \<ge> MaxPending (en_cfg e) then (([], False), e0)
               else ((tk_state t, True),
                     e0\<lparr>en_requests := gm_put rid
                         \<lparr>ob_key = k, ob_version = tk_version t,
                          ob_observer = (if gm_get (en_requests e) rid = None
                                         then Some (NewCompletion (key_Model k)) else None),
                          ob_created = now\<rparr> (en_requests e0)\<rparr>))
      | _ \<Rightarrow> (([], False), e0))"
proof -
  let ?e0 = "case gm_get (en_requests e) rid of None \<Rightarrow> e
    | Some ob \<Rightarrow> e\<lparr>en_requests := gm_put rid (ob\<lparr>ob_observer := None, ob_created := now\<rparr>) (en_requests e)\<rparr>"
  have e0: "?e0 = bind_touch now rid e" by (simp add: bind_touch_def)
  have ident: "identityPlanMatches (bind_touch now rid e) = identityPlanMatches e"
    by (simp add: identityPlanMatches_def bind_touch_fields fun_eq_iff)
  obtain i err where answer: "answer = (i, err)" by fastforce
  show ?thesis
    unfolding bind_locked_def Let_def answer case_prod_conv e0 bind_touch_fields
    by (cases "gm_get (en_plans e) k"; cases "gm_get (en_records e) k";
        simp add: ident ticket_fits_def drop_ticket_def Let_def bumpEpochLocked_def bind_touch_fields
          split: option.split)
qed

lemma quiet_bind_touch: "quiet e (bind_touch now rid e)"
  by (auto simp: bind_touch_def quiet_requests split: option.split)

lemma quiet_bind_locked [quiet_intros]: "quiet e (snd (bind_locked now rid k callerState answer e))"
proof -
  let ?e0 = "bind_touch now rid e"
  have touch: "quiet e ?e0" by (rule quiet_bind_touch)
  have enq: "quiet e (enqueueLocked now k ?e0)" by (rule quiet_trans [OF touch quiet_enqueue])
  have drop: "quiet e (enqueueLocked now k (drop_ticket k r ?e0))" if "gm_get (en_records e) k = Some r" for r
    by (rule quiet_trans [OF quiet_trans [OF touch quiet_drop_ticket] quiet_enqueue])
      (simp add: that bind_touch_fields)
  have put: "quiet e (?e0\<lparr>en_requests := q\<rparr>)" for q
    by (rule quiet_trans [OF touch quiet_requests])
  show ?thesis
    unfolding bind_locked_unfold Let_def
    by (auto split: option.splits simp: touch enq drop put)
qed

lemma quiet_Bind: "quiet e (snd (Bind now rid k callerState answer e))"
  by (simp add: Bind_def quiet_bind_locked)

section \<open>Account discovery\<close>

lemma quiet_own_loop [quiet_intros]: "quiet e (own_loop ks e)"
proof (induction ks arbitrary: e)
  case Nil
  then show ?case by simp
next
  case (Cons k ks)
  have "quiet e (e\<lparr>en_owned := o'\<rparr>)" "quiet e (e\<lparr>en_ownsAllModels := b, en_owned := o'\<rparr>)" for b o'
    by (auto intro: quiet_frame)
  with Cons show ?case
    by (auto simp: Let_def intro: quiet_trans [where e' = "e\<lparr>en_owned := gm_put k True (en_owned e)\<rparr>"])
qed

text \<open>\<open>withdraw\<close> in two stages: the record is revoked, then perhaps deleted with its notes.\<close>

definition revoke :: "Key \<Rightarrow> engine_record \<Rightarrow> Engine \<Rightarrow> Engine" where
  "revoke k r e = (let (r, e) = bumpEpochLocked (r\<lparr>rc_value := None\<rparr>) e
                   in put_record k (r\<lparr>rc_cooldown := 0\<rparr>) e)"

definition forget_key :: "Key \<Rightarrow> Engine \<Rightarrow> Engine" where
  "forget_key k e = e\<lparr>en_records := gm_del k (en_records e), en_lastProxy := gm_del k (en_lastProxy e),
                      en_lastFailure := gm_del k (en_lastFailure e)\<rparr>"

definition drop_plan :: "Key \<Rightarrow> Engine \<Rightarrow> Engine" where
  "drop_plan k e = e\<lparr>en_plans := gm_del k (en_plans e)\<rparr>"

lemma withdraw_unfold:
  "withdraw desired k (e, c) =
     (case gm_get (en_plans e) k of
        None \<Rightarrow> (e, c)
      | Some plan \<Rightarrow>
          if gm_get desired k = Some plan then (e, c)
          else
            (drop_plan k
              (case gm_get (en_records e) k of
                 None \<Rightarrow> e
               | Some r \<Rightarrow>
                   if gm_get desired k = None \<and> \<not> rc_running r then forget_key k (revoke k r e)
                   else revoke k r e), True))"
  by (simp add: withdraw_def revoke_def forget_key_def drop_plan_def bumpEpochLocked_def put_record_def
      Let_def split: option.split)

lemma quiet_revoke: "gm_get (en_records e) k = Some r \<Longrightarrow> quiet e (revoke k r e)"
  unfolding revoke_def by (auto intro: quiet_bump split: prod.split)

lemma revoke_fields:
  "live (revoke k r e) k = None"
  "busy (revoke k r e) k = rc_running r"
  "en_plans (revoke k r e) = en_plans e"
  by (simp_all add: live_def busy_def revoke_def put_record_def bumpEpochLocked_def Let_def)

lemma quiet_forget_key: "\<not> busy e k \<Longrightarrow> quiet e (forget_key k e)"
  by (auto simp: forget_key_def quiet_def balance_def queued_def busy_def live_def fenced_def split: option.splits)

lemma live_forget_key: "live (forget_key k e) k = None"
  by (simp add: live_def forget_key_def)

lemma quiet_drop_plan: "live e k = None \<Longrightarrow> quiet e (drop_plan k e)"
  by (auto simp: drop_plan_def quiet_def balance_def queued_def busy_def live_def fenced_def)

lemma quiet_withdraw: "quiet (fst ec) (fst (withdraw desired k ec))"
proof -
  obtain e c where ec: "ec = (e, c)" by fastforce
  show ?thesis
  proof (cases "gm_get (en_records e) k")
    case None
    then have "live e k = None" by (simp add: live_def)
    from quiet_drop_plan [OF this] None show ?thesis by (auto simp: withdraw_unfold ec split: option.split)
  next
    case (Some r)
    note rev = quiet_revoke [OF Some]
    have "quiet e (drop_plan k (revoke k r e))"
      by (rule quiet_trans [OF rev quiet_drop_plan]) (rule revoke_fields)
    moreover have "quiet e (drop_plan k (forget_key k (revoke k r e)))" if "\<not> rc_running r"
      by (rule quiet_trans [OF quiet_trans [OF rev quiet_forget_key] quiet_drop_plan])
        (simp_all add: that revoke_fields live_forget_key)
    ultimately show ?thesis
      using Some by (auto simp: withdraw_unfold ec split: option.split)
  qed
qed

text \<open>\<open>admit\<close>: the record is made if there is none, revoked, and the plan is set.\<close>

definition ensure_record :: "Key \<Rightarrow> Engine \<Rightarrow> Engine" where
  "ensure_record k e = (case gm_get (en_records e) k of None \<Rightarrow> put_record k zero_record e | Some _ \<Rightarrow> e)"

definition admit_record :: "Key \<Rightarrow> Engine \<Rightarrow> Engine" where
  "admit_record k e = revoke k (case gm_get (en_records e) k of None \<Rightarrow> zero_record | Some r \<Rightarrow> r) e"

lemma revoke_order:
  "r\<lparr>rc_value := v, rc_cooldown := c, rc_epoch := n\<rparr> = r\<lparr>rc_value := v, rc_epoch := n, rc_cooldown := c\<rparr>"
  by simp

lemma admit_unfold:
  "admit desired k (e, c) =
     (case gm_get desired k of
        None \<Rightarrow> (e, c)
      | Some plan \<Rightarrow>
          if gm_get0 [] (en_plans e) k = plan then (e, c)
          else (admit_record k e\<lparr>en_plans := gm_put k plan (en_plans e)\<rparr>, True))"
  by (simp add: admit_def admit_record_def revoke_def bumpEpochLocked_def put_record_def Let_def
      zero_record_def revoke_order split: option.split)

lemma quiet_admit_record: "quiet e (admit_record k e)"
proof (cases "gm_get (en_records e) k")
  case None
  then show ?thesis
    by (auto simp: admit_record_def revoke_def bumpEpochLocked_def put_record_def zero_record_def Let_def
        quiet_def balance_def queued_def busy_def live_def fenced_def split: option.splits)
next
  case (Some r)
  then show ?thesis by (simp add: admit_record_def quiet_revoke)
qed

lemma live_admit_record: "live (admit_record k e) k = None"
  by (simp add: admit_record_def revoke_fields)

lemma quiet_set_plan: "live e k = None \<Longrightarrow> quiet e (e\<lparr>en_plans := gm_put k plan (en_plans e)\<rparr>)"
  by (auto simp: quiet_def balance_def queued_def busy_def live_def fenced_def)

lemma quiet_admit: "quiet (fst ec) (fst (admit desired k ec))"
proof -
  obtain e c where ec: "ec = (e, c)" by fastforce
  have plans: "en_plans (admit_record k e) = en_plans e" by (simp add: admit_record_def revoke_fields)
  have "quiet e (admit_record k e\<lparr>en_plans := gm_put k plan (en_plans e)\<rparr>)" for plan
    using quiet_trans [OF quiet_admit_record quiet_set_plan [OF live_admit_record, of k e plan]]
    by (simp add: plans)
  then show ?thesis by (auto simp: admit_unfold ec split: option.split)
qed

lemma quiet_apply_locked [quiet_intros]: "quiet e (fst (apply_locked ordS ordP ordD s e))"
proof -
  let ?e0 = "if Accounts (en_cfg e) \<noteq> [] \<and> \<not> en_ownsAllModels e then own_loop ordS e else e"
  let ?c0 = "en_discoveryCount e < 0"
  let ?p1 = "fold (withdraw (sv_desired s)) ordP (?e0, ?c0)"
  let ?p2 = "fold (admit (sv_desired s)) ordD ?p1"
  have "quiet e ?e0" by (simp add: quiet_own_loop)
  moreover have "quiet ?e0 (fst ?p1)"
    using quiet_fold [of "withdraw (sv_desired s)" "(?e0, ?c0)" ordP] quiet_withdraw by fastforce
  moreover have "quiet (fst ?p1) (fst ?p2)"
    using quiet_fold [of "admit (sv_desired s)" ?p1 ordD] quiet_admit by fastforce
  moreover have "quiet (fst ?p2) ((fst ?p2)\<lparr>en_discoveryCount := n\<rparr>)" for n
    by (rule quiet_frame) simp_all
  ultimately have "quiet e ((fst ?p2)\<lparr>en_discoveryCount := n\<rparr>)" for n
    by (blast intro: quiet_trans)
  then show ?thesis by (simp add: apply_locked_def Let_def case_prod_beta)
qed

lemma quiet_applyAccounts [quiet_intros]: "quiet e (snd (snd (applyAccounts ordS ordP ordD as e)))"
  using quiet_apply_locked by (simp add: applyAccounts_def case_prod_beta Let_def split: option.split)

lemma quiet_nextDiscovery: "quiet e (e\<lparr>en_nextDiscovery := n\<rparr>)"
  by (rule quiet_frame) simp_all

lemma quiet_refresh_begin [quiet_intros]: "quiet e (snd (refresh_begin now force e))"
  by (simp add: refresh_begin_def quiet_nextDiscovery)

lemma quiet_refresh_end [quiet_intros]: "quiet e (refresh_end now ordS ordP ordD accounts e)"
proof (cases accounts)
  case None
  then show ?thesis by (simp add: refresh_end_def quiet_nextDiscovery)
next
  case (Some as)
  have "quiet e (snd (snd (applyAccounts ordS ordP ordD as e)))" by (rule quiet_applyAccounts)
  with Some show ?thesis
    by (auto simp: refresh_end_def case_prod_beta Let_def intro: quiet_trans [OF _ quiet_nextDiscovery])
qed

end
