(* ===== verification/Engine_Spec.thy ===== *)
theory Engine_Spec
  imports Engine_Frame
begin

text \<open>
  What the engine promises to the request path: which ticket \<open>Bind\<close> hands out, when an
  observed response revokes a ticket, and what a revocation leaves behind.
\<close>

section \<open>Samples\<close>

text \<open>An engine for two explicit accounts, and the same engine after an acquisition.\<close>

definition sample_cfg :: Config where
  "sample_cfg =
     \<lparr>Enabled = True, Models = [], MaxProbesPerHour = 10, Proxies = [''socks5h://p:1'', ''socks5h://q:2''],
      ProxyFile = [], HostConfigFile = [],
      Accounts = [\<lparr>ac_Email = [], ac_AuthID = ''u1'', ac_Plan = ''pro'', ac_Models = [''gpt-6'']\<rparr>,
                  \<lparr>ac_Email = [], ac_AuthID = ''u2'', ac_Plan = ''team'', ac_Models = [''gpt-6'']\<rparr>],
      Workers = 1, MaxAttempts = 3, AttemptIntervalSeconds = 2, CooldownSeconds = 600, TTLSeconds = 3600,
      RefreshBeforeSeconds = 300, ProbeTimeoutSeconds = 30, MaxPending = 2\<rparr>"

definition sample_engine :: Engine where
  "sample_engine = projr (New (\<lambda>_. True) sample_cfg (Inr (Proxies sample_cfg)) True True)"

definition k1 :: Key where "k1 = Key ''u1'' ''gpt-6''"

definition k2 :: Key where "k2 = Key ''u2'' ''gpt-6''"

definition sample_token :: string where
  "sample_token = ''gAAAAA'' @ replicate 286 (CHR ''x'')"

definition sample_ticket :: ticket where
  "sample_ticket = \<lparr>tk_state = sample_token, tk_scope = ''s1'', tk_version = 1, tk_expires = 3600 * Second\<rparr>"

definition sample_ready :: Engine where
  "sample_ready = put_record k1 \<lparr>rc_value = Some sample_ticket, rc_epoch = 0, rc_running = False, rc_cooldown = 0\<rparr>
     (sample_engine\<lparr>en_version := 1\<rparr>)"

definition sample_answer :: "Identity \<times> bool" where
  "sample_answer = (\<lparr>id_Scope = ''s1'', id_Plan = ''plus''\<rparr>, False)"

definition sample_bound :: Engine where
  "sample_bound = snd (Bind 7 ''r1'' k1 False sample_answer sample_ready)"

lemma sample_New:
  "New (\<lambda>_. True) sample_cfg (Inr (Proxies sample_cfg)) True True = Inr sample_engine"
proof -
  have "isl (New (\<lambda>_. True) sample_cfg (Inr (Proxies sample_cfg)) True True) = False" by code_simp
  then show ?thesis by (simp add: sample_engine_def)
qed

section \<open>Binding\<close>

text \<open>The ticket a request for \<open>k\<close> may carry: a reference definition.\<close>

definition bindable :: "gotime \<Rightarrow> Key \<Rightarrow> Identity \<times> bool \<Rightarrow> Engine \<Rightarrow> ticket option" where
  "bindable now k answer e =
     (case (gm_get (en_plans e) k, live e k) of
        (Some plan, Some t) \<Rightarrow>
          if id_Scope (fst answer) \<noteq> [] \<and> ticket_fits now answer plan t e then Some t else None
      | _ \<Rightarrow> None)"

lemma ticket_fits_describe:
  "ticket_fits now (describe (fst answer) (snd answer)) plan t e \<longleftrightarrow>
     id_Scope (fst answer) \<noteq> [] \<and> ticket_fits now answer plan t e"
  by (auto simp: ticket_fits_def describe_def)

lemma bind_touch_len: "gm_len (en_requests (bind_touch now rid e)) = gm_len (en_requests e)"
  by (simp add: bind_touch_def gm_len_put split: option.split)

lemma Manages_plans: "gm_get (en_plans e) k = None \<Longrightarrow> fst (Bind now rid k callerState answer e) = ([], False)"
  by (simp add: Bind_def)

text \<open>
  C3. Binding, exactly. A request gets a state if and only if it has an id, its key is managed,
  the engine runs, the caller brought no state of its own, there is room for one more watched
  request, and the key has a live ticket that fits the identity the host reports now: same
  scope, matching plan, not expired. The state is that ticket's.
\<close>

theorem bind_exact:
  "fst (Bind now rid k callerState answer e) =
     (if rid \<noteq> [] \<and> Manages k e \<and> \<not> en_closed e \<and> \<not> callerState \<and>
         gm_len (en_requests e) < MaxPending (en_cfg e)
      then (case bindable now k answer e of None \<Rightarrow> ([], False) | Some t \<Rightarrow> (tk_state t, True))
      else ([], False))"
proof (cases "gm_get (en_plans e) k")
  case None
  then show ?thesis by (simp add: Bind_def bindable_def)
next
  case (Some plan)
  then show ?thesis
    by (auto simp: Bind_def bind_locked_unfold bindable_def live_def Let_def ticket_fits_describe
        bind_touch_len bind_touch_fields not_le split: option.split)
qed

lemma bind_locked_live:
  "live (snd (bind_locked now rid k callerState answer e)) k' =
     (if k' = k \<and> \<not> en_closed e \<and>
         (case (gm_get (en_plans e) k, live e k) of
            (Some plan, Some t) \<Rightarrow> \<not> ticket_fits now answer plan t e | _ \<Rightarrow> False)
      then None else live e k')"
proof -
  have enq: "live (enqueueLocked now k e') = live e'" for e'
    by (auto simp: enqueueLocked_def live_def put_record_def Let_def fun_eq_iff split: option.split)
  have drop: "live (drop_ticket k r e') k' = (if k' = k then None else live e' k')" for r e' k'
    by (auto simp: drop_ticket_def live_def put_record_def bumpEpochLocked_def Let_def split: option.split)
  have req: "live (e'\<lparr>en_requests := q\<rparr>) = live e'" for e' q by (simp add: live_def fun_eq_iff)
  show ?thesis
    unfolding bind_locked_unfold Let_def
    by (simp add: enq drop req bind_touch_fields split: option.split)
      (auto simp: live_def split: option.split)
qed

text \<open>
  C18. A ticket that no longer fits is never handed out again: once \<open>Bind\<close> finds that the
  identity, the plan or the time has moved on, the ticket is gone, every acquisition of the old
  epoch is out of date, and a new one is queued exactly if none runs, the key does not cool
  down and the queue has room. Tickets of other keys stay.
\<close>

theorem bind_drops_stale:
  assumes "rid \<noteq> []" and "Manages k e" and "\<not> en_closed e" and "gm_get (en_plans e) k = Some plan"
    and "gm_get (en_records e) k = Some r" and "rc_value r = Some t"
    and "id_Scope (fst answer) = [] \<or> \<not> ticket_fits now answer plan t e"
  shows "let e' = snd (Bind now rid k callerState answer e);
             n = (if en_epoch e < rc_epoch r then rc_epoch r else en_epoch e) + 1
         in live e' k = None \<and> (\<forall>k'. live e' k' = (if k' = k then None else live e k')) \<and>
            fenced e' k (rc_epoch r) \<and>
            en_queue e' = en_queue e @
              (if \<not> rc_running r \<and> rc_cooldown r \<le> now \<and> int (length (en_queue e)) < en_queueCap e
               then [\<lparr>jb_key = k, jb_epoch = n, jb_proxyIndex = - 1\<rparr>] else [])"
proof -
  let ?d = "describe (fst answer) (snd answer)"
  let ?n = "(if en_epoch e < rc_epoch r then rc_epoch r else en_epoch e) + 1"
  let ?e = "drop_ticket k r (bind_touch now rid e)"
  have nofit: "\<not> ticket_fits now ?d plan t e" using assms(7) by (simp add: ticket_fits_describe)
  have live: "live e k = Some t" using assms by (simp add: live_def)
  have B: "snd (Bind now rid k callerState answer e) = enqueueLocked now k ?e"
    using assms nofit by (simp add: Bind_def bind_locked_unfold Let_def)
  have L: "live (snd (Bind now rid k callerState answer e)) k' = (if k' = k then None else live e k')" for k'
    using assms nofit live by (simp add: Bind_def bind_locked_live)
  have touch: "en_epoch (bind_touch now rid e) = en_epoch e" "en_queue (bind_touch now rid e) = en_queue e"
    "en_queueCap (bind_touch now rid e) = en_queueCap e"
    by (simp_all add: bind_touch_def split: option.split)
  have E: "gm_get (en_records ?e) k = Some (r\<lparr>rc_value := None, rc_epoch := ?n\<rparr>)"
      "en_queue ?e = en_queue e" "en_queueCap ?e = en_queueCap e" "en_epoch ?e = ?n"
      "gm_get (en_plans ?e) k = Some plan" "\<not> en_closed ?e"
    using assms by (simp_all add: drop_ticket_def bumpEpochLocked_def put_record_def Let_def touch bind_touch_fields)
  have F: "fenced ?e k (rc_epoch r)" by (auto simp: fenced_def E)
  have "en_queue (enqueueLocked now k ?e) = en_queue e @
          (if \<not> rc_running r \<and> rc_cooldown r \<le> now \<and> int (length (en_queue e)) < en_queueCap e
           then [\<lparr>jb_key = k, jb_epoch = ?n, jb_proxyIndex = - 1\<rparr>] else [])"
    using E by (auto simp: enqueueLocked_def Let_def put_record_def not_less)
  with L quiet_fenced [OF quiet_enqueue F] show ?thesis unfolding B Let_def by simp
qed

theorem bind_drops_stale_witness:
  "live sample_ready k1 = Some sample_ticket \<and>
   live (snd (Bind 7 ''r1'' k1 False (\<lparr>id_Scope = ''s2'', id_Plan = ''plus''\<rparr>, False) sample_ready)) k1 = None \<and>
   en_queue (snd (Bind 7 ''r1'' k1 False (\<lparr>id_Scope = ''s2'', id_Plan = ''plus''\<rparr>, False) sample_ready)) =
     [\<lparr>jb_key = k1, jb_epoch = 1, jb_proxyIndex = - 1\<rparr>]"
proof -
  let ?r = "\<lparr>rc_value = Some sample_ticket, rc_epoch = 0, rc_running = False, rc_cooldown = 0\<rparr>"
  let ?a = "(\<lparr>id_Scope = ''s2'', id_Plan = ''plus''\<rparr>, False)"
  have "Manages k1 sample_ready" "\<not> en_closed sample_ready" "gm_get (en_plans sample_ready) k1 = Some ''pro''"
    "gm_get (en_records sample_ready) k1 = Some ?r" "\<not> ticket_fits 7 ?a ''pro'' sample_ticket sample_ready"
    "live sample_ready k1 = Some sample_ticket" "en_queue sample_ready = []" "en_queueCap sample_ready = 2"
    "en_epoch sample_ready = 0"
    by code_simp+
  with bind_drops_stale [of "''r1''" k1 sample_ready "''pro''" ?r sample_ticket ?a 7 False]
  show ?thesis by (simp add: Let_def)
qed

section \<open>Observed responses\<close>

text \<open>The calls that report a response, as one datatype.\<close>

datatype obs_op = ObsHeaders header | ObsChunk string | ObsJSON string | ObsComplete

fun obs_apply :: "gotime \<Rightarrow> string \<Rightarrow> obs_op \<Rightarrow> Engine \<Rightarrow> Engine" where
  "obs_apply now rid (ObsHeaders h) e = Headers now rid h e"
| "obs_apply now rid (ObsChunk p) e = Chunk now rid p e"
| "obs_apply now rid (ObsJSON p) e = EngineJSON now rid p e"
| "obs_apply now rid ObsComplete e = Complete now rid e"

text \<open>A request is aimed at a key when it is watched and carries the key's present ticket.\<close>

definition aimed :: "string \<Rightarrow> Key \<Rightarrow> Engine \<Rightarrow> bool" where
  "aimed rid k e \<longleftrightarrow>
     (case gm_get (en_requests e) rid of
        None \<Rightarrow> False
      | Some ob \<Rightarrow> ob_observer ob \<noteq> None \<and> ob_key ob = k \<and>
          (case live e k of None \<Rightarrow> False | Some t \<Rightarrow> tk_version t = ob_version ob))"

text \<open>What the headers of a response say against the ticket it was sent with.\<close>

definition bad_header :: "string \<Rightarrow> string \<times> string list \<Rightarrow> bool" where
  "bad_header plan nv \<longleftrightarrow>
     CanonicalHeaderKey (fst nv) = ''X-Codex-Plan-Type'' \<and> list_ex (\<lambda>v. \<not> PlanMatches v plan) (snd nv) \<or>
     CanonicalHeaderKey (fst nv) = StateHeader \<and>
       (1 < length (snd nv) \<or> list_ex (\<lambda>v. length v = 312) (snd nv))"

definition verdict :: "string \<Rightarrow> obs_op \<Rightarrow> Engine \<Rightarrow> bool" where
  "verdict rid op e =
     (case gm_get (en_requests e) rid of
        None \<Rightarrow> False
      | Some ob \<Rightarrow>
          (case op of
             ObsHeaders h \<Rightarrow> list_ex (bad_header (gm_get0 [] (en_plans e) (ob_key ob))) h
           | ObsChunk p \<Rightarrow> (case ob_observer ob of None \<Rightarrow> False | Some w \<Rightarrow> Mismatch (Feed p w))
           | ObsJSON p \<Rightarrow> (case ob_observer ob of None \<Rightarrow> False | Some w \<Rightarrow> Mismatch (JSON p w))
           | ObsComplete \<Rightarrow> (case ob_observer ob of None \<Rightarrow> False | Some w \<Rightarrow> Mismatch (Finish w))))"

definition aims :: "observation \<Rightarrow> Key \<Rightarrow> Engine \<Rightarrow> bool" where
  "aims ob k e \<longleftrightarrow> ob_observer ob \<noteq> None \<and> ob_key ob = k \<and>
     (case live e k of None \<Rightarrow> False | Some t \<Rightarrow> tk_version t = ob_version ob)"

lemma live_enqueue [simp]: "live (enqueueLocked now k e) = live e"
  by (auto simp: enqueueLocked_def live_def put_record_def Let_def fun_eq_iff split: option.split)

lemma live_requests [simp]: "live (e\<lparr>en_requests := q\<rparr>) = live e"
  by (simp add: live_def fun_eq_iff)

lemma plans_enqueue [simp]: "en_plans (enqueueLocked now k e) = en_plans e"
  by (auto simp: enqueueLocked_def put_record_def Let_def split: option.split)

lemma plans_invalidate [simp]: "en_plans (invalidateLocked now ob e) = en_plans e"
  by (auto simp: invalidateLocked_def bumpEpochLocked_def put_record_def Let_def split: option.split)

lemma live_invalidate: "live (invalidateLocked now ob e) k = (if aims ob k e then None else live e k)"
  by (auto simp: invalidateLocked_def aims_def bumpEpochLocked_def put_record_def Let_def
      live_def [of e] live_def [of "e\<lparr>en_epoch := n, en_records := m\<rparr>" for n m] split: option.split)

lemma aims_invalidate: "aims ob k (invalidateLocked now ob e) = False"
  by (simp add: aims_def live_invalidate)

lemma aims_cong: "live e' = live e \<Longrightarrow> aims ob k e' = aims ob k e"
  by (simp add: aims_def)

lemma invalidate_id: "\<not> aims ob (ob_key ob) e \<Longrightarrow> invalidateLocked now ob e = e"
  by (auto simp: invalidateLocked_def aims_def live_def split: option.splits)

lemma invalidate_idem [simp]: "invalidateLocked now ob (invalidateLocked now' ob e) = invalidateLocked now' ob e"
  by (rule invalidate_id) (simp add: aims_invalidate)

text \<open>A list of checks that revoke or not is one revocation or none.\<close>

lemma revoke_foldl:
  assumes "\<And>x e. f e x = (if P (en_plans e) x then invalidateLocked now ob e else e)"
  shows "foldl f e xs = (if list_ex (P (en_plans e)) xs then invalidateLocked now ob e else e)"
  by (induction xs arbitrary: e) (simp_all add: assms)

lemma revoke_values:
  "foldl (\<lambda>e v. if P v then invalidateLocked now ob e else e) e vs =
     (if list_ex P vs then invalidateLocked now ob e else e)"
  by (rule revoke_foldl [where P = "\<lambda>_. P"]) simp

lemma check_header_exact:
  "check_header now ob e nv =
     (if bad_header (gm_get0 [] (en_plans e) (ob_key ob)) nv then invalidateLocked now ob e else e)"
proof -
  obtain name vs where nv: "nv = (name, vs)" by fastforce
  have "foldl (\<lambda>e v. if \<not> PlanMatches v (gm_get0 [] (en_plans e) (ob_key ob))
                    then invalidateLocked now ob e else e) e vs =
      (if list_ex (\<lambda>v. \<not> PlanMatches v (gm_get0 [] (en_plans e) (ob_key ob))) vs
       then invalidateLocked now ob e else e)"
    by (rule revoke_foldl [where P = "\<lambda>p v. \<not> PlanMatches v (gm_get0 [] p (ob_key ob))"]) simp
  moreover have "StateHeader \<noteq> ''X-Codex-Plan-Type''" by (simp add: StateHeader_def)
  ultimately show ?thesis
    by (auto simp: check_header_def bad_header_def nv Let_def revoke_values)
qed

lemma headers_exact:
  "foldl (check_header now ob) e h =
     (if list_ex (bad_header (gm_get0 [] (en_plans e) (ob_key ob))) h then invalidateLocked now ob e else e)"
  by (rule revoke_foldl [where P = "\<lambda>p. bad_header (gm_get0 [] p (ob_key ob))"]) (rule check_header_exact)

lemma live_observe:
  "live (observe now rid f e) k =
     (if aimed rid k e \<and> (case gm_get (en_requests e) rid of None \<Rightarrow> False
        | Some ob \<Rightarrow> (case ob_observer ob of None \<Rightarrow> False | Some w \<Rightarrow> Mismatch (f w)))
      then None else live e k)"
  by (auto simp: observe_def aimed_def Let_def live_invalidate aims_def split: option.split)

text \<open>
  C4. Observation, exactly. A report about a request revokes the ticket of a key if and only
  if the request is still watched, was sent with exactly the ticket the key has now, and the
  report speaks against it: a plan header that names another plan or an unknown one, more than
  one state header, a state of the 312-byte form, or a body that completed with another model.
  Everything else leaves every ticket alone, so an old response cannot revoke a newer ticket.
\<close>

theorem observation_exact:
  "live (obs_apply now rid op e) k = (if aimed rid k e \<and> verdict rid op e then None else live e k)"
proof (cases op)
  case (ObsHeaders h)
  then show ?thesis
    by (auto simp: Headers_def headers_exact live_invalidate aimed_def aims_def verdict_def split: option.split)
next
  case ObsComplete
  then show ?thesis
    by (auto simp: Complete_def Let_def live_observe aimed_def verdict_def split: option.split)
qed (auto simp: Chunk_def EngineJSON_def live_observe verdict_def split: option.split)

text \<open>What a report does to the rest of the engine: at most one revocation, up to the requests.\<close>

lemma obs_apply_revocation:
  assumes "gm_get (en_requests e) rid = Some ob" and "ob_observer ob \<noteq> None" and "verdict rid op e"
  shows "\<exists>ob' q q'. ob_key ob' = ob_key ob \<and> ob_version ob' = ob_version ob \<and> ob_observer ob' \<noteq> None \<and>
    obs_apply now rid op e = invalidateLocked now ob' (e\<lparr>en_requests := q\<rparr>)\<lparr>en_requests := q'\<rparr>"
proof -
  obtain w where w: "ob_observer ob = Some w" using assms by blast
  have req: "en_requests (invalidateLocked now ob' e') = en_requests e'" for ob' e'
    by (auto simp: invalidateLocked_def enqueueLocked_def bumpEpochLocked_def put_record_def Let_def
        split: option.split)
  have same: "invalidateLocked now ob' e' = invalidateLocked now ob' e'\<lparr>en_requests := en_requests e'\<rparr>" for ob' e'
    using req [of ob' e'] by (metis Engine.surjective Engine.update_convs(15))
  show ?thesis
  proof (cases op)
    case (ObsHeaders h)
    with assms have "obs_apply now rid op e = invalidateLocked now ob (e\<lparr>en_requests := en_requests e\<rparr>)"
      by (simp add: Headers_def headers_exact verdict_def)
    with same assms show ?thesis by metis
  next
    case (ObsChunk p)
    with assms w have "obs_apply now rid op e = invalidateLocked now (ob\<lparr>ob_observer := Some (Feed p w)\<rparr>)
        (e\<lparr>en_requests := gm_put rid (ob\<lparr>ob_observer := Some (Feed p w)\<rparr>) (en_requests e)\<rparr>)"
      by (simp add: Chunk_def observe_def verdict_def Let_def)
    with same show ?thesis by (intro exI [where x = "ob\<lparr>ob_observer := Some (Feed p w)\<rparr>"]) (simp, metis)
  next
    case (ObsJSON p)
    with assms w have "obs_apply now rid op e = invalidateLocked now (ob\<lparr>ob_observer := Some (JSON p w)\<rparr>)
        (e\<lparr>en_requests := gm_put rid (ob\<lparr>ob_observer := Some (JSON p w)\<rparr>) (en_requests e)\<rparr>)"
      by (simp add: EngineJSON_def observe_def verdict_def Let_def)
    with same show ?thesis by (intro exI [where x = "ob\<lparr>ob_observer := Some (JSON p w)\<rparr>"]) (simp, metis)
  next
    case ObsComplete
    let ?ob = "ob\<lparr>ob_observer := Some (Finish w)\<rparr>" and ?q = "gm_put rid (ob\<lparr>ob_observer := Some (Finish w)\<rparr>) (en_requests e)"
    have "obs_apply now rid op e = invalidateLocked now ?ob (e\<lparr>en_requests := ?q\<rparr>)\<lparr>en_requests := gm_del rid ?q\<rparr>"
      using ObsComplete assms w by (simp add: Complete_def observe_def verdict_def Let_def req)
    then show ?thesis
      by (intro exI [where x = ?ob] exI [where x = ?q] exI [where x = "gm_del rid ?q"]) simp
  qed
qed

text \<open>
  After a revocation the key is refilled: every acquisition that was running for the old
  ticket is out of date, the cooldown is lifted, and a new job is queued exactly if the engine
  runs, the key still has a plan, none runs for it and the queue has room.
\<close>

theorem revocation_refills:
  assumes "aimed rid k e" and "verdict rid op e" and "gm_get (en_records e) k = Some r" and "0 \<le> now"
  shows "let e' = obs_apply now rid op e;
             n = (if en_epoch e < rc_epoch r then rc_epoch r else en_epoch e) + 1
         in fenced e' k (rc_epoch r) \<and>
            en_queue e' = en_queue e @
              (if \<not> en_closed e \<and> gm_get (en_plans e) k \<noteq> None \<and> \<not> rc_running r \<and>
                  int (length (en_queue e)) < en_queueCap e
               then [\<lparr>jb_key = k, jb_epoch = n, jb_proxyIndex = - 1\<rparr>] else [])"
proof -
  define n where "n = (if en_epoch e < rc_epoch r then rc_epoch r else en_epoch e) + 1"
  have n: "rc_epoch r < n" by (simp add: n_def)
  obtain ob t where ob: "gm_get (en_requests e) rid = Some ob" "ob_observer ob \<noteq> None" "ob_key ob = k"
      and t: "rc_value r = Some t" "tk_version t = ob_version ob"
    using assms by (auto simp: aimed_def live_def split: option.splits)
  from obs_apply_revocation [OF ob(1,2) assms(2)] obtain ob' q q'
    where ob': "ob_key ob' = k" "ob_version ob' = ob_version ob" "ob_observer ob' \<noteq> None"
      and e': "obs_apply now rid op e = invalidateLocked now ob' (e\<lparr>en_requests := q\<rparr>)\<lparr>en_requests := q'\<rparr>"
    using ob by blast
  define r' where "r' = r\<lparr>rc_value := None, rc_epoch := n, rc_cooldown := 0\<rparr>"
  define e1 where "e1 = put_record k r' (e\<lparr>en_requests := q, en_epoch := n\<rparr>)"
  have I: "invalidateLocked now ob' (e\<lparr>en_requests := q\<rparr>) = enqueueLocked now k e1"
    using ob' t assms(3) by (auto simp: invalidateLocked_def bumpEpochLocked_def Let_def e1_def r'_def n_def)
  have E: "gm_get (en_records e1) k = Some r'" "en_queue e1 = en_queue e" "en_queueCap e1 = en_queueCap e"
      "en_plans e1 = en_plans e" "en_closed e1 = en_closed e" "en_epoch e1 = n"
    by (simp_all add: put_record_def e1_def)
  have "fenced e1 k (rc_epoch r)" using n by (simp add: fenced_def E r'_def)
  from quiet_fenced [OF quiet_enqueue this] have "fenced (enqueueLocked now k e1) k (rc_epoch r)" .
  moreover have "en_queue (enqueueLocked now k e1) = en_queue e @
      (if \<not> en_closed e \<and> gm_get (en_plans e) k \<noteq> None \<and> \<not> rc_running r \<and>
          int (length (en_queue e)) < en_queueCap e
       then [\<lparr>jb_key = k, jb_epoch = n, jb_proxyIndex = - 1\<rparr>] else [])"
    using assms(4) by (auto simp: enqueueLocked_def Let_def put_record_def E r'_def)
  ultimately show ?thesis
    unfolding e' I Let_def n_def [symmetric] by (simp add: fenced_def)
qed

definition sample_event_other :: string where
  "sample_event_other = ''{'' @ [CHR 0x22] @ ''object'' @ [CHR 0x22] @ '':'' @ [CHR 0x22] @ ''response'' @ [CHR 0x22] @
     '','' @ [CHR 0x22] @ ''status'' @ [CHR 0x22] @ '':'' @ [CHR 0x22] @ ''completed'' @ [CHR 0x22] @
     '','' @ [CHR 0x22] @ ''model'' @ [CHR 0x22] @ '':'' @ [CHR 0x22] @ ''gpt-5'' @ [CHR 0x22] @ ''}''"

theorem revocation_refills_witness:
  "aimed ''r1'' k1 sample_bound \<and> verdict ''r1'' (ObsJSON sample_event_other) sample_bound \<and>
   en_queue (obs_apply 9 ''r1'' (ObsJSON sample_event_other) sample_bound) =
     [\<lparr>jb_key = k1, jb_epoch = 1, jb_proxyIndex = - 1\<rparr>]"
proof -
  let ?r = "\<lparr>rc_value = Some sample_ticket, rc_epoch = 0, rc_running = False, rc_cooldown = 0\<rparr>"
  have "aimed ''r1'' k1 sample_bound" "verdict ''r1'' (ObsJSON sample_event_other) sample_bound"
    "gm_get (en_records sample_bound) k1 = Some ?r" "\<not> en_closed sample_bound"
    "gm_get (en_plans sample_bound) k1 = Some ''pro''" "en_queue sample_bound = []"
    "en_queueCap sample_bound = 2" "en_epoch sample_bound = 0"
    by code_simp+
  with revocation_refills [of "''r1''" k1 sample_bound "ObsJSON sample_event_other" ?r 9]
  show ?thesis by (simp add: Let_def)
qed

text \<open>
  A request id that is bound while it is already in use loses its watcher for good: no
  report about it, in any number and order, changes anything in the engine any more.
\<close>

definition obs_run :: "string \<Rightarrow> (gotime \<times> obs_op) list \<Rightarrow> Engine \<Rightarrow> Engine" where
  "obs_run rid ops e = foldl (\<lambda>e (now, op). obs_apply now rid op e) e ops"

lemma obs_apply_tombstone:
  "gm_get (en_requests e) rid = Some ob \<Longrightarrow> ob_observer ob = None \<Longrightarrow> obs_apply now rid op e = e"
  by (cases op) (simp_all add: Headers_def headers_exact invalidateLocked_def Chunk_def EngineJSON_def
      observe_def Complete_def)

lemma obs_run_tombstone:
  "gm_get (en_requests e) rid = Some ob \<Longrightarrow> ob_observer ob = None \<Longrightarrow> obs_run rid ops e = e"
  by (induction ops) (auto simp: obs_run_def obs_apply_tombstone)

lemma bind_tombstone:
  assumes "gm_get (en_requests e) rid = Some ob0"
  shows "\<exists>ob. gm_get (en_requests (snd (bind_locked now rid k callerState answer e))) rid = Some ob \<and>
           ob_observer ob = None"
proof -
  have enq: "en_requests (enqueueLocked now k e') = en_requests e'" for e'
    by (auto simp: enqueueLocked_def put_record_def Let_def split: option.split)
  have "gm_get (en_requests (bind_touch now rid e)) rid = Some (ob0\<lparr>ob_observer := None, ob_created := now\<rparr>)"
    using assms by (simp add: bind_touch_def)
  with assms show ?thesis
    by (auto simp: bind_locked_unfold Let_def enq drop_ticket_fields split: option.split)
qed

theorem rebound_is_silent:
  assumes "gm_get (en_requests e) rid \<noteq> None" and "rid \<noteq> []" and "Manages k e"
    and "gm_get (en_plans e) k \<noteq> None"
  shows "obs_run rid ops (snd (Bind now rid k callerState answer e)) = snd (Bind now rid k callerState answer e)"
proof -
  obtain ob0 where ob0: "gm_get (en_requests e) rid = Some ob0" using assms by blast
  have "snd (Bind now rid k callerState answer e) =
      snd (bind_locked now rid k callerState (describe (fst answer) (snd answer)) e)"
    using assms by (auto simp: Bind_def)
  with bind_tombstone [OF ob0] obs_run_tombstone show ?thesis by metis
qed

theorem rebound_is_silent_witness:
  "fst (Bind 8 ''r1'' k1 False sample_answer sample_bound) = (sample_token, True) \<and>
   live (obs_run ''r1'' [(9, ObsJSON sample_event_other), (10, ObsComplete)]
     (snd (Bind 8 ''r1'' k1 False sample_answer sample_bound))) k1 = Some sample_ticket"
proof -
  have "gm_get (en_requests sample_bound) ''r1'' \<noteq> None" "Manages k1 sample_bound"
    "gm_get (en_plans sample_bound) k1 \<noteq> None"
    "fst (Bind 8 ''r1'' k1 False sample_answer sample_bound) = (sample_token, True)"
    "live (snd (Bind 8 ''r1'' k1 False sample_answer sample_bound)) k1 = Some sample_ticket"
    by code_simp+
  then show ?thesis
    using rebound_is_silent [of sample_bound "''r1''" k1 "[(9, ObsJSON sample_event_other), (10, ObsComplete)]"
        8 False sample_answer] by simp
qed

end
