(* ===== verification/Proxy_Spec.thy ===== *)
theory Proxy_Spec
  imports Engine_Spec
begin

text \<open>
  The pool of acquisition proxies: which proxy \<open>chooseProxyLocked\<close> picks, and how
  \<open>markProxy\<close> changes what it picks next.
\<close>

definition pool_wf :: "Engine \<Rightarrow> bool" where
  "pool_wf e \<longleftrightarrow> - 1 \<le> en_goodProxy e \<and> en_goodProxy e < int (length (en_proxies e)) \<and>
     0 \<le> en_nextProxy e \<and> (en_proxies e = [] \<or> en_nextProxy e < int (length (en_proxies e)))"

text \<open>How far proxy \<open>i\<close> is from the next one in the rotation.\<close>

definition distance :: "Engine \<Rightarrow> int \<Rightarrow> int" where
  "distance e i = (i - en_nextProxy e) mod int (length (en_proxies e))"

lemma distance_inverse:
  assumes "0 \<le> i" and "i < int (length (en_proxies e))"
  shows "(en_nextProxy e + distance e i) mod int (length (en_proxies e)) = i"
  using assms by (simp add: distance_def mod_add_right_eq)

lemma distance_range:
  assumes "en_proxies e \<noteq> []"
  shows "0 \<le> distance e i" and "distance e i < int (length (en_proxies e))"
  using assms by (simp_all add: distance_def)

lemma distance_of_step:
  assumes "d < length (en_proxies e)"
  shows "distance e ((en_nextProxy e + int d) mod int (length (en_proxies e))) = int d"
proof -
  have "distance e ((en_nextProxy e + int d) mod int (length (en_proxies e))) =
      (en_nextProxy e + int d - en_nextProxy e) mod int (length (en_proxies e))"
    unfolding distance_def by (rule mod_diff_left_eq)
  with assms show ?thesis by simp
qed

definition rotation :: "Engine \<Rightarrow> int list" where
  "rotation e = map (\<lambda>i. (en_nextProxy e + int i) mod int (length (en_proxies e))) [0..<length (en_proxies e)]"

lemma rotation_complete:
  assumes "0 \<le> i" and "i < int (length (en_proxies e))"
  shows "i \<in> set (rotation e)"
proof -
  have "en_proxies e \<noteq> []" using assms by auto
  from distance_range [OF this, of i] obtain d where d: "distance e i = int d" "d < length (en_proxies e)"
    by (metis nonneg_int_cases of_nat_less_iff)
  with distance_inverse [OF assms] show ?thesis by (force simp: rotation_def)
qed

lemma find_rotation:
  assumes "find P (rotation e) = Some i"
  shows "P i \<and> 0 \<le> i \<and> i < int (length (en_proxies e)) \<and>
    (\<forall>j. 0 \<le> j \<and> j < int (length (en_proxies e)) \<and> P j \<longrightarrow> distance e i \<le> distance e j)"
proof -
  let ?n = "int (length (en_proxies e))"
  from assms obtain d where d: "d < length (en_proxies e)" "P i" "i = (en_nextProxy e + int d) mod ?n"
    and before: "\<forall>d' < d. \<not> P ((en_nextProxy e + int d') mod ?n)"
    by (auto simp: find_Some_iff rotation_def)
  have "distance e i \<le> distance e j" if "0 \<le> j" "j < ?n" "P j" for j
  proof (rule ccontr)
    assume "\<not> distance e i \<le> distance e j"
    then have less: "distance e j < int d" using distance_of_step [OF d(1)] d(3) by simp
    have "en_proxies e \<noteq> []" using d by auto
    from distance_range(1) [OF this, of j] obtain d' where d': "distance e j = int d'"
      by (metis nonneg_int_cases)
    with less before have "\<not> P ((en_nextProxy e + distance e j) mod ?n)" by simp
    with that distance_inverse [of j e] show False by simp
  qed
  moreover have "0 < ?n" using d(1) by linarith
  then have "0 \<le> i" "i < ?n" unfolding d(3) by simp_all
  ultimately show ?thesis using d(2) by simp
qed

lemma choose_unfold:
  assumes "\<not> (en_goodProxy e \<ge> 0 \<and> \<not> cooling now e (en_goodProxy e))"
  shows "chooseProxyLocked now e =
     (let e1 = (if en_goodProxy e \<ge> 0 then e\<lparr>en_goodProxy := - 1\<rparr> else e)
      in case find (\<lambda>i. \<not> cooling now e i) (rotation e) of
           None \<Rightarrow> ((- 1, []), e1)
         | Some i \<Rightarrow> ((i, pn_url (en_proxies e ! nat i)),
                     e1\<lparr>en_nextProxy := (i + 1) mod int (length (en_proxies e))\<rparr>))"
  using assms by (auto simp: chooseProxyLocked_def rotation_def cooling_def Let_def split: option.split)

text \<open>
  The choice of a proxy. The proxy that worked last is kept while it is not cooling down.
  Otherwise the choice is the first proxy of the rotation that is not cooling down, and the
  rotation goes on behind it; no index is returned exactly if all proxies are cooling down. The
  pool stays well formed and the proxies themselves are not touched.
\<close>

theorem choose_proxy:
  assumes "pool_wf e" and "chooseProxyLocked now e = ((i, u), e')"
  shows "(i = - 1 \<longleftrightarrow> (\<forall>j. 0 \<le> j \<and> j < int (length (en_proxies e)) \<longrightarrow> cooling now e j)) \<and>
    (i \<noteq> - 1 \<longrightarrow> 0 \<le> i \<and> i < int (length (en_proxies e)) \<and> \<not> cooling now e i \<and>
       u = pn_url (en_proxies e ! nat i)) \<and>
    (en_goodProxy e \<ge> 0 \<and> \<not> cooling now e (en_goodProxy e) \<longrightarrow> i = en_goodProxy e \<and> e' = e) \<and>
    (i \<noteq> - 1 \<and> i \<noteq> en_goodProxy e \<longrightarrow>
       (\<forall>j. 0 \<le> j \<and> j < int (length (en_proxies e)) \<and> \<not> cooling now e j \<longrightarrow> distance e i \<le> distance e j) \<and>
       en_nextProxy e' = (i + 1) mod int (length (en_proxies e))) \<and>
    pool_wf e' \<and> en_proxies e' = en_proxies e"
proof (cases "en_goodProxy e \<ge> 0 \<and> \<not> cooling now e (en_goodProxy e)")
  case True
  then have "i = en_goodProxy e" "e' = e" "u = pn_url (en_proxies e ! nat i)"
    using assms(2) by (auto simp: chooseProxyLocked_def)
  with True assms(1) show ?thesis by (auto simp: pool_wf_def)
next
  case False
  note choice = assms(2) [unfolded choose_unfold [OF False] Let_def]
  show ?thesis
  proof (cases "find (\<lambda>i. \<not> cooling now e i) (rotation e)")
    case None
    then have "cooling now e j" if "0 \<le> j" "j < int (length (en_proxies e))" for j
      using rotation_complete [OF that] by (auto simp: find_None_iff)
    with None choice False assms(1) show ?thesis by (auto simp: pool_wf_def split: if_splits)
  next
    case (Some i')
    from find_rotation [OF Some] have i': "\<not> cooling now e i'" "0 \<le> i'" "i' < int (length (en_proxies e))"
      and least: "\<forall>j. 0 \<le> j \<and> j < int (length (en_proxies e)) \<and> \<not> cooling now e j \<longrightarrow> distance e i' \<le> distance e j"
      by auto
    have "0 < int (length (en_proxies e))" using i' by linarith
    then have "0 \<le> (i' + 1) mod int (length (en_proxies e))"
      "(i' + 1) mod int (length (en_proxies e)) < int (length (en_proxies e))" by simp_all
    with Some choice False i' least assms(1) show ?thesis by (auto simp: pool_wf_def split: if_splits)
  qed
qed

theorem choose_proxy_witness:
  "fst (chooseProxyLocked 5 sample_engine) = (0, ''socks5h://p:1'') \<and> \<not> cooling 5 sample_engine 0 \<and>
   en_nextProxy (snd (chooseProxyLocked 5 sample_engine)) = 1"
proof -
  have wf: "pool_wf sample_engine" and c: "fst (chooseProxyLocked 5 sample_engine) = (0, ''socks5h://p:1'')"
    and g: "en_goodProxy sample_engine = - 1" "int (length (en_proxies sample_engine)) = 2"
    by code_simp+
  from choose_proxy [OF wf, of 5 0 "''socks5h://p:1''" "snd (chooseProxyLocked 5 sample_engine)"] c g
  show ?thesis by (simp add: prod_eq_iff)
qed

text \<open>
  Back-off. A proxy that failed for the \<open>n\<close>-th time in a row is not chosen before the
  smaller of \<open>n\<close> minutes and the configured cooldown has passed; from then on it is ready
  again. The bound on \<open>n\<close> is where the product of minutes would leave the 64 bits of a
  duration.
\<close>

theorem failed_proxy_backs_off:
  assumes "pool_wf e" and "0 \<le> i" and "i < int (length (en_proxies e))"
    and "n = pn_failures (en_proxies e ! nat i) + 1" and "1 \<le> n" and "n < 153722867"
    and "until = now + min (n * Minute) (seconds (CooldownSeconds (en_cfg e)))"
  shows "(t < until \<longrightarrow> fst (fst (chooseProxyLocked t (markProxy now i False e))) \<noteq> i) \<and>
    (until \<le> t \<longrightarrow> \<not> cooling t (markProxy now i False e) i) \<and> pool_wf (markProxy now i False e)"
proof -
  let ?e = "markProxy now i False e"
  have "int64 (n * Minute) = n * Minute"
    using assms(5,6) by (simp add: int64_def Minute_def Second_def)
  then have cool: "cooling t ?e i \<longleftrightarrow> t < until" for t
    using assms by (auto simp: markProxy_def cooling_def Let_def min_def)
  have wf: "pool_wf ?e" using assms by (auto simp: markProxy_def pool_wf_def Let_def)
  have "fst (fst (chooseProxyLocked t ?e)) \<noteq> i" if "t < until"
  proof (cases "en_goodProxy ?e \<ge> 0 \<and> \<not> cooling t ?e (en_goodProxy ?e)")
    case True
    moreover have "en_goodProxy ?e \<noteq> i" using assms by (auto simp: markProxy_def Let_def)
    ultimately show ?thesis by (simp add: chooseProxyLocked_def Let_def)
  next
    case False
    have "i' \<noteq> i" if "find (\<lambda>i. \<not> cooling t ?e i) (rotation ?e) = Some i'" for i'
      using find_rotation [OF that] cool [of t] \<open>t < until\<close> by auto
    then show ?thesis
      using assms(2) by (auto simp: choose_unfold [OF False] Let_def split: option.split)
  qed
  with cool wf show ?thesis by auto
qed

theorem failed_proxy_backs_off_witness:
  "fst (fst (chooseProxyLocked (59 * Second) (markProxy 0 0 False sample_engine))) \<noteq> 0 \<and>
   \<not> cooling (60 * Second) (markProxy 0 0 False sample_engine) 0"
proof -
  have "pool_wf sample_engine" "0 < int (length (en_proxies sample_engine))"
    "pn_failures (en_proxies sample_engine ! nat 0) = 0" "CooldownSeconds (en_cfg sample_engine) = 600"
    by code_simp+
  with failed_proxy_backs_off [of sample_engine 0 1 "60 * Second" 0 "59 * Second"]
    failed_proxy_backs_off [of sample_engine 0 1 "60 * Second" 0 "60 * Second"]
  show ?thesis by (simp add: seconds_def Minute_def Second_def)
qed

text \<open>
  A proxy that brought a verified ticket is chosen next, at once and at any later time,
  and its count of failures starts over.
\<close>

theorem good_proxy_is_kept:
  assumes "0 \<le> i" and "i < int (length (en_proxies e))" and "0 \<le> t"
  shows "chooseProxyLocked t (markProxy now i True e) =
      ((i, pn_url (en_proxies e ! nat i)), markProxy now i True e) \<and>
    pn_failures (en_proxies (markProxy now i True e) ! nat i) = 0"
proof -
  have "nat i < length (en_proxies e)" using assms by linarith
  then show ?thesis using assms by (simp add: chooseProxyLocked_def markProxy_def cooling_def Let_def)
qed

theorem good_proxy_is_kept_witness:
  "fst (chooseProxyLocked 9 (markProxy 5 1 True sample_engine)) = (1, ''socks5h://q:2'')"
proof -
  have "int (length (en_proxies sample_engine)) = 2" "pn_url (en_proxies sample_engine ! nat 1) = ''socks5h://q:2''"
    by code_simp+
  with good_proxy_is_kept [of 1 sample_engine 9 5] show ?thesis by simp
qed

end
