(* ===== verification/Discovery_Spec.thy ===== *)
theory Discovery_Spec
  imports Engine_Spec
begin

text \<open>
  What a discovery snapshot does to the engine: the plans become exactly those the snapshot
  asks for, tickets of unchanged pairs stay, all other tickets go, and a bad snapshot changes
  nothing.
\<close>

section \<open>Reading a snapshot\<close>

text \<open>The plan a snapshot gives to a pair: a reference definition.\<close>

definition desired_plan :: "Config \<Rightarrow> Account list \<Rightarrow> Key \<Rightarrow> string option" where
  "desired_plan c as k =
     (case find (\<lambda>a. ac_AuthID a = key_AuthID k) as of
        None \<Rightarrow> None
      | Some a \<Rightarrow> if Selected c a \<and> ac_Plan a \<noteq> [] \<and> key_Model k \<in> set (Models c) then Some (ac_Plan a) else None)"

definition chosen :: "Config \<Rightarrow> Account list \<Rightarrow> Key \<Rightarrow> bool" where
  "chosen c as k \<longleftrightarrow> key_Model k \<in> set (Models c) \<and>
     list_ex (\<lambda>a. ac_AuthID a = key_AuthID k \<and> Selected c a) as"

definition snapshot_ok :: "Account list \<Rightarrow> bool" where
  "snapshot_ok as \<longleftrightarrow> distinct (map ac_AuthID as) \<and>
     list_all (\<lambda>a. validAuthID (ac_AuthID a) \<and> ac_Plan a \<in> {[], ''pro'', ''team''}) as"

lemma get_put_models:
  "gm_get (put_models authID v models m) k =
     (if key_AuthID k = authID \<and> key_Model k \<in> set models then Some v else gm_get m k)"
  by (induction models arbitrary: m) (auto simp: put_models_def Key.expand)

lemma wf_put_models: "gm_wf m \<Longrightarrow> gm_wf (put_models authID v models m)"
  by (induction models arbitrary: m) (simp_all add: put_models_def)

text \<open>The accounts read so far, as ids, stand for the part of the snapshot behind.\<close>

lemma read_snapshot_iff:
  "read_snapshot c s as \<noteq> None \<longleftrightarrow> snapshot_ok as \<and> set (map ac_AuthID as) \<inter> set (sv_ids s) = {}"
proof (induction as arbitrary: s)
  case Nil
  then show ?case by (simp add: snapshot_ok_def)
next
  case (Cons a as)
  then show ?case by (auto simp: snapshot_ok_def Let_def)
qed

lemma read_snapshot_desired:
  assumes "read_snapshot c s as = Some s'"
  shows "gm_get (sv_desired s') k =
     (case desired_plan c as k of None \<Rightarrow> gm_get (sv_desired s) k | Some p \<Rightarrow> Some p)"
  using assms
proof (induction as arbitrary: s)
  case Nil
  then show ?case by (simp add: desired_plan_def)
next
  case (Cons a as)
  have "snapshot_ok (a # as)" using read_snapshot_iff [of c s "a # as"] Cons.prems by simp
  then have "ac_AuthID a \<notin> ac_AuthID ` set as" by (simp add: snapshot_ok_def)
  then have "find (\<lambda>b. ac_AuthID b = ac_AuthID a) as = None" unfolding find_None_iff by (metis image_eqI)
  then have fresh: "desired_plan c as k = None" if "key_AuthID k = ac_AuthID a"
    using that by (simp add: desired_plan_def)
  have unfold: "desired_plan c (a # as) k =
      (if ac_AuthID a = key_AuthID k
       then (if Selected c a \<and> ac_Plan a \<noteq> [] \<and> key_Model k \<in> set (Models c) then Some (ac_Plan a) else None)
       else desired_plan c as k)"
    by (simp add: desired_plan_def)
  obtain s1 where s1: "read_snapshot c s1 as = Some s'"
      "gm_get (sv_desired s1) k =
        (if Selected c a \<and> ac_Plan a \<noteq> [] \<and> key_AuthID k = ac_AuthID a \<and> key_Model k \<in> set (Models c)
         then Some (ac_Plan a) else gm_get (sv_desired s) k)"
    using Cons.prems by (auto simp: Let_def get_put_models split: if_splits)
  show ?case
    using Cons.IH [OF s1(1)] s1(2) fresh by (cases "key_AuthID k = ac_AuthID a") (auto simp: unfold split: option.split)
qed

lemma read_snapshot_selected:
  assumes "read_snapshot c s as = Some s'"
  shows "gm_get0 False (sv_selected s') k = (gm_get0 False (sv_selected s) k \<or> chosen c as k)"
  using assms
proof (induction as arbitrary: s)
  case Nil
  then show ?case by (simp add: chosen_def)
next
  case (Cons a as)
  then show ?case
    by (auto simp: Let_def get_put_models gm_get0_def chosen_def split: if_splits option.splits)
qed

lemma read_snapshot_wf:
  "read_snapshot c s as = Some s' \<Longrightarrow> gm_wf (sv_desired s) \<Longrightarrow> gm_wf (sv_desired s')"
  by (induction as arbitrary: s) (auto simp: Let_def wf_put_models split: if_splits)

lemma desired_plan_nonempty: "desired_plan c as k = Some p \<Longrightarrow> p \<noteq> []"
  by (auto simp: desired_plan_def split: option.splits if_splits)

section \<open>The two loops\<close>

lemma withdraw_other:
  "k' \<noteq> k \<Longrightarrow> gm_get (en_plans (fst (withdraw d k (e, c)))) k' = gm_get (en_plans e) k'"
  "k' \<noteq> k \<Longrightarrow> live (fst (withdraw d k (e, c))) k' = live e k'"
  by (auto simp: withdraw_unfold drop_plan_def forget_key_def revoke_def put_record_def bumpEpochLocked_def
      live_def Let_def split: option.split)

lemma withdraw_same:
  "gm_get (en_plans (fst (withdraw d k (e, c)))) k =
     (if gm_get (en_plans e) k = gm_get d k then gm_get (en_plans e) k else None)"
  "live (fst (withdraw d k (e, c))) k =
     (if gm_get (en_plans e) k = gm_get d k \<or> gm_get (en_plans e) k = None then live e k else None)"
  by (auto simp: withdraw_unfold drop_plan_def forget_key_def revoke_def put_record_def bumpEpochLocked_def
      live_def Let_def split: option.split)

lemma fold_withdraw:
  "gm_get (en_plans (fst (fold (withdraw d) ks (e, c)))) k =
     (if k \<in> set ks \<and> gm_get (en_plans e) k \<noteq> gm_get d k then None else gm_get (en_plans e) k) \<and>
   live (fst (fold (withdraw d) ks (e, c))) k =
     (if k \<in> set ks \<and> gm_get (en_plans e) k \<noteq> gm_get d k \<and> gm_get (en_plans e) k \<noteq> None then None else live e k)"
proof (induction ks arbitrary: e c)
  case Nil
  show ?case by simp
next
  case (Cons k' ks)
  obtain e1 c1 where w: "withdraw d k' (e, c) = (e1, c1)" by fastforce
  have plans: "gm_get (en_plans e1) k = (if k = k' \<and> gm_get (en_plans e) k \<noteq> gm_get d k then None
      else gm_get (en_plans e) k)"
    using withdraw_other(1) [of k k' d e c] withdraw_same(1) [of d k' e c] w by (cases "k = k'") simp_all
  have live: "live e1 k = (if k = k' \<and> gm_get (en_plans e) k \<noteq> gm_get d k \<and> gm_get (en_plans e) k \<noteq> None
      then None else live e k)"
    using withdraw_other(2) [of k k' d e c] withdraw_same(2) [of d k' e c] w by (cases "k = k'") simp_all
  show ?case using Cons.IH [of e1 c1] plans live by (auto simp: w split: if_splits)
qed

lemma admit_other:
  "k' \<noteq> k \<Longrightarrow> gm_get (en_plans (fst (admit d k (e, c)))) k' = gm_get (en_plans e) k'"
  "k' \<noteq> k \<Longrightarrow> live (fst (admit d k (e, c))) k' = live e k'"
  by (auto simp: admit_unfold admit_record_def revoke_def put_record_def bumpEpochLocked_def
      live_def Let_def split: option.split)

lemma admit_same:
  assumes "gm_get d k \<noteq> Some []"
  shows "gm_get (en_plans (fst (admit d k (e, c)))) k =
     (case gm_get d k of None \<Rightarrow> gm_get (en_plans e) k | Some p \<Rightarrow> Some p)"
    and "live (fst (admit d k (e, c))) k =
     (if gm_get d k = None \<or> gm_get (en_plans e) k = gm_get d k then live e k else None)"
  using assms live_admit_record [of k e]
  by (auto simp: admit_unfold gm_get0_def live_def split: option.splits)

lemma fold_admit:
  assumes "\<And>k. gm_get d k \<noteq> Some []"
  shows "gm_get (en_plans (fst (fold (admit d) ks (e, c)))) k =
     (if k \<in> set ks \<and> gm_get d k \<noteq> None then gm_get d k else gm_get (en_plans e) k) \<and>
   live (fst (fold (admit d) ks (e, c))) k =
     (if k \<in> set ks \<and> gm_get d k \<noteq> None \<and> gm_get (en_plans e) k \<noteq> gm_get d k then None else live e k)"
proof (induction ks arbitrary: e c)
  case Nil
  show ?case by simp
next
  case (Cons k' ks)
  obtain e1 c1 where w: "admit d k' (e, c) = (e1, c1)" by fastforce
  have plans: "gm_get (en_plans e1) k = (if k = k' \<and> gm_get d k \<noteq> None then gm_get d k
      else gm_get (en_plans e) k)"
    using admit_other(1) [of k k' d e c] admit_same(1) [OF assms, of k' e c] w
    by (cases "k = k'"; cases "gm_get d k'") simp_all
  have live: "live e1 k = (if k = k' \<and> gm_get d k \<noteq> None \<and> gm_get (en_plans e) k \<noteq> gm_get d k
      then None else live e k)"
    using admit_other(2) [of k k' d e c] admit_same(2) [OF assms, of k' e c] w by (cases "k = k'") simp_all
  show ?case using Cons.IH [of e1 c1] plans live by (auto simp: w split: if_splits)
qed

section \<open>The whole snapshot\<close>

lemma own_loop_fields:
  "en_plans (own_loop ks e) = en_plans e" "live (own_loop ks e) = live e" "en_cfg (own_loop ks e) = en_cfg e"
  by (induction ks arbitrary: e) (auto simp: live_def fun_eq_iff Let_def)

lemma read_snapshot_empty:
  assumes "read_snapshot c snapshot_empty as = Some s"
  shows "gm_get (sv_desired s) k = desired_plan c as k"
    and "gm_get0 False (sv_selected s) k = chosen c as k" and "gm_wf (sv_desired s)"
  using read_snapshot_desired [OF assms] read_snapshot_selected [OF assms] read_snapshot_wf [OF assms]
  by (simp_all add: snapshot_empty_def gm_get0_def split: option.split)

lemma applyAccounts_error:
  "fst (applyAccounts ordS ordP ordD as e) = None \<longleftrightarrow> int (length as) \<le> 1000 \<and> snapshot_ok as"
  "fst (applyAccounts ordS ordP ordD as e) \<noteq> None \<Longrightarrow> snd (snd (applyAccounts ordS ordP ordD as e)) = e"
proof -
  have "snapshot_ok as \<longleftrightarrow> read_snapshot (en_cfg e) snapshot_empty as \<noteq> None"
    by (simp only: read_snapshot_iff) (simp add: snapshot_empty_def)
  then show "fst (applyAccounts ordS ordP ordD as e) = None \<longleftrightarrow> int (length as) \<le> 1000 \<and> snapshot_ok as"
    "fst (applyAccounts ordS ordP ordD as e) \<noteq> None \<Longrightarrow> snd (snd (applyAccounts ordS ordP ordD as e)) = e"
    by (auto simp: applyAccounts_def maxAccounts_def case_prod_beta Let_def split: option.splits)
qed

text \<open>
  C29. A snapshot is taken as a whole or not at all: it is refused exactly if it names more
  accounts than allowed, an account twice, a malformed id or an unknown plan, and then the
  engine keeps every plan, ticket and job it has.
\<close>

theorem snapshot_all_or_nothing:
  "(fst (applyAccounts ordS ordP ordD as e) = None \<longleftrightarrow> int (length as) \<le> 1000 \<and> snapshot_ok as) \<and>
   (fst (applyAccounts ordS ordP ordD as e) \<noteq> None \<longrightarrow> snd (snd (applyAccounts ordS ordP ordD as e)) = e)"
  using applyAccounts_error by blast

theorem snapshot_all_or_nothing_witness:
  "let a = \<lparr>ac_Email = [], ac_AuthID = ''u1'', ac_Plan = ''pro'', ac_Models = []\<rparr>
   in snd (snd (applyAccounts [] [] [] [a, a] sample_ready)) = sample_ready"
proof -
  let ?a = "\<lparr>ac_Email = [], ac_AuthID = ''u1'', ac_Plan = ''pro'', ac_Models = []\<rparr>"
  have "\<not> snapshot_ok [?a, ?a]" by (simp add: snapshot_ok_def)
  with snapshot_all_or_nothing [of "[]" "[]" "[]" "[?a, ?a]" sample_ready] show ?thesis by simp
qed

text \<open>
  C9. Synchronisation. After an accepted snapshot the plans of the engine are exactly those the
  snapshot asks for, in whatever order the maps are visited. A pair whose plan is unchanged
  keeps its ticket; every pair that was added, removed or given another plan has none.
\<close>

theorem accounts_synchronised:
  assumes "fst (applyAccounts ordS ordP ordD as e) = None" and "\<not> en_closed e"
    and "\<forall>k. gm_get (en_plans e) k \<noteq> None \<longrightarrow> k \<in> set ordP"
    and "\<forall>k. desired_plan (en_cfg e) as k \<noteq> None \<longrightarrow> k \<in> set ordD"
    and "gm_get (en_plans e) k = None \<longrightarrow> live e k = None"
  shows "let e' = snd (snd (applyAccounts ordS ordP ordD as e)) in
     gm_get (en_plans e') k = desired_plan (en_cfg e) as k \<and>
     live e' k = (if gm_get (en_plans e) k = desired_plan (en_cfg e) as k then live e k else None)"
proof -
  obtain s where s: "read_snapshot (en_cfg e) snapshot_empty as = Some s" "int (length as) \<le> maxAccounts"
    using assms(1) by (auto simp: applyAccounts_def case_prod_beta Let_def split: if_splits option.splits)
  note d = read_snapshot_empty(1) [OF s(1)]
  have ne: "gm_get (sv_desired s) k' \<noteq> Some []" for k'
    using desired_plan_nonempty [of "en_cfg e" as k' "[]"] by (auto simp: d)
  define e0 where "e0 = (if Accounts (en_cfg e) \<noteq> [] \<and> \<not> en_ownsAllModels e then own_loop ordS e else e)"
  have e0: "en_plans e0 = en_plans e" "live e0 = live e" by (simp_all add: e0_def own_loop_fields)
  define p1 where "p1 = fold (withdraw (sv_desired s)) ordP (e0, en_discoveryCount e < 0)"
  define p2 where "p2 = fold (admit (sv_desired s)) ordD p1"
  have result: "snd (snd (applyAccounts ordS ordP ordD as e)) = fst p2\<lparr>en_discoveryCount := sv_eligible s\<rparr>"
    using s assms(2)
    by (simp add: applyAccounts_def apply_locked_def Let_def case_prod_beta e0_def p1_def p2_def)
  have w: "gm_get (en_plans (fst p1)) k =
      (if gm_get (en_plans e) k \<noteq> gm_get (sv_desired s) k then None else gm_get (en_plans e) k)"
    "live (fst p1) k = (if gm_get (en_plans e) k \<noteq> gm_get (sv_desired s) k \<and> gm_get (en_plans e) k \<noteq> None
       then None else live e k)"
    using fold_withdraw [of "sv_desired s" ordP e0 "en_discoveryCount e < 0" k] assms(3)
    by (auto simp: p1_def e0)
  have "k \<in> set ordD \<or> desired_plan (en_cfg e) as k = None" using assms(4) by blast
  then have "gm_get (en_plans (fst p2)) k = gm_get (sv_desired s) k"
    "live (fst p2) k = (if gm_get (en_plans (fst p1)) k \<noteq> gm_get (sv_desired s) k then None else live (fst p1) k)"
    using fold_admit [OF ne, of ordD "fst p1" "snd p1" k] w(1)
    by (cases "desired_plan (en_cfg e) as k"; cases "gm_get (en_plans e) k"; simp add: p2_def d split: if_splits)+
  with w assms(5) show ?thesis by (auto simp: result Let_def d live_def)
qed

text \<open>An engine that discovers its accounts, with one selector by address.\<close>

definition sample_auto_cfg :: Config where
  "sample_auto_cfg = sample_cfg\<lparr>Models := [''gpt-6''],
     Accounts := [\<lparr>ac_Email = ''a@b.c'', ac_AuthID = [], ac_Plan = [], ac_Models = []\<rparr>]\<rparr>"

definition sample_auto :: Engine where
  "sample_auto = projr (New (\<lambda>_. True) sample_auto_cfg (Inr (Proxies sample_cfg)) True True)"

definition sample_account :: "string \<Rightarrow> Account" where
  "sample_account plan = \<lparr>ac_Email = '' A@B.c'', ac_AuthID = ''u1'', ac_Plan = plan, ac_Models = []\<rparr>"

definition sample_found :: Engine where
  "sample_found = snd (snd (applyAccounts [k1] [] [k1] [sample_account ''pro''] sample_auto))"

lemma sample_auto_plans: "en_plans sample_auto = []" "en_records sample_auto = []" by code_simp+

theorem accounts_synchronised_witness:
  "gm_get (en_plans sample_found) k1 = Some ''pro''"
proof -
  have "fst (applyAccounts [k1] [] [k1] [sample_account ''pro''] sample_auto) = None" "\<not> en_closed sample_auto"
    "desired_plan (en_cfg sample_auto) [sample_account ''pro''] k1 = Some ''pro''"
    by code_simp+
  moreover have "k = k1" if "desired_plan (en_cfg sample_auto) [sample_account ''pro''] k = Some p" for k p
  proof -
    have "Models (en_cfg sample_auto) = [''gpt-6'']" by code_simp
    with that have "key_AuthID k = ''u1'' \<and> key_Model k = ''gpt-6''"
      by (auto simp: desired_plan_def sample_account_def split: if_splits)
    then show ?thesis by (cases k) (simp add: k1_def)
  qed
  ultimately show ?thesis
    using accounts_synchronised [of "[k1]" "[]" "[k1]" "[sample_account ''pro'']" sample_auto k1]
    by (auto simp: sample_found_def Let_def sample_auto_plans live_def)
qed

end
