(* ===== verification/Machine.thy ===== *)
theory Machine
  imports Engine_Spec
begin

text \<open>
  The engine at work: the engine's state, its workers, the clock and the calls the host has
  answered. A step is one section of the engine or one reply of the host to a worker, so
  every interleaving of the workers, the scheduler, the request path and the discovery is a
  sequence of steps. The log of host calls is only written, never read; it is what the
  invariants speak about.
\<close>

section \<open>States and steps\<close>

text \<open>A call the host answered: the time, the request, the result, whether it was an error.\<close>

type_synonym call = "gotime \<times> ProbeRequest \<times> ProbeResult \<times> bool"

record Sys =
  sy_engine :: Engine
  sy_workers :: "wpc list"
  sy_now :: gotime
  sy_calls :: "call list"

definition record_call :: "gotime \<Rightarrow> Config \<Rightarrow> wpc \<Rightarrow> input \<Rightarrow> call list" where
  "record_call now c pc inp =
     (case inp of
        IProbe result err \<Rightarrow>
          (case pending_request c pc of None \<Rightarrow> [] | Some rq \<Rightarrow> [(now, rq, result, err)])
      | _ \<Rightarrow> [])"

inductive sys_step :: "Sys \<Rightarrow> Sys \<Rightarrow> bool" where
  step_tick: "sy_now s \<le> t \<Longrightarrow> sys_step s (s\<lparr>sy_now := t\<rparr>)"
| step_worker:
    "i < length (sy_workers s) \<Longrightarrow>
     wstep (sy_now s) inp (sy_workers s ! i) (sy_engine s) = Some (pc', e') \<Longrightarrow>
     sys_step s (s\<lparr>sy_engine := e', sy_workers := (sy_workers s)[i := pc'],
       sy_calls := record_call (sy_now s) (en_cfg (sy_engine s)) (sy_workers s ! i) inp @ sy_calls s\<rparr>)"
| step_schedule: "sys_step s (s\<lparr>sy_engine := schedule_locked (sy_now s) ord (sy_engine s)\<rparr>)"
| step_bind:
    "rid \<noteq> [] \<Longrightarrow>
     sys_step s (s\<lparr>sy_engine := snd (bind_locked (sy_now s) rid k callerState answer (sy_engine s))\<rparr>)"
| step_observe: "sys_step s (s\<lparr>sy_engine := obs_apply (sy_now s) rid op (sy_engine s)\<rparr>)"
| step_refresh_begin: "sys_step s (s\<lparr>sy_engine := snd (refresh_begin (sy_now s) force (sy_engine s))\<rparr>)"
| step_refresh_end: "sys_step s (s\<lparr>sy_engine := refresh_end (sy_now s) ordS ordP ordD accounts (sy_engine s)\<rparr>)"
| step_close: "sys_step s (s\<lparr>sy_engine := Close (sy_engine s)\<rparr>)"

inductive_cases sys_stepE: "sys_step s s'"

text \<open>
  A new engine with the budget of its predecessor, before its workers took a job. The clock is
  not before the zero time.
\<close>

definition sys_init :: "Config \<Rightarrow> Sys \<Rightarrow> bool" where
  "sys_init c s \<longleftrightarrow>
     (\<exists>ip_literal loaded has_host discoverer budget e.
        New ip_literal c loaded has_host discoverer = Inr e \<and>
        sy_engine s = SetBudget budget e) \<and>
     sy_workers s = replicate (nat (Workers (Defaults c))) WFetch \<and> 0 \<le> sy_now s \<and> sy_calls s = []"

section \<open>What a worker holds\<close>

text \<open>The key and the epoch of the job a worker is busy with.\<close>

fun pc_job :: "wpc \<Rightarrow> job option" where
  "pc_job WFetch = None"
| "pc_job WExit = None"
| "pc_job (WStart j) = Some j"
| "pc_job (WLoop j plan n) = Some j"
| "pc_job (WWait j plan n) = Some j"
| "pc_job (WDescribe j plan n) = Some j"
| "pc_job (WChoose j plan n ident) = Some j"
| "pc_job (WCapture a) = Some (at_job a)"
| "pc_job (WReserve a) = Some (at_job a)"
| "pc_job (WProbe a) = Some (at_job a)"
| "pc_job (WRedescribe a candidate) = Some (at_job a)"
| "pc_job (WReserveFormal a candidate fixd) = Some (at_job a)"
| "pc_job (WProbeFormal a candidate fixd) = Some (at_job a)"
| "pc_job (WRecheck a candidate fixd) = Some (at_job a)"
| "pc_job (WPublish a candidate current) = Some (at_job a)"
| "pc_job (WActs j as pc) = Some j"
| "pc_job (WDone j reason) = Some j"

definition pc_key :: "wpc \<Rightarrow> Key option" where
  "pc_key pc = map_option jb_key (pc_job pc)"

text \<open>
  The evidence for a ticket. \<open>harvest_call\<close>: the host answered an acquisition through a proxy,
  sent with no state, for this account and model, with this state, for this scope, completed
  with exactly this model, with a state of the plan's form. \<open>formal_call\<close>: the host answered a
  verification on the account's own route, sent with this state, the same way. \<open>vouched\<close>: a
  verification in the log (newest first) came after an acquisition.
\<close>

definition harvest_call :: "Key \<Rightarrow> string \<Rightarrow> string \<Rightarrow> string \<Rightarrow> gotime \<Rightarrow> call \<Rightarrow> bool" where
  "harvest_call k plan scope state captured call \<longleftrightarrow>
     (case call of (t, rq, rs, err) \<Rightarrow>
        \<not> err \<and> captured \<le> t \<and>
        rq_AuthID rq = key_AuthID k \<and> rq_Model rq = key_Model k \<and> rq_ProxyOverride rq \<noteq> None \<and>
        rq_State rq = [] \<and> rq_ExpectedScope rq = scope \<and>
        rs_Scope rs = scope \<and> rs_State rs = state \<and> SuccessfulProbe rs (key_Model k) \<and>
        PlanMatches (rs_Plan rs) plan \<and> ValidState state plan)"

definition formal_call :: "Key \<Rightarrow> string \<Rightarrow> string \<Rightarrow> string \<Rightarrow> call \<Rightarrow> bool" where
  "formal_call k plan scope state call \<longleftrightarrow>
     (case call of (t, rq, rs, err) \<Rightarrow>
        \<not> err \<and> rq_AuthID rq = key_AuthID k \<and> rq_Model rq = key_Model k \<and> rq_ProxyOverride rq = None \<and>
        rq_State rq = state \<and> rq_ExpectedScope rq = scope \<and>
        rs_Scope rs = scope \<and> SuccessfulProbe rs (key_Model k) \<and>
        PlanMatches (rs_Plan rs) plan \<and> length (rs_State rs) \<noteq> 312)"

fun vouched :: "Key \<Rightarrow> string \<Rightarrow> string \<Rightarrow> string \<Rightarrow> gotime \<Rightarrow> call list \<Rightarrow> bool" where
  "vouched k plan scope state captured [] = False"
| "vouched k plan scope state captured (c # cs) =
     (formal_call k plan scope state c \<and> list_ex (harvest_call k plan scope state captured) cs \<or>
      vouched k plan scope state captured cs)"

lemma vouched_append: "vouched k plan scope state captured cs \<Longrightarrow> vouched k plan scope state captured (new @ cs)"
  by (induction new) simp_all

text \<open>The evidence a worker has gathered at each place.\<close>

fun pc_ok :: "gotime \<Rightarrow> call list \<Rightarrow> wpc \<Rightarrow> bool" where
  "pc_ok now cs (WReserve a) = (at_captured a \<le> now)"
| "pc_ok now cs (WProbe a) = (at_captured a \<le> now)"
| "pc_ok now cs (WRedescribe a candidate) =
     list_ex (harvest_call (jb_key (at_job a)) (at_plan a) (id_Scope (at_id a)) (rs_State candidate) (at_captured a)) cs"
| "pc_ok now cs (WReserveFormal a candidate fixd) =
     list_ex (harvest_call (jb_key (at_job a)) (at_plan a) (id_Scope fixd) (rs_State candidate) (at_captured a)) cs"
| "pc_ok now cs (WProbeFormal a candidate fixd) =
     list_ex (harvest_call (jb_key (at_job a)) (at_plan a) (id_Scope fixd) (rs_State candidate) (at_captured a)) cs"
| "pc_ok now cs (WRecheck a candidate fixd) =
     vouched (jb_key (at_job a)) (at_plan a) (id_Scope fixd) (rs_State candidate) (at_captured a) cs"
| "pc_ok now cs (WPublish a candidate current) =
     vouched (jb_key (at_job a)) (at_plan a) (id_Scope current) (rs_State candidate) (at_captured a) cs"
| "pc_ok now cs (WActs j as pc) = (pc_key pc = Some (jb_key j) \<and> pc_ok now cs pc)"
| "pc_ok now cs _ = True"

lemma pc_ok_mono: "pc_ok now cs pc \<Longrightarrow> now \<le> now' \<Longrightarrow> pc_ok now' (new @ cs) pc"
  by (induction now cs pc rule: pc_ok.induct) (auto intro: vouched_append)

lemma pc_key_simps [simp]:
  "pc_key WFetch = None" "pc_key WExit = None" "pc_key (WStart j) = Some (jb_key j)"
  "pc_key (WLoop j plan n) = Some (jb_key j)" "pc_key (WWait j plan n) = Some (jb_key j)"
  "pc_key (WDescribe j plan n) = Some (jb_key j)" "pc_key (WChoose j plan n ident) = Some (jb_key j)"
  "pc_key (WCapture a) = Some (jb_key (at_job a))" "pc_key (WReserve a) = Some (jb_key (at_job a))"
  "pc_key (WProbe a) = Some (jb_key (at_job a))" "pc_key (WRedescribe a candidate) = Some (jb_key (at_job a))"
  "pc_key (WReserveFormal a candidate fixd) = Some (jb_key (at_job a))"
  "pc_key (WProbeFormal a candidate fixd) = Some (jb_key (at_job a))"
  "pc_key (WRecheck a candidate fixd) = Some (jb_key (at_job a))"
  "pc_key (WPublish a candidate current) = Some (jb_key (at_job a))"
  "pc_key (WActs j as pc) = Some (jb_key j)" "pc_key (WDone j reason) = Some (jb_key j)"
  by (simp_all add: pc_key_def)

lemma acts_key: "pc_key pc = Some (jb_key j) \<Longrightarrow> pc_key (acts j as pc) = Some (jb_key j)"
  by (simp add: acts_def)

lemma acts_ok: "pc_key pc = Some (jb_key j) \<Longrightarrow> pc_ok now cs pc \<Longrightarrow> pc_ok now cs (acts j as pc)"
  by (simp add: acts_def)

lemma next_attempt_key: "pc_key (next_attempt a as) = Some (jb_key (at_job a))"
  by (simp add: next_attempt_def acts_key)

lemma next_attempt_ok: "pc_ok now cs (next_attempt a as)"
  by (simp add: next_attempt_def acts_ok)

lemmas pc_rules = acts_key acts_ok next_attempt_key next_attempt_ok

section \<open>Steps of a worker\<close>

lemma after_harvest_key [simp]: "pc_key (after_harvest a candidate err e) = Some (jb_key (at_job a))"
  by (simp add: after_harvest_def Let_def pc_rules)

lemma after_formal_key [simp]: "pc_key (after_formal a candidate fixd checked err) = Some (jb_key (at_job a))"
  by (simp add: after_formal_def Let_def pc_rules)

lemma after_harvest_budget: "pc_ok now cs (after_harvest a zero_result BudgetError e)"
  by (simp add: after_harvest_def Let_def acts_ok)

lemma after_formal_budget: "pc_ok now cs (after_formal a candidate fixd zero_result BudgetError)"
  by (simp add: after_formal_def Let_def acts_ok)

lemma after_harvest_ok:
  assumes "at_captured a \<le> now"
  shows "pc_ok now ((now, harvest_request c a, result, err) # cs)
    (after_harvest a result (if err then HostError else NoError) e)"
  using assms
  by (auto simp: after_harvest_def Let_def pc_rules harvest_call_def harvest_request_def harvest_ok_def at_model_def)

lemma after_formal_ok:
  assumes "list_ex (harvest_call (jb_key (at_job a)) (at_plan a) (id_Scope fixd) (rs_State candidate)
      (at_captured a)) cs"
  shows "pc_ok now ((now, formal_request c a candidate fixd, result, err) # cs)
    (after_formal a candidate fixd result (if err then HostError else NoError))"
  using assms
  by (auto simp: after_formal_def Let_def pc_rules formal_call_def formal_request_def formal_ok_def at_model_def)

lemma choose_step_frame:
  "choose_step now j plan n ident e = (pc, e') \<Longrightarrow> quiet e e' \<and> pc_key pc = Some (jb_key j) \<and> pc_ok now cs pc"
proof -
  assume step: "choose_step now j plan n ident e = (pc, e')"
  obtain i u e1 where c: "chooseProxyLocked now e = ((i, u), e1)" by (metis prod.exhaust)
  have q: "quiet e e1" using quiet_chooseProxy [of e now] by (simp add: c)
  have "quiet e1 (e1\<lparr>en_lastProxy := p\<rparr>)" for p by (rule quiet_frame) simp_all
  with step q show ?thesis
    by (auto simp: choose_step_def c pc_rules split: if_splits intro: quiet_trans)
qed

lemma describe_step_frame:
  assumes "describe_step ident err pc e = Some pc'" and "pc_ok now cs pc"
  shows "pc_key pc' = pc_key pc \<and> pc_ok now cs pc'"
proof (cases pc)
  case (WDescribe j plan n)
  with assms show ?thesis by (auto simp: describe_step_def describe_def pc_rules split: if_splits)
next
  case (WRedescribe a candidate)
  with assms show ?thesis by (auto simp: describe_step_def describe_def pc_rules split: if_splits)
next
  case (WRecheck a candidate fixd)
  with assms show ?thesis by (auto simp: describe_step_def describe_def pc_rules split: if_splits)
qed (use assms in \<open>simp_all add: describe_step_def\<close>)

lemma probe_step_frame:
  assumes "probe_step result err pc e = Some pc'" and "pc_ok now cs pc"
  shows "pc_key pc' = pc_key pc \<and> pc_ok now (record_call now c pc (IProbe result err) @ cs) pc'"
proof (cases pc)
  case (WProbe a)
  with assms after_harvest_ok show ?thesis
    by (auto simp: probe_step_def record_call_def pending_request_def)
next
  case (WProbeFormal a candidate fixd)
  with assms after_formal_ok show ?thesis
    by (auto simp: probe_step_def record_call_def pending_request_def)
qed (use assms in \<open>simp_all add: probe_step_def\<close>)

lemma cancel_step_frame:
  "cancel_step pc e = Some (pc', e') \<Longrightarrow> e' = e \<and> pc_key pc' = pc_key pc \<and> pc_ok now cs pc'"
  by (cases pc) (auto simp: cancel_step_def split: if_splits)

text \<open>
  A worker step is quiet and keeps the job, or takes a job from the queue, or publishes, or
  ends a job.
\<close>

lemma worker_step:
  assumes "wstep now inp pc e = Some (pc', e')" and "pc_ok now cs pc"
  shows "(quiet e e' \<and> pc_key pc' = pc_key pc) \<or>
    (\<exists>j q. pc = WFetch \<and> pc' = WStart j \<and> en_queue e = j # q \<and> e' = e\<lparr>en_queue := q\<rparr>) \<or>
    (\<exists>a candidate current. pc = WPublish a candidate current \<and> (pc', e') = publish now a candidate current e) \<or>
    (\<exists>j reason. pc = WDone j reason \<and> pc' = WFetch \<and> e' = finish_job now reason j e)"
proof (cases inp)
  case IGo
  with assms have go: "go_step now pc e = Some (pc', e')" by (simp add: wstep_def)
  have res: "quiet e (snd (reserveProbe now e))" by (rule quiet_reserveProbe)
  show ?thesis
  proof (cases pc)
    case (WChoose j plan n ident)
    with go choose_step_frame show ?thesis by (auto simp: go_step_def)
  next
    case (WActs j as pc1)
    with go assms(2) show ?thesis
      by (auto simp: go_step_def pc_rules intro: quiet_do_act split: list.splits)
  qed (use go res in \<open>auto simp: go_step_def split: list.splits option.splits prod.splits if_splits\<close>)
next
  case ICancel
  with assms have "cancel_step pc e = Some (pc', e')" by (simp add: wstep_def)
  from cancel_step_frame [OF this] show ?thesis by simp
next
  case (IDescribe ident err)
  with assms describe_step_frame show ?thesis by (auto simp: wstep_def)
next
  case (IProbe result err)
  with assms probe_step_frame show ?thesis by (auto simp: wstep_def)
qed

lemma worker_step_ok:
  assumes "wstep now inp pc e = Some (pc', e')" and "pc_ok now cs pc"
  shows "pc_ok now (record_call now c pc inp @ cs) pc'"
proof (cases inp)
  case IGo
  with assms have go: "go_step now pc e = Some (pc', e')" by (simp add: wstep_def)
  show ?thesis
  proof (cases pc)
    case (WChoose j plan n ident)
    with go IGo choose_step_frame show ?thesis by (auto simp: go_step_def record_call_def)
  next
    case (WPublish a candidate current)
    with go IGo show ?thesis
      by (auto simp: go_step_def record_call_def publish_def Let_def split: option.splits if_splits)
  qed (use go IGo assms(2) in \<open>auto simp: go_step_def record_call_def pc_rules after_harvest_budget
         after_formal_budget split: list.splits option.splits prod.splits if_splits\<close>)
next
  case ICancel
  with assms cancel_step_frame show ?thesis by (auto simp: wstep_def record_call_def)
next
  case (IDescribe ident err)
  with assms describe_step_frame show ?thesis by (auto simp: wstep_def record_call_def)
next
  case (IProbe result err)
  with assms probe_step_frame show ?thesis by (auto simp: wstep_def)
qed

section \<open>Taking, publishing, ending\<close>

lemma fetch_frame:
  assumes "en_queue e = j # q"
  shows "live (e\<lparr>en_queue := q\<rparr>) = live e" and "fenced (e\<lparr>en_queue := q\<rparr>) = fenced e"
    and "balance (e\<lparr>en_queue := q\<rparr>) k = balance e k - (if jb_key j = k then 1 else 0)"
  using assms by (auto simp: live_def fenced_def balance_def queued_def busy_def fun_eq_iff)

lemma publish_frame:
  assumes "publish now a candidate current e = (pc', e')"
  shows "\<exists>reason. pc' = WDone (at_job a) reason" and "balance e' k = balance e k"
    and "fenced e k n \<longrightarrow> fenced e' k n" and "en_cfg e' = en_cfg e" and "en_plans e' = en_plans e"
    and "en_version e \<le> en_version e'"
    and "live e' k = Some t \<Longrightarrow> live e k = Some t \<or>
      (k = jb_key (at_job a) \<and> gm_get0 [] (en_plans e) k = at_plan a \<and> tk_state t = rs_State candidate \<and>
       tk_scope t = id_Scope current \<and> tk_expires t = at_captured a + seconds (TTLSeconds (en_cfg e)) \<and>
       tk_version t = en_version e + 1 \<and> en_version e' = en_version e + 1)"
proof -
  have *: "(pc' = WDone (at_job a) ''cancelled'' \<and> e' = e) \<or>
      (\<exists>r. gm_get (en_records e) (jb_key (at_job a)) = Some r \<and>
        gm_get0 [] (en_plans e) (jb_key (at_job a)) = at_plan a \<and> pc' = WDone (at_job a) ''ready'' \<and>
        e' = put_record (jb_key (at_job a))
          (r\<lparr>rc_value := Some \<lparr>tk_state = rs_State candidate, tk_scope = id_Scope current,
              tk_version = en_version e + 1, tk_expires = at_captured a + seconds (TTLSeconds (en_cfg e))\<rparr>,
             rc_cooldown := 0\<rparr>)
          (e\<lparr>en_version := en_version e + 1\<rparr>)
          \<lparr>en_lastFailure := gm_put (jb_key (at_job a)) [] (en_lastFailure e)\<rparr>)"
    using assms by (auto simp: publish_def Let_def put_record_def split: option.splits if_splits)
  then show "\<exists>reason. pc' = WDone (at_job a) reason" by blast
  from * show "balance e' k = balance e k"
    by (auto simp: balance_def queued_def busy_def put_record_def split: option.splits if_splits)
  from * show "fenced e k n \<longrightarrow> fenced e' k n" by (auto simp: fenced_def put_record_def split: option.splits if_splits)
  from * show "en_cfg e' = en_cfg e" "en_plans e' = en_plans e" "en_version e \<le> en_version e'"
    by (auto simp: put_record_def)
  from * show "live e' k = Some t \<Longrightarrow> live e k = Some t \<or>
      (k = jb_key (at_job a) \<and> gm_get0 [] (en_plans e) k = at_plan a \<and> tk_state t = rs_State candidate \<and>
       tk_scope t = id_Scope current \<and> tk_expires t = at_captured a + seconds (TTLSeconds (en_cfg e)) \<and>
       tk_version t = en_version e + 1 \<and> en_version e' = en_version e + 1)"
    by (auto simp: live_def put_record_def split: if_splits)
qed

lemma finish_frame:
  shows "live (finish_job now reason j e) k = None \<or> live (finish_job now reason j e) k = live e k"
    and "en_plans (finish_job now reason j e) = en_plans e" and "en_cfg (finish_job now reason j e) = en_cfg e"
    and "en_version (finish_job now reason j e) = en_version e"
    and "fenced e k n \<Longrightarrow> fenced (finish_job now reason j e) k n"
    and "balance (finish_job now reason j e) k =
      (if jb_key j = k then int (queued e k) else balance e k)"
  by (auto simp: finish_job_def Let_def live_def fenced_def balance_def queued_def busy_def put_record_def
      split: option.split)

section \<open>The invariant\<close>

definition flights :: "wpc list \<Rightarrow> Key \<Rightarrow> nat" where
  "flights ws k = length (filter (\<lambda>pc. pc_key pc = Some k) ws)"

lemma flights_update:
  "i < length ws \<Longrightarrow>
   int (flights (ws[i := pc]) k) =
     int (flights ws k) - (if pc_key (ws ! i) = Some k then 1 else 0) + (if pc_key pc = Some k then 1 else 0)"
proof (induction ws arbitrary: i)
  case Nil
  then show ?case by simp
next
  case (Cons w ws)
  show ?case
  proof (cases i)
    case 0
    then show ?thesis by (simp add: flights_def)
  next
    case (Suc n)
    with Cons.IH [of n] Cons.prems show ?thesis by (simp add: flights_def split: if_splits)
  qed
qed

lemma flights_member: "i < length ws \<Longrightarrow> pc_key (ws ! i) = Some k \<Longrightarrow> 1 \<le> flights ws k"
proof -
  assume "i < length ws" "pc_key (ws ! i) = Some k"
  then have "ws ! i \<in> set (filter (\<lambda>pc. pc_key pc = Some k) ws)" by simp
  then show ?thesis unfolding flights_def by (cases "filter (\<lambda>pc. pc_key pc = Some k) ws") auto
qed

definition ticket_ok :: "Engine \<Rightarrow> call list \<Rightarrow> Key \<Rightarrow> ticket \<Rightarrow> bool" where
  "ticket_ok e cs k t \<longleftrightarrow>
     (case gm_get (en_plans e) k of
        None \<Rightarrow> False
      | Some plan \<Rightarrow>
          vouched k plan (tk_scope t) (tk_state t) (tk_expires t - seconds (TTLSeconds (en_cfg e))) cs) \<and>
     tk_version t \<le> en_version e"

definition sys_inv :: "Sys \<Rightarrow> bool" where
  "sys_inv s \<longleftrightarrow>
     (\<forall>k t. live (sy_engine s) k = Some t \<longrightarrow> ticket_ok (sy_engine s) (sy_calls s) k t) \<and>
     (\<forall>pc \<in> set (sy_workers s). pc_ok (sy_now s) (sy_calls s) pc) \<and>
     (\<forall>k. balance (sy_engine s) k + int (flights (sy_workers s) k) = 0)"

lemma sys_invI:
  assumes "\<And>k t. live (sy_engine s) k = Some t \<Longrightarrow> ticket_ok (sy_engine s) (sy_calls s) k t"
    and "\<And>pc. pc \<in> set (sy_workers s) \<Longrightarrow> pc_ok (sy_now s) (sy_calls s) pc"
    and "\<And>k. balance (sy_engine s) k + int (flights (sy_workers s) k) = 0"
  shows "sys_inv s"
  using assms by (simp add: sys_inv_def)

lemma vouched_plan: "vouched k plan scope state captured cs \<Longrightarrow> plan = ''pro'' \<or> plan = ''team''"
proof (induction cs)
  case (Cons c cs)
  then show ?case using ValidState_plan [of state plan] by (auto simp: list_ex_iff harvest_call_def)
qed simp

lemma ticket_ok_quiet:
  assumes "quiet e e'" and "live e' k = Some t" and "live e k = Some t \<Longrightarrow> ticket_ok e cs k t"
  shows "ticket_ok e' (new @ cs) k t"
proof -
  have "live e k = Some t" and plans: "gm_get (en_plans e') k = gm_get (en_plans e) k"
    using quiet_live [OF assms(1,2)] by auto
  with assms(3) have "ticket_ok e cs k t" by simp
  then show ?thesis
    using plans quiet_cfg [OF assms(1)] quiet_version [OF assms(1)] vouched_append
    by (auto simp: ticket_ok_def split: option.splits)
qed

lemma sys_inv_quiet:
  assumes "sys_inv s" and "quiet (sy_engine s) e'"
  shows "sys_inv (s\<lparr>sy_engine := e'\<rparr>)"
  using assms ticket_ok_quiet [OF assms(2), where new = "[]"] quiet_balance [OF assms(2)]
  by (auto simp: sys_inv_def)

lemma quiet_obs_apply: "quiet e (obs_apply now rid op e)"
  by (cases op) (simp_all add: quiet_Headers quiet_Chunk quiet_JSON quiet_Complete)

lemma sys_inv_worker:
  assumes inv: "sys_inv s" and i: "i < length (sy_workers s)"
    and step: "wstep (sy_now s) inp (sy_workers s ! i) (sy_engine s) = Some (pc', e')"
  shows "sys_inv (s\<lparr>sy_engine := e', sy_workers := (sy_workers s)[i := pc'],
    sy_calls := record_call (sy_now s) (en_cfg (sy_engine s)) (sy_workers s ! i) inp @ sy_calls s\<rparr>)"
proof -
  let ?e = "sy_engine s" and ?pc = "sy_workers s ! i"
  let ?new = "record_call (sy_now s) (en_cfg ?e) ?pc inp"
  have ok: "pc_ok (sy_now s) (sy_calls s) ?pc" using inv i by (simp add: sys_inv_def)
  have bal: "balance ?e k + int (flights (sy_workers s) k) = 0" for k using inv by (simp add: sys_inv_def)
  have tickets: "live ?e k = Some t \<Longrightarrow> ticket_ok ?e (sy_calls s) k t" for k t using inv by (simp add: sys_inv_def)
  have same: "ticket_ok e1 (?new @ sy_calls s) k t"
    if "live ?e k = Some t" "en_plans e1 = en_plans ?e" "en_cfg e1 = en_cfg ?e" "en_version ?e \<le> en_version e1" for e1 k t
    using tickets [OF that(1)] that vouched_append by (auto simp: ticket_ok_def split: option.splits)
  have others: "pc \<in> set (sy_workers s) \<Longrightarrow> pc_ok (sy_now s) (?new @ sy_calls s) pc" for pc
    using inv pc_ok_mono [of "sy_now s" "sy_calls s" pc "sy_now s" ?new] by (simp add: sys_inv_def)
  have workers: "pc \<in> set ((sy_workers s)[i := pc']) \<Longrightarrow> pc_ok (sy_now s) (?new @ sy_calls s) pc" for pc
    using worker_step_ok [OF step ok] set_update_subset_insert [of "sy_workers s" i pc'] others by blast
  note fl = flights_update [OF i, of pc']
  from worker_step [OF step ok] consider
      (quiet) "quiet ?e e'" "pc_key pc' = pc_key ?pc"
    | (fetch) j q where "?pc = WFetch" "pc' = WStart j" "en_queue ?e = j # q" "e' = ?e\<lparr>en_queue := q\<rparr>"
    | (publish) a candidate current where "?pc = WPublish a candidate current"
        "publish (sy_now s) a candidate current ?e = (pc', e')"
    | (finish) j reason where "?pc = WDone j reason" "pc' = WFetch" "e' = finish_job (sy_now s) reason j ?e"
    by metis
  then have "(\<forall>k t. live e' k = Some t \<longrightarrow> ticket_ok e' (?new @ sy_calls s) k t) \<and>
      (\<forall>k. balance e' k + int (flights ((sy_workers s)[i := pc']) k) = 0)"
  proof cases
    case quiet
    then show ?thesis
      using bal fl ticket_ok_quiet [OF quiet(1)] tickets by (auto simp: quiet_balance [OF quiet(1)])
  next
    case fetch
    have "live e' = live ?e" "\<And>k. balance e' k = balance ?e k - (if jb_key j = k then 1 else 0)"
      unfolding fetch(4) using fetch_frame [OF fetch(3)] by auto
    then show ?thesis using bal fl fetch same [of _ _ e'] by auto
  next
    case publish
    note p = publish_frame [OF publish(2)]
    have "ticket_ok e' (?new @ sy_calls s) k t" if "live e' k = Some t" for k t
    proof (cases "live ?e k = Some t")
      case True
      then show ?thesis using same p by blast
    next
      case False
      with p(7) [OF that] have t: "k = jb_key (at_job a)" "gm_get0 [] (en_plans ?e) k = at_plan a"
        "tk_state t = rs_State candidate" "tk_scope t = id_Scope current"
        "tk_expires t = at_captured a + seconds (TTLSeconds (en_cfg ?e))" "tk_version t \<le> en_version e'"
        by auto
      have v: "vouched k (at_plan a) (id_Scope current) (rs_State candidate) (at_captured a) (sy_calls s)"
        using ok publish(1) t(1) by simp
      from vouched_plan [OF v] t(2) have "gm_get (en_plans ?e) k = Some (at_plan a)"
        by (auto simp: gm_get0_def split: option.splits)
      with v t show ?thesis by (simp add: ticket_ok_def p(4,5) vouched_append)
    qed
    moreover have "pc_key pc' = pc_key ?pc" using p(1) publish(1) by auto
    ultimately show ?thesis using bal fl p(2) by auto
  next
    case finish
    note f = finish_frame [where now = "sy_now s" and reason = reason and j = j and e = ?e, folded finish(3)]
    have "ticket_ok e' (?new @ sy_calls s) k t" if "live e' k = Some t" for k t
      using same [of k t e'] f(1) [where k = k] f(2-4) that by auto
    moreover have "balance e' k + int (flights ((sy_workers s)[i := pc']) k) = 0" for k
    proof (cases "jb_key j = k")
      case False
      then show ?thesis using bal [of k] fl [of k] f(6) [where k = k] finish(1,2) by simp
    next
      case True
      with flights_member [OF i, of k] finish(1) have "1 \<le> flights (sy_workers s) k" by simp
      then show ?thesis using bal [of k] fl [of k] f(6) [where k = k] finish(1,2) True
        by (simp add: balance_def split: if_splits)
    qed
    ultimately show ?thesis by blast
  qed
  with workers show ?thesis by (intro sys_invI) auto
qed

lemma sys_inv_step:
  assumes inv: "sys_inv s" and step: "sys_step s s'"
  shows "sys_inv s'"
  using step
proof cases
  case (step_tick t)
  have "pc_ok t (sy_calls s) pc" if "pc \<in> set (sy_workers s)" for pc
    using inv that step_tick pc_ok_mono [of "sy_now s" "sy_calls s" pc t "[]"] by (auto simp: sys_inv_def)
  with inv step_tick show ?thesis by (simp add: sys_inv_def)
next
  case (step_worker i inp pc' e')
  then show ?thesis using sys_inv_worker [OF inv] by simp
qed (auto intro!: sys_inv_quiet [OF inv] quiet_schedule quiet_bind_locked quiet_obs_apply
       quiet_refresh_begin quiet_refresh_end quiet_Close)

lemma New_start:
  assumes "New ip_literal c loaded has_host discoverer = Inr e"
  shows "en_queue e = []" and "gm_get (en_records e) k = None \<or> gm_get (en_records e) k = Some zero_record"
    and "en_cfg e = Defaults c"
proof -
  have recs: "gm_get m k \<in> {None, Some zero_record} \<Longrightarrow>
      gm_get (foldl (\<lambda>m kp. gm_put (fst kp) zero_record m) m xs) k \<in> {None, Some zero_record}" for m xs
    by (induction xs arbitrary: m) auto
  show "en_queue e = []" "en_cfg e = Defaults c"
    using assms by (auto simp: New_def Let_def split: if_splits option.splits sum.splits)
  have "en_records e = foldl (\<lambda>m kp. gm_put (fst kp) zero_record m) [] (config_plans (Defaults c))"
    using assms by (auto simp: New_def Let_def split: if_splits option.splits sum.splits)
  with recs [of "[]" "config_plans (Defaults c)"]
  show "gm_get (en_records e) k = None \<or> gm_get (en_records e) k = Some zero_record" by simp
qed

lemma sys_inv_init:
  assumes "sys_init c s"
  shows "sys_inv s"
proof -
  obtain ip_literal loaded has_host discoverer budget e
    where e: "New ip_literal c loaded has_host discoverer = Inr e" "sy_engine s = SetBudget budget e"
      and ws: "sy_workers s = replicate (nat (Workers (Defaults c))) WFetch"
    using assms unfolding sys_init_def by blast
  have view: "live (sy_engine s) k = None" "balance (sy_engine s) k = 0" for k
    using New_start(1) [OF e(1)] New_start(2) [OF e(1), of k]
    by (auto simp: live_def balance_def queued_def busy_def e SetBudget_def zero_record_def)
  show ?thesis by (rule sys_invI) (auto simp: view ws flights_def)
qed

interpretation engine_system: invariant_of "sys_init c" sys_step sys_inv
  by unfold_locales (auto intro: sys_inv_init sys_inv_step)

end
