(* ===== verification/Ownership_Spec.thy ===== *)
theory Ownership_Spec
  imports Discovery_Spec Machine
begin

text \<open>
  Verified-only ownership over the life of an engine. \<open>engine_section\<close> is one locked section of any
  of its goroutines; in an engine that \<open>New\<close> built, whatever sections run, a managed key stays
  managed, and the first account snapshot decides about the keys managed until then.
\<close>

section \<open>Ownership\<close>

definition own_ok :: "Engine \<Rightarrow> bool" where
  "own_ok e \<longleftrightarrow> Accounts (en_cfg e) = [] \<or> en_ownsAllModels e \<or>
     (\<forall>k. gm_get0 [] (en_plans e) k \<noteq> [] \<longrightarrow> gm_get0 False (en_owned e) k)"

definition owns :: "Engine \<Rightarrow> Key \<Rightarrow> bool" where
  "owns e k \<longleftrightarrow> en_ownsAllModels e \<or> gm_get0 False (en_owned e) k"

lemma own_loop_owns:
  "owns e k \<or> k \<in> set ks \<Longrightarrow> owns (own_loop ks e) k"
proof (induction ks arbitrary: e)
  case Nil
  then show ?case by simp
next
  case (Cons k' ks)
  have "owns (e\<lparr>en_owned := gm_put k' True (en_owned e)\<rparr>) k \<or> k \<in> set ks"
    using Cons.prems by (auto simp: owns_def gm_get0_def)
  then show ?case using Cons.IH by (auto simp: owns_def)
qed

lemma own_frame_fold:
  "en_owned (fst (fold (withdraw d) ks ec)) = en_owned (fst ec)"
  "en_ownsAllModels (fst (fold (withdraw d) ks ec)) = en_ownsAllModels (fst ec)"
  "en_cfg (fst (fold (withdraw d) ks ec)) = en_cfg (fst ec)"
  "en_discovery (fst (fold (withdraw d) ks ec)) = en_discovery (fst ec)"
  "en_owned (fst (fold (admit d) ks ec)) = en_owned (fst ec)"
  "en_ownsAllModels (fst (fold (admit d) ks ec)) = en_ownsAllModels (fst ec)"
  "en_cfg (fst (fold (admit d) ks ec)) = en_cfg (fst ec)"
  "en_discovery (fst (fold (admit d) ks ec)) = en_discovery (fst ec)"
proof -
  have w: "en_owned (fst (withdraw d k ec)) = en_owned (fst ec) \<and>
      en_ownsAllModels (fst (withdraw d k ec)) = en_ownsAllModels (fst ec) \<and>
      en_cfg (fst (withdraw d k ec)) = en_cfg (fst ec) \<and> en_discovery (fst (withdraw d k ec)) = en_discovery (fst ec)" for k ec
    by (cases ec) (simp add: withdraw_unfold drop_plan_def forget_key_def revoke_def put_record_def
        bumpEpochLocked_def Let_def split: option.split)
  have a: "en_owned (fst (admit d k ec)) = en_owned (fst ec) \<and>
      en_ownsAllModels (fst (admit d k ec)) = en_ownsAllModels (fst ec) \<and>
      en_cfg (fst (admit d k ec)) = en_cfg (fst ec) \<and> en_discovery (fst (admit d k ec)) = en_discovery (fst ec)" for k ec
    by (cases ec) (simp add: admit_unfold admit_record_def revoke_def put_record_def
        bumpEpochLocked_def Let_def split: option.split)
  show "en_owned (fst (fold (withdraw d) ks ec)) = en_owned (fst ec)"
    "en_ownsAllModels (fst (fold (withdraw d) ks ec)) = en_ownsAllModels (fst ec)"
    "en_cfg (fst (fold (withdraw d) ks ec)) = en_cfg (fst ec)"
    "en_discovery (fst (fold (withdraw d) ks ec)) = en_discovery (fst ec)"
    by (induction ks arbitrary: ec) (simp_all add: w)
  show "en_owned (fst (fold (admit d) ks ec)) = en_owned (fst ec)"
    "en_ownsAllModels (fst (fold (admit d) ks ec)) = en_ownsAllModels (fst ec)"
    "en_cfg (fst (fold (admit d) ks ec)) = en_cfg (fst ec)"
    "en_discovery (fst (fold (admit d) ks ec)) = en_discovery (fst ec)"
    by (induction ks arbitrary: ec) (simp_all add: a)
qed

lemma read_snapshot_eligible:
  "read_snapshot c s as = Some s' \<Longrightarrow> sv_eligible s \<le> sv_eligible s'"
  by (induction as arbitrary: s) (fastforce simp: Let_def split: if_splits)+

lemma desired_chosen: "desired_plan c as k \<noteq> None \<Longrightarrow> chosen c as k"
  by (auto simp: desired_plan_def chosen_def list_ex_iff find_Some_iff split: option.splits if_splits)

lemma Manages_discovered:
  assumes "AutoAccounts (en_cfg e)" and "0 \<le> en_discoveryCount e" and "own_ok e"
  shows "Manages k e \<longleftrightarrow> key_Model k \<in> set (Models (en_cfg e)) \<and>
    (Accounts (en_cfg e) = [] \<or>
     list_ex (\<lambda>s. ac_AuthID s \<noteq> [] \<and> ac_AuthID s = key_AuthID k) (Accounts (en_cfg e)) \<or> owns e k)"
  using assms by (auto simp: Manages_def own_ok_def owns_def)

lemma own_loop_discovery: "en_discovery (own_loop ks e) = en_discovery e"
  by (induction ks arbitrary: e) (auto simp: Let_def)

text \<open>What an accepted snapshot does to the ownership.\<close>

lemma snapshot_ownership:
  assumes "own_ok e" and "fst (applyAccounts ordS ordP ordD as e) = None" and "\<not> en_closed e"
    and "\<forall>k. chosen (en_cfg e) as k \<longrightarrow> k \<in> set ordS"
  defines "e' \<equiv> snd (snd (applyAccounts ordS ordP ordD as e))"
  shows "own_ok e'" "0 \<le> en_discoveryCount e'" "en_cfg e' = en_cfg e" "en_discovery e' = en_discovery e"
    "owns e k \<Longrightarrow> owns e' k" "chosen (en_cfg e) as k \<Longrightarrow> Accounts (en_cfg e) \<noteq> [] \<Longrightarrow> owns e' k"
    "owns e' = owns (if Accounts (en_cfg e) \<noteq> [] \<and> \<not> en_ownsAllModels e then own_loop ordS e else e)"
proof -
  from assms(2) obtain s where s: "read_snapshot (en_cfg e) snapshot_empty as = Some s" "int (length as) \<le> maxAccounts"
    by (auto simp: applyAccounts_def case_prod_beta Let_def split: if_splits option.splits)
  note d = read_snapshot_empty(1) [OF s(1)]
  have ne: "gm_get (sv_desired s) k' \<noteq> Some []" for k'
    using desired_plan_nonempty [of "en_cfg e" as k' "[]"] by (auto simp: d)
  define e0 where "e0 = (if Accounts (en_cfg e) \<noteq> [] \<and> \<not> en_ownsAllModels e then own_loop ordS e else e)"
  have e0: "en_plans e0 = en_plans e" "en_cfg e0 = en_cfg e" "en_discovery e0 = en_discovery e" by (simp_all add: e0_def own_loop_fields own_loop_discovery)
  define p1 where "p1 = fold (withdraw (sv_desired s)) ordP (e0, en_discoveryCount e < 0)"
  define p2 where "p2 = fold (admit (sv_desired s)) ordD p1"
  have result: "e' = fst p2\<lparr>en_discoveryCount := sv_eligible s\<rparr>"
    using s assms(3)
    by (simp add: applyAccounts_def apply_locked_def Let_def case_prod_beta e0_def p1_def p2_def e'_def)
  have frame: "owns e' = owns e0" "en_cfg e' = en_cfg e" "en_discovery e' = en_discovery e"
    "en_ownsAllModels e' = en_ownsAllModels e0"
    by (auto simp: result p1_def p2_def own_frame_fold owns_def e0 fun_eq_iff)
  have count: "0 \<le> en_discoveryCount e'"
    using read_snapshot_eligible [OF s(1)] by (simp add: result snapshot_empty_def)
  have keep: "owns e k' \<Longrightarrow> owns e' k'" for k'
    using own_loop_owns [of e k' ordS] by (simp add: frame e0_def)
  have grow: "chosen (en_cfg e) as k' \<Longrightarrow> Accounts (en_cfg e) \<noteq> [] \<Longrightarrow> owns e' k'" for k'
    using own_loop_owns [of e k' ordS] assms(4) by (auto simp: frame e0_def owns_def)
  have plans: "gm_get (en_plans e') k' \<in> {None, gm_get (en_plans e) k', desired_plan (en_cfg e) as k'}" for k'
    using fold_withdraw [of "sv_desired s" ordP e0 "en_discoveryCount e < 0" k'] fold_admit [OF ne, of ordD "fst p1" "snd p1" k']
    by (auto simp: p1_def p2_def result e0 d split: if_splits)
  have ok: "own_ok e'"
  proof (cases "Accounts (en_cfg e) = []")
    case True
    then show ?thesis by (simp add: own_ok_def frame)
  next
    case False
    have "owns e' k'" if "gm_get0 [] (en_plans e') k' \<noteq> []" for k'
    proof (cases "gm_get (en_plans e') k' = gm_get (en_plans e) k'")
      case True
      with that False assms(1) have "owns e k'" by (auto simp: own_ok_def owns_def gm_get0_def)
      then show ?thesis by (rule keep)
    next
      case False
      with that plans [of k'] have "desired_plan (en_cfg e) as k' \<noteq> None"
        by (cases "desired_plan (en_cfg e) as k'") (auto simp: gm_get0_def)
      with grow \<open>Accounts (en_cfg e) \<noteq> []\<close> desired_chosen show ?thesis by blast
    qed
    then show ?thesis by (auto simp: own_ok_def owns_def)
  qed
  show "own_ok e'" "0 \<le> en_discoveryCount e'" "en_cfg e' = en_cfg e" "en_discovery e' = en_discovery e"
    "owns e k \<Longrightarrow> owns e' k" "chosen (en_cfg e) as k \<Longrightarrow> Accounts (en_cfg e) \<noteq> [] \<Longrightarrow> owns e' k"
    "owns e' = owns (if Accounts (en_cfg e) \<noteq> [] \<and> \<not> en_ownsAllModels e then own_loop ordS e else e)"
    using ok count frame keep grow by (simp_all add: e0_def)
qed

text \<open>A snapshot that is refused, or comes after \<open>Close\<close>, leaves the engine as it is.\<close>

lemma snapshot_ignored:
  "fst (applyAccounts ordS ordP ordD as e) \<noteq> None \<or> en_closed e \<Longrightarrow> snd (snd (applyAccounts ordS ordP ordD as e)) = e"
  by (auto simp: applyAccounts_def apply_locked_def case_prod_beta Let_def split: if_splits option.splits)

text \<open>
  The table of owned keys holds 1000 accounts of 16 models, so the keys of one snapshot fit.
\<close>

lemma card_chosen:
  assumes "length as \<le> 1000" and "length (Models c) \<le> 16"
  shows "finite {k. chosen c as k}" and "card {k. chosen c as k} \<le> 16000"
proof -
  let ?K = "(\<lambda>(a, m). Key a m) ` (ac_AuthID ` set as \<times> set (Models c))"
  have "k \<in> ?K" if "chosen c as k" for k
    using that by (cases k) (force simp: chosen_def list_ex_iff)
  then have sub: "{k. chosen c as k} \<subseteq> ?K" by blast
  then show "finite {k. chosen c as k}" by (rule finite_subset) simp
  have "card ?K \<le> card (ac_AuthID ` set as \<times> set (Models c))" by (rule card_image_le) simp
  also have "\<dots> \<le> 1000 * 16"
    unfolding card_cartesian_product
    by (intro mult_le_mono order_trans [OF card_image_le] order_trans [OF card_length] assms) simp
  finally show "card {k. chosen c as k} \<le> 16000" using card_mono [OF _ sub] by simp
qed

lemma own_loop_fits:
  assumes "gm_wf (en_owned e)" and "fst ` set (en_owned e) \<union> set ks \<subseteq> S" and "finite S" and "card S \<le> 16000"
    and "\<forall>v \<in> snd ` set (en_owned e). v" and "\<not> en_ownsAllModels e"
  shows "\<not> en_ownsAllModels (own_loop ks e) \<and>
    (gm_get0 False (en_owned (own_loop ks e)) k \<longleftrightarrow> gm_get0 False (en_owned e) k \<or> k \<in> set ks)"
  using assms
proof (induction ks arbitrary: e)
  case (Cons a ks)
  have fits: "\<not> (gm_len (en_owned e) \<ge> maxAccounts * maxModels \<and> \<not> gm_get0 False (en_owned e) a)"
  proof
    assume full: "gm_len (en_owned e) \<ge> maxAccounts * maxModels \<and> \<not> gm_get0 False (en_owned e) a"
    then have "a \<notin> fst ` set (en_owned e)"
      using Cons.prems(5) by (auto simp: gm_get0_def gm_get_None [symmetric] dest!: gm_get_in split: option.splits)
    then have "card (fst ` set (en_owned e)) < card S"
      using Cons.prems(2,3) by (intro psubset_card_mono) auto
    moreover have "card (fst ` set (en_owned e)) = length (en_owned e)"
      using Cons.prems(1) by (metis distinct_card gm_wf_def length_map list.set_map)
    ultimately show False
      using full Cons.prems(4) by (simp add: gm_len_def maxAccounts_def maxModels_def)
  qed
  let ?e = "e\<lparr>en_owned := gm_put a True (en_owned e)\<rparr>"
  have "fst ` set (gm_put a True (en_owned e)) \<union> set ks \<subseteq> S" "\<forall>v \<in> snd ` set (gm_put a True (en_owned e)). v"
    using Cons.prems(2,5) by (auto dest!: gm_put_in)
  then have "\<not> en_ownsAllModels (own_loop ks ?e) \<and>
      (gm_get0 False (en_owned (own_loop ks ?e)) k \<longleftrightarrow> gm_get0 False (en_owned ?e) k \<or> k \<in> set ks)"
    using Cons.prems by (intro Cons.IH) simp_all
  then show ?case using fits by (auto simp: gm_get0_def)
qed simp

section \<open>The life of an engine\<close>

text \<open>
  A new engine; and one locked section. A snapshot is only applied by an engine with a discoverer,
  and \<open>range\<close> visits each selected key.
\<close>

definition engine_new :: "Config \<Rightarrow> Engine \<Rightarrow> bool" where
  "engine_new c e \<longleftrightarrow>
     (\<exists>ip_literal loaded has_host discoverer budget delay e0. New ip_literal c loaded has_host discoverer = Inr e0 \<and>
        e = DelayStart delay (SetBudget budget e0))"

inductive engine_section :: "Engine \<Rightarrow> Engine \<Rightarrow> bool" where
  section_worker: "wstep now inp pc e = Some (pc', e') \<Longrightarrow> engine_section e e'"
| section_schedule: "engine_section e (schedule_locked now ord e)"
| section_bind: "engine_section e (snd (bind_locked now rid k callerState answer e))"
| section_observe: "engine_section e (obs_apply now rid op e)"
| section_refresh: "engine_section e (snd (refresh_begin now force e))"
| section_unavailable: "engine_section e (refresh_end now ordS ordP ordD None e)"
| section_snapshot:
    "en_discovery e \<Longrightarrow> set ordS = {k. chosen (en_cfg e) as k} \<Longrightarrow>
     engine_section e (refresh_end now ordS ordP ordD (Some as) e)"
| section_close: "engine_section e (Close e)"

text \<open>What \<open>Manages\<close> reads; only a snapshot changes it.\<close>

definition ownership :: "Engine \<Rightarrow> Config \<times> bool \<times> (Key, string) gomap \<times> int \<times> (Key, bool) gomap \<times> bool" where
  "ownership e = (en_cfg e, en_discovery e, en_plans e, en_discoveryCount e, en_owned e, en_ownsAllModels e)"

lemma ownership_Manages: "ownership e' = ownership e \<Longrightarrow> Manages k e' = Manages k e"
  by (simp add: ownership_def Manages_def)

lemma ownership_enqueue [simp]: "ownership (enqueueLocked now k e) = ownership e"
  by (auto simp: ownership_def enqueueLocked_def put_record_def Let_def split: option.split)

lemma ownership_invalidate [simp]: "ownership (invalidateLocked now ob e) = ownership e"
proof -
  have "ownership (put_record k r (e\<lparr>en_epoch := n\<rparr>)) = ownership e" for k r n
    by (simp add: ownership_def put_record_def)
  then show ?thesis by (auto simp: invalidateLocked_def bumpEpochLocked_def Let_def split: option.split)
qed

lemma ownership_requests [simp]: "ownership (e\<lparr>en_requests := q\<rparr>) = ownership e"
  by (simp add: ownership_def)

lemma ownership_observe [simp]: "ownership (observe now rid f e) = ownership e"
  by (auto simp: observe_def Let_def split: option.split)

lemma ownership_obs: "ownership (obs_apply now rid op e) = ownership e"
  by (cases op) (auto simp: Headers_def headers_exact Chunk_def EngineJSON_def Complete_def Let_def split: option.split)

lemma ownership_bind: "ownership (snd (bind_locked now rid k callerState answer e)) = ownership e"
proof -
  have touch: "ownership (bind_touch now rid e) = ownership e"
    by (simp add: bind_touch_def split: option.split)
  have "ownership (drop_ticket k r e1) = ownership e1" for r e1
    by (simp add: drop_ticket_def bumpEpochLocked_def put_record_def Let_def ownership_def)
  with touch show ?thesis by (auto simp: bind_locked_unfold Let_def split: option.split)
qed

lemma ownership_schedule: "ownership (schedule_locked now ord e) = ownership e"
proof -
  have "ownership (foldl (\<lambda>e k. case gm_get (en_records e) k of None \<Rightarrow> e
      | Some r \<Rightarrow> if needs_refresh now (en_cfg e) r then enqueueLocked now k e else e) e ks) = ownership e" for e ks
    by (induction ks arbitrary: e) (simp_all split: option.split)
  then show ?thesis by (simp add: schedule_locked_def Let_def)
qed

lemma ownership_reserve: "ownership (snd (reserveProbe now e)) = ownership e"
  by (simp add: reserveProbe_def ownership_def split: prod.split)

lemma ownership_choose: "ownership (snd (choose_step now j plan n ident e)) = ownership e"
  by (simp add: choose_step_def chooseProxyLocked_def Let_def ownership_def split: prod.split option.split)

lemma ownership_publish: "ownership (snd (publish now a candidate current e)) = ownership e"
  by (simp add: publish_def Let_def put_record_def ownership_def split: option.split)

lemma ownership_finish: "ownership (finish_job now reason j e) = ownership e"
  by (simp add: finish_job_def Let_def put_record_def ownership_def split: option.split)

lemma ownership_act: "ownership (do_act now j x e) = ownership e"
  by (cases x) (simp_all add: noteFailure_def markProxy_def Let_def ownership_def)

lemma ownership_worker:
  assumes "wstep now inp pc e = Some (pc', e')"
  shows "ownership e' = ownership e"
proof (cases inp)
  case IGo
  with assms have go: "go_step now pc e = Some (pc', e')" by (simp add: wstep_def)
  have queue: "ownership (e\<lparr>en_queue := q\<rparr>) = ownership e" for q by (simp add: ownership_def)
  note parts = queue ownership_finish ownership_act ownership_reserve [of now e]
    ownership_choose [of now _ _ _ _ e] ownership_publish [of now _ _ _ e]
  show ?thesis
    using go parts by (cases pc) (auto simp: go_step_def split: list.splits option.splits prod.splits if_splits
        dest!: arg_cong [where f = snd and y = "(pc', e')"])
qed (use assms in \<open>auto simp: wstep_def cancel_step_def split: if_splits wpc.splits\<close>)

text \<open>
  The invariant: the configuration is the validated one, the discoverer is used exactly in the
  automatic mode, every key with a plan is owned, and nothing is owned before the first snapshot.
\<close>

definition own_inv :: "Config \<Rightarrow> Engine \<Rightarrow> bool" where
  "own_inv c e \<longleftrightarrow> en_cfg e = Defaults c \<and> en_discovery e = AutoAccounts (Defaults c) \<and>
     (AutoAccounts (Defaults c) \<longrightarrow> length (Models (Defaults c)) \<le> 16 \<and> own_ok e \<and>
        (en_discoveryCount e < 0 \<longrightarrow> en_owned e = [] \<and> \<not> en_ownsAllModels e))"

lemma own_inv_ownership: "ownership e' = ownership e \<Longrightarrow> own_inv c e' = own_inv c e"
  by (simp add: own_inv_def own_ok_def ownership_def)

lemma New_own:
  assumes "New ip c loaded h d = Inr e"
  shows "own_inv c e"
proof -
  have cfg: "en_cfg e = Defaults c" "en_discovery e = AutoAccounts (Defaults c)" "en_owned e = []" "\<not> en_ownsAllModels e"
    "en_plans e = foldl (\<lambda>m kp. gm_put (fst kp) (snd kp) m) [] (config_plans (Defaults c))"
    and valid: "Enabled (Defaults c)" "Validate ip (Defaults c) = None"
    using assms by (auto simp: New_def Let_def split: if_splits option.splits sum.splits)
  have "length (Models (Defaults c)) \<le> 16 \<and> en_plans e = []" if auto: "AutoAccounts (Defaults c)"
  proof
    have none: "\<forall>a \<in> set (Accounts (Defaults c)). ac_Plan a = [] \<and> ac_Models a = []"
      using auto by (auto simp: AutoAccounts_def list_ex_iff)
    have "validModels (Models (Defaults c))"
      using valid auto by (auto simp: Validate_def split: if_splits)
    then show "length (Models (Defaults c)) \<le> 16" by (simp add: validModels_iff)
    have "config_plans (Defaults c) = []" using none by (simp add: config_plans_def)
    then show "en_plans e = []" by (simp add: cfg(5))
  qed
  with cfg show ?thesis by (auto simp: own_inv_def own_ok_def gm_get0_def)
qed

lemma section_cases:
  assumes "engine_section e e'"
  obtains "ownership e' = ownership e"
  | ordS ordP ordD as where "en_discovery e" "set ordS = {k. chosen (en_cfg e) as k}"
      "fst (applyAccounts ordS ordP ordD as e) = None" "\<not> en_closed e"
      "ownership e' = ownership (snd (snd (applyAccounts ordS ordP ordD as e)))"
proof -
  have next_only: "ownership (e\<lparr>en_nextDiscovery := t\<rparr>) = ownership e" for e t by (simp add: ownership_def)
  from assms show thesis
  proof cases
    case (section_snapshot ordS as now ordP ordD)
    have e': "ownership e' = ownership (snd (snd (applyAccounts ordS ordP ordD as e)))"
      using section_snapshot(1) next_only by (auto simp: refresh_end_def Let_def case_prod_beta)
    show thesis
      using that section_snapshot(2,3) e' snapshot_ignored by metis
  next
    case section_close
    then show thesis using that(1) by (simp add: Close_def ownership_def)
  qed (use that(1) next_only in \<open>auto simp: ownership_schedule ownership_bind ownership_obs ownership_worker
      refresh_begin_def refresh_end_def\<close>)
qed

lemma own_inv_step:
  assumes inv: "own_inv c e" and step: "engine_section e e'"
  shows "own_inv c e'"
  using step
proof (cases rule: section_cases)
  case 1
  with inv show ?thesis using own_inv_ownership by blast
next
  case (2 ordS ordP ordD as)
  have auto: "AutoAccounts (Defaults c)" and ok: "own_ok e" using inv 2(1) by (simp_all add: own_inv_def)
  note snap = snapshot_ownership [OF ok 2(3,4), unfolded 2(2), simplified]
  have "own_inv c (snd (snd (applyAccounts ordS ordP ordD as e)))"
    using inv snap(1-4) auto by (simp add: own_inv_def)
  with 2(5) show ?thesis using own_inv_ownership by blast
qed

interpretation engine_life: invariant_of "engine_new c" engine_section "own_inv c"
proof
  fix e assume "engine_new c e"
  then obtain ip loaded h d b t e0 where "New ip c loaded h d = Inr e0" "e = DelayStart t (SetBudget b e0)"
    unfolding engine_new_def by blast
  moreover have "ownership (DelayStart t (SetBudget b e0)) = ownership e0"
    by (simp add: ownership_def DelayStart_def SetBudget_def)
  ultimately show "own_inv c e" using New_own own_inv_ownership by metis
qed (rule own_inv_step)

text \<open>One section keeps a managed key, once the first snapshot has been taken.\<close>

lemma section_keeps:
  assumes "own_inv c e" and "engine_section e e'" and "Manages k e"
    and "AutoAccounts (en_cfg e) \<Longrightarrow> 0 \<le> en_discoveryCount e"
  shows "Manages k e'" "AutoAccounts (en_cfg e') \<Longrightarrow> 0 \<le> en_discoveryCount e'"
proof -
  have "Manages k e' \<and> (AutoAccounts (en_cfg e') \<longrightarrow> 0 \<le> en_discoveryCount e')"
    using assms(2)
  proof (cases rule: section_cases)
    case 1
    then have "en_cfg e' = en_cfg e" "en_discoveryCount e' = en_discoveryCount e" by (simp_all add: ownership_def)
    with assms(3,4) show ?thesis using ownership_Manages [OF 1] by simp
  next
    case (2 ordS ordP ordD as)
    let ?e = "snd (snd (applyAccounts ordS ordP ordD as e))"
    have auto: "AutoAccounts (en_cfg e)" and ok: "own_ok e" using assms(1) 2(1) by (auto simp: own_inv_def)
    note snap = snapshot_ownership [OF ok 2(3,4), unfolded 2(2), simplified]
    have "Manages k ?e"
      using assms(3) Manages_discovered [OF auto assms(4) [OF auto] ok, of k]
        Manages_discovered [OF _ snap(2,1), of k] auto snap(3) snap(5) [of k] by auto
    moreover have "0 \<le> en_discoveryCount e'" using 2(5) snap(2) by (simp add: ownership_def)
    ultimately show ?thesis using ownership_Manages [OF 2(5)] by simp
  qed
  then show "Manages k e'" "AutoAccounts (en_cfg e') \<Longrightarrow> 0 \<le> en_discoveryCount e'" by blast+
qed

lemma sections_keep:
  assumes "engine_section\<^sup>*\<^sup>* e e'" and "own_inv c e" and "Manages k e"
    and "AutoAccounts (en_cfg e) \<Longrightarrow> 0 \<le> en_discoveryCount e"
  shows "Manages k e'"
proof -
  have "own_inv c e' \<and> Manages k e' \<and> (AutoAccounts (en_cfg e') \<longrightarrow> 0 \<le> en_discoveryCount e')"
    using assms(1)
  proof (induction rule: rtranclp_induct)
    case (step y z)
    then show ?case using section_keeps [of c y z k] own_inv_step [of c y z] by blast
  qed (use assms in blast)
  then show ?thesis by blast
qed

lemma snapshot_Manages:
  assumes "own_inv c e" and "en_discovery e" and "fst (applyAccounts ordS ordP ordD as e) = None" and "\<not> en_closed e"
    and "set ordS = {k. chosen (en_cfg e) as k}"
  defines "e' \<equiv> snd (snd (applyAccounts ordS ordP ordD as e))"
  shows "chosen (en_cfg e) as k \<Longrightarrow> Manages k e'"
    and "en_discoveryCount e < 0 \<Longrightarrow> Manages k e' \<longleftrightarrow> key_Model k \<in> set (Models (en_cfg e)) \<and>
      (Accounts (en_cfg e) = [] \<or> chosen (en_cfg e) as k \<or>
       (\<exists>s \<in> set (Accounts (en_cfg e)). ac_AuthID s \<noteq> [] \<and> ac_AuthID s = key_AuthID k))"
proof -
  have auto: "AutoAccounts (en_cfg e)" and ok: "own_ok e" using assms(1,2) by (auto simp: own_inv_def)
  note snap = snapshot_ownership [OF ok assms(3,4), folded e'_def, unfolded assms(5), simplified]
  have manages: "Manages k e' \<longleftrightarrow> key_Model k \<in> set (Models (en_cfg e)) \<and>
    (Accounts (en_cfg e) = [] \<or>
     list_ex (\<lambda>s. ac_AuthID s \<noteq> [] \<and> ac_AuthID s = key_AuthID k) (Accounts (en_cfg e)) \<or> owns e' k)"
    using Manages_discovered [OF _ snap(2,1), of k] auto snap(3) by simp
  show "chosen (en_cfg e) as k \<Longrightarrow> Manages k e'"
    unfolding manages using snap(6) [of k] by (auto simp: chosen_def)
  assume first: "en_discoveryCount e < 0"
  have "owns e' k \<longleftrightarrow> chosen (en_cfg e) as k" if "Accounts (en_cfg e) \<noteq> []"
  proof -
    have start: "en_owned e = []" "\<not> en_ownsAllModels e" "length (Models (en_cfg e)) \<le> 16"
      using assms(1) auto first by (auto simp: own_inv_def)
    have "length as \<le> 1000" using assms(3) applyAccounts_error(1) by auto
    from card_chosen [OF this start(3)] have "finite (set ordS)" "card (set ordS) \<le> 16000"
      by (simp_all add: assms(5))
    then have "\<not> en_ownsAllModels (own_loop ordS e) \<and>
        (gm_get0 False (en_owned (own_loop ordS e)) k \<longleftrightarrow> gm_get0 False (en_owned e) k \<or> k \<in> set ordS)"
      using start by (intro own_loop_fits [where S = "set ordS"]) simp_all
    moreover have "owns e' = owns (own_loop ordS e)" using snap(7) that start(2) by simp
    ultimately show ?thesis using start(1) assms(5) by (simp add: owns_def gm_get0_def)
  qed
  then show "Manages k e' \<longleftrightarrow> key_Model k \<in> set (Models (en_cfg e)) \<and>
      (Accounts (en_cfg e) = [] \<or> chosen (en_cfg e) as k \<or>
       (\<exists>s \<in> set (Accounts (en_cfg e)). ac_AuthID s \<noteq> [] \<and> ac_AuthID s = key_AuthID k))"
    unfolding manages by (auto simp: list_ex_iff)
qed

text \<open>
  C10. Verified-only ownership is never given up. Take any engine that \<open>New\<close> built, after any sections
  of its workers, its scheduler, the request path and the discovery. With explicit accounts, or
  once a first snapshot was accepted, a key that is managed stays managed whatever sections follow:
  also when its account is removed or loses its plan, and also when the table of owned keys
  overflows. An accepted snapshot makes every pair it selects managed. The first one decides about
  the keys of the configured models, which were all managed until then: exactly those stay managed
  that it selects, that a selector names by id, or all of them when there is no selector.
\<close>

theorem ownership_is_kept:
  assumes "reach (engine_new c) engine_section e"
  shows "(Manages k e \<and> (AutoAccounts (en_cfg e) \<longrightarrow> 0 \<le> en_discoveryCount e) \<and> engine_section\<^sup>*\<^sup>* e e' \<longrightarrow> Manages k e') \<and>
    (en_discovery e \<and> fst (applyAccounts ordS ordP ordD as e) = None \<and> \<not> en_closed e \<and>
       set ordS = {k. chosen (en_cfg e) as k} \<longrightarrow>
     (let e' = snd (snd (applyAccounts ordS ordP ordD as e)) in
       (chosen (en_cfg e) as k \<longrightarrow> Manages k e') \<and>
       (en_discoveryCount e < 0 \<longrightarrow>
         (Manages k e \<longleftrightarrow> key_Model k \<in> set (Models (en_cfg e))) \<and>
         (Manages k e' \<longleftrightarrow> key_Model k \<in> set (Models (en_cfg e)) \<and>
           (Accounts (en_cfg e) = [] \<or> chosen (en_cfg e) as k \<or>
            (\<exists>s \<in> set (Accounts (en_cfg e)). ac_AuthID s \<noteq> [] \<and> ac_AuthID s = key_AuthID k))))))"
proof -
  have inv: "own_inv c e" using assms by (rule engine_life.inv_reach)
  have "Manages k e \<longleftrightarrow> key_Model k \<in> set (Models (en_cfg e))" if "en_discovery e" "en_discoveryCount e < 0"
    using inv that by (auto simp: own_inv_def Manages_def)
  with sections_keep [OF _ inv, of e' k] snapshot_Manages [OF inv, of ordS ordP ordD as k] show ?thesis
    unfolding Let_def by blast
qed

theorem ownership_is_kept_witness:
  "Manages k1 (snd (snd (applyAccounts [] [k1] [] [] sample_found))) \<and>
   gm_get (en_plans (snd (snd (applyAccounts [] [k1] [] [] sample_found)))) k1 = None \<and>
   Manages (Key ''u2'' ''gpt-6'') sample_auto \<and> \<not> Manages (Key ''u2'' ''gpt-6'') sample_found"
proof -
  let ?as = "[sample_account ''pro'']"
  have c: "en_discovery sample_auto" "\<not> en_closed sample_auto" "en_discoveryCount sample_auto < 0"
    "fst (applyAccounts [k1] [] [k1] ?as sample_auto) = None" "Models (en_cfg sample_auto) = [''gpt-6'']"
    "map ac_AuthID (Accounts (en_cfg sample_auto)) = [[]]" "Accounts (en_cfg sample_auto) \<noteq> []"
    "en_discovery sample_found" "en_discoveryCount sample_found = 1" "Models (en_cfg sample_found) = [''gpt-6'']"
    "en_cfg sample_found = en_cfg sample_auto"
    "gm_get (en_plans (snd (snd (applyAccounts [] [k1] [] [] sample_found)))) k1 = None"
    "Selected (en_cfg sample_auto) (sample_account ''pro'')"
    by code_simp+
  have chosen1: "chosen (en_cfg sample_auto) ?as k \<longleftrightarrow> k = k1" for k
    using c(5,13) by (cases k) (auto simp: chosen_def sample_account_def k1_def)
  have New: "New (\<lambda>_. True) sample_auto_cfg (Inr (Proxies sample_cfg)) True True = Inr sample_auto"
  proof -
    have "isl (New (\<lambda>_. True) sample_auto_cfg (Inr (Proxies sample_cfg)) True True) = False" by code_simp
    then show ?thesis by (cases "New (\<lambda>_. True) sample_auto_cfg (Inr (Proxies sample_cfg)) True True") (simp_all add: sample_auto_def)
  qed
  have "sample_auto = DelayStart (en_startupDelay sample_auto) (SetBudget (en_budget sample_auto) sample_auto)"
    by (simp add: DelayStart_def SetBudget_def)
  with New have "engine_new sample_auto_cfg sample_auto" unfolding engine_new_def by blast
  then have reach: "reach (engine_new sample_auto_cfg) engine_section sample_auto" by (rule reach_init)
  have "refresh_end 0 [k1] [] [k1] (Some ?as) sample_auto = sample_found"
    using c(4) by (simp add: refresh_end_def Let_def case_prod_beta sample_found_def)
  with section_snapshot [OF c(1), of "[k1]" ?as 0 "[]" "[k1]"] chosen1
  have "engine_section sample_auto sample_found" by auto
  with reach have reach': "reach (engine_new sample_auto_cfg) engine_section sample_found" by (rule reach_step)
  have "key_Model k1 = ''gpt-6''" "key_AuthID k1 \<noteq> []" by (simp_all add: k1_def)
  note c = c this
  have first: "Manages k sample_found \<longleftrightarrow> k = k1" "Manages k sample_auto \<longleftrightarrow> key_Model k = ''gpt-6''" for k
    using ownership_is_kept [OF reach, of k _ "[k1]" "[]" "[k1]" ?as] c chosen1
    by (auto simp: Let_def sample_found_def [symmetric])
  have none: "chosen (en_cfg sample_found) [] k = False" for k by (simp add: chosen_def)
  have step: "engine_section sample_found (refresh_end 0 [] [k1] [] (Some []) sample_found)"
    by (rule section_snapshot [OF c(8)]) (simp add: none)
  have "fst (applyAccounts [] [k1] [] [] sample_found) = None"
    using applyAccounts_error(1) by (simp add: snapshot_ok_def)
  then have "refresh_end 0 [] [k1] [] (Some []) sample_found = snd (snd (applyAccounts [] [k1] [] [] sample_found))"
    by (simp add: refresh_end_def Let_def case_prod_beta)
  with step have "engine_section\<^sup>*\<^sup>* sample_found (snd (snd (applyAccounts [] [k1] [] [] sample_found)))" by auto
  with ownership_is_kept [OF reach', of k1] first c(9,12) show ?thesis by (auto simp: k1_def)
qed

end
