(* ===== verification/Machine_Spec.thy ===== *)
theory Machine_Spec
  imports Machine
begin

text \<open>
  What holds in every reachable state of the engine, however its workers, the scheduler, the
  request path, the discovery and the host interleave; and the bound on the work of one job.
\<close>

section \<open>A sample run\<close>

text \<open>Steps of workers only, executable: the worker and its input.\<close>

fun worker_run :: "(nat \<times> input) list \<Rightarrow> Sys \<Rightarrow> Sys option" where
  "worker_run [] s = Some s"
| "worker_run ((i, inp) # rest) s =
     (if i < length (sy_workers s) then
        (case wstep (sy_now s) inp (sy_workers s ! i) (sy_engine s) of
           None \<Rightarrow> None
         | Some (pc', e') \<Rightarrow>
             worker_run rest (s\<lparr>sy_engine := e', sy_workers := (sy_workers s)[i := pc'],
               sy_calls := record_call (sy_now s) (en_cfg (sy_engine s)) (sy_workers s ! i) inp @ sy_calls s\<rparr>))
      else None)"

lemma worker_run_steps:
  "worker_run steps s = Some s' \<Longrightarrow> sys_step\<^sup>*\<^sup>* s s'"
proof (induction steps s rule: worker_run.induct)
  case (2 i inp rest s)
  then obtain pc' e' where i: "i < length (sy_workers s)"
      and w: "wstep (sy_now s) inp (sy_workers s ! i) (sy_engine s) = Some (pc', e')"
      and r: "worker_run rest (s\<lparr>sy_engine := e', sy_workers := (sy_workers s)[i := pc'],
               sy_calls := record_call (sy_now s) (en_cfg (sy_engine s)) (sy_workers s ! i) inp @ sy_calls s\<rparr>) = Some s'"
    by (auto split: if_splits option.splits)
  from step_worker [OF i w] "2.IH" [OF i w refl r] show ?case
    by (rule converse_rtranclp_into_rtranclp)
qed simp

lemma reach_steps: "sys_step\<^sup>*\<^sup>* s s' \<Longrightarrow> reach init sys_step s \<Longrightarrow> reach init sys_step s'"
proof (induction rule: rtranclp_induct)
  case (step t u)
  show ?case by (rule reach_step [where s = t]) (use step in simp_all)
qed

lemma worker_run_reach:
  "reach init sys_step s \<Longrightarrow> worker_run steps s = Some s' \<Longrightarrow> reach init sys_step s'"
  by (rule reach_steps [OF worker_run_steps])

definition sample_sys :: Sys where
  "sample_sys = \<lparr>sy_engine = sample_engine, sy_workers = [WFetch], sy_now = 7, sy_calls = []\<rparr>"

definition sample_scheduled :: Sys where
  "sample_scheduled = sample_sys\<lparr>sy_engine := schedule_locked 7 [k1, k2] sample_engine\<rparr>"

text \<open>A response that completed with the model that was asked for.\<close>

definition sample_body :: string where
  "sample_body = ''{'' @ [CHR 0x22] @ ''object'' @ [CHR 0x22] @ '':'' @ [CHR 0x22] @ ''response'' @ [CHR 0x22] @
     '','' @ [CHR 0x22] @ ''status'' @ [CHR 0x22] @ '':'' @ [CHR 0x22] @ ''completed'' @ [CHR 0x22] @
     '','' @ [CHR 0x22] @ ''model'' @ [CHR 0x22] @ '':'' @ [CHR 0x22] @ ''gpt-6'' @ [CHR 0x22] @ ''}''"

definition sample_result :: ProbeResult where
  "sample_result = \<lparr>rs_Scope = ''s1'', rs_Status = 200, rs_State = sample_token, rs_ActualModel = ''gpt-6'',
     rs_Plan = ''plus'', rs_Body = sample_body\<rparr>"

definition sample_identity :: input where
  "sample_identity = IDescribe \<lparr>id_Scope = ''s1'', id_Plan = ''plus''\<rparr> False"

text \<open>The inputs of one worker that acquires and verifies a ticket at the first attempt.\<close>

definition sample_steps :: "(nat \<times> input) list" where
  "sample_steps =
     map (\<lambda>inp. (0, inp))
       [IGo, IGo, IGo, sample_identity, IGo, IGo, IGo, IProbe sample_result False, sample_identity, IGo,
        IProbe sample_result False, sample_identity, IGo, IGo, IGo]"

definition sample_done :: Sys where
  "sample_done = the (worker_run sample_steps sample_scheduled)"

lemma sample_init: "sys_init sample_cfg sample_sys"
proof -
  have "nat (Workers (Defaults sample_cfg)) = 1" by code_simp
  moreover have "sy_engine sample_sys = SetBudget (en_budget sample_engine) sample_engine"
    by (simp add: sample_sys_def SetBudget_def)
  then have "\<exists>ip_literal loaded has_host discoverer budget e.
      New ip_literal sample_cfg loaded has_host discoverer = Inr e \<and> sy_engine sample_sys = SetBudget budget e"
    using sample_New by blast
  ultimately show ?thesis by (simp add: sys_init_def sample_sys_def)
qed

lemma sample_reach: "reach (sys_init sample_cfg) sys_step sample_scheduled"
proof -
  have "sys_step sample_sys (sample_sys\<lparr>sy_engine := schedule_locked (sy_now sample_sys) [k1, k2] (sy_engine sample_sys)\<rparr>)"
    by (rule step_schedule)
  then have "sys_step sample_sys sample_scheduled" by (simp add: sample_scheduled_def sample_sys_def)
  moreover have "reach (sys_init sample_cfg) sys_step sample_sys" by (rule reach_init) (rule sample_init)
  ultimately show ?thesis by (blast intro: reach_step)
qed

text \<open>The run is evaluated once: it ends, at time 7, in a state that hands out the token.\<close>

lemma sample_outcome:
  "map_option (\<lambda>s. (sy_now s, fst (bind_locked 7 ''r1'' k1 False sample_answer (sy_engine s))))
     (worker_run sample_steps sample_scheduled) = Some (7, sample_token, True)"
  by code_simp

lemma sample_run: "worker_run sample_steps sample_scheduled = Some sample_done"
  using sample_outcome by (auto simp: sample_done_def)

lemma sample_done_reach: "reach (sys_init sample_cfg) sys_step sample_done"
  by (rule worker_run_reach [OF sample_reach sample_run])

lemma sample_done_bind:
  "bind_locked 7 ''r1'' k1 False sample_answer (sy_engine sample_done) =
     ((sample_token, True), snd (bind_locked 7 ''r1'' k1 False sample_answer (sy_engine sample_done)))"
  using sample_outcome by (simp add: sample_run prod_eq_iff)

lemma sample_done_now: "sy_now sample_done = 7"
  using sample_outcome by (simp add: sample_run)

text \<open>A key that hands out a state has a ticket; asked for under another scope, it loses it.\<close>

lemma bind_live:
  assumes "fst (bind_locked now rid k callerState answer e) = (state, True)"
  obtains plan r t where "\<not> en_closed e" "gm_get (en_plans e) k = Some plan" "gm_get (en_records e) k = Some r"
    "rc_value r = Some t" "live e k = Some t" "ticket_fits now answer plan t e" "state = tk_state t"
  using assms by (auto simp: bind_locked_unfold Let_def live_def split: option.splits if_splits)

lemma bind_other_scope:
  assumes "fst (bind_locked now rid k callerState answer e) = (state, True)" and "id_Scope (fst answer') \<noteq> id_Scope (fst answer)"
  shows "live (snd (bind_locked now' rid' k callerState' answer' e)) k = None"
    and "fenced (snd (bind_locked now' rid' k callerState' answer' e)) k 0"
proof -
  from assms(1) obtain plan r t where e: "\<not> en_closed e" "gm_get (en_plans e) k = Some plan" "gm_get (en_records e) k = Some r"
      "rc_value r = Some t" "ticket_fits now answer plan t e"
    by (rule bind_live)
  let ?e = "drop_ticket k r (bind_touch now' rid' e)"
  have snd: "snd (bind_locked now' rid' k callerState' answer' e) = enqueueLocked now' k ?e"
    using e assms(2) by (auto simp: bind_locked_unfold Let_def ticket_fits_def)
  show "live (snd (bind_locked now' rid' k callerState' answer' e)) k = None"
    unfolding snd using quiet_live [OF quiet_enqueue, of now' k ?e k] drop_ticket_fields(1)
    by (metis not_None_eq)
  have "fenced ?e k 0"
    by (simp add: drop_ticket_def bumpEpochLocked_def put_record_def fenced_def Let_def)
  then show "fenced (snd (bind_locked now' rid' k callerState' answer' e)) k 0"
    unfolding snd by (rule quiet_fenced [OF quiet_enqueue])
qed

section \<open>Reachable states\<close>

text \<open>
  C1. Only verified states reach traffic. Whenever a request is given a state, in any
  reachable state of the engine, the key has a plan that the identity reported now matches, and
  the log of host calls holds, for exactly this account, model, scope and state, a successful
  acquisition through a proxy and after it a successful verification on the account's own route
  without a proxy; both completed with exactly this model, the state has the form of the plan,
  and the lifetime counted from before the acquisition has not run out.
\<close>

theorem injected_state_is_verified:
  assumes "reach (sys_init c) sys_step s"
    and "bind_locked (sy_now s) rid k callerState answer (sy_engine s) = ((state, True), e')"
  shows "\<exists>plan captured. gm_get (en_plans (sy_engine s)) k = Some plan \<and>
    vouched k plan (id_Scope (fst answer)) state captured (sy_calls s) \<and>
    identityPlanMatches (sy_engine s) (id_Plan (fst answer)) plan \<and> \<not> snd answer \<and>
    sy_now s < captured + seconds (TTLSeconds (en_cfg (sy_engine s)))"
proof -
  from engine_system.inv_reach [OF assms(1)] have inv: "sys_inv s" .
  from assms(2) obtain plan t where t: "gm_get (en_plans (sy_engine s)) k = Some plan"
      "live (sy_engine s) k = Some t" "ticket_fits (sy_now s) answer plan t (sy_engine s)" "state = tk_state t"
    by (auto simp: bind_locked_unfold Let_def live_def split: option.splits if_splits)
  with inv have "ticket_ok (sy_engine s) (sy_calls s) k t" by (simp add: sys_inv_def)
  with t show ?thesis
    by (intro exI [where x = plan] exI [where x = "tk_expires t - seconds (TTLSeconds (en_cfg (sy_engine s)))"])
      (auto simp: ticket_ok_def ticket_fits_def)
qed

theorem injected_state_is_verified_witness:
  "\<exists>plan captured. gm_get (en_plans (sy_engine sample_done)) k1 = Some plan \<and>
     vouched k1 plan ''s1'' sample_token captured (sy_calls sample_done)"
  using injected_state_is_verified [OF sample_done_reach, unfolded sample_done_now, OF sample_done_bind]
  by (auto simp: sample_answer_def)

text \<open>
  C5. Single flight. In every reachable state a key has at most one job, queued or held by a
  worker, and it has one exactly if its record is marked as running.
\<close>

theorem single_flight:
  assumes "reach (sys_init c) sys_step s"
  shows "queued (sy_engine s) k + flights (sy_workers s) k = (if busy (sy_engine s) k then 1 else 0)"
proof -
  from engine_system.inv_reach [OF assms] have "balance (sy_engine s) k + int (flights (sy_workers s) k) = 0"
    by (simp add: sys_inv_def)
  then show ?thesis by (simp add: balance_def split: if_splits)
qed

theorem single_flight_witness:
  "queued (sy_engine sample_scheduled) k1 = 1 \<and> flights (sy_workers sample_scheduled) k1 = 0 \<and>
   busy (sy_engine sample_scheduled) k1"
proof -
  have "queued (sy_engine sample_scheduled) k1 = 1" by code_simp
  with single_flight [OF sample_reach, of k1] show ?thesis by (simp split: if_splits)
qed

section \<open>Steps of the whole system\<close>

lemma sys_step_cases:
  assumes "sys_step s s'" and "sys_inv s"
  shows "quiet (sy_engine s) (sy_engine s') \<or>
    (\<exists>j q. en_queue (sy_engine s) = j # q \<and> sy_engine s' = sy_engine s\<lparr>en_queue := q\<rparr>) \<or>
    (\<exists>pc a candidate current. publish (sy_now s) a candidate current (sy_engine s) = (pc, sy_engine s')) \<or>
    (\<exists>j reason. sy_engine s' = finish_job (sy_now s) reason j (sy_engine s))"
  using assms(1)
proof cases
  case (step_worker i inp pc' e')
  have "pc_ok (sy_now s) (sy_calls s) (sy_workers s ! i)" using assms(2) step_worker by (simp add: sys_inv_def)
  from worker_step [OF step_worker(3) this] show ?thesis using step_worker(1) by simp metis
qed (auto intro: quiet_schedule quiet_bind_locked quiet_obs_apply quiet_refresh_begin quiet_refresh_end quiet_Close)

lemma steps_inv: "sys_step\<^sup>*\<^sup>* s s' \<Longrightarrow> sys_inv s \<Longrightarrow> sys_inv s'"
  by (induction rule: rtranclp_induct) (auto intro: sys_inv_step)

lemma fenced_step:
  assumes "sys_inv s" and "sys_step s s'" and "fenced (sy_engine s) k n"
  shows "fenced (sy_engine s') k n"
  using sys_step_cases [OF assms(2,1)] assms(3)
  by (auto intro: quiet_fenced finish_frame(5) simp: fetch_frame(2) dest: publish_frame(3) [THEN mp])

text \<open>
  C6. The epoch fence. Once the acquisitions of an epoch of a key are out of date, because its
  ticket was revoked, expired, or its plan was withdrawn or changed, they stay so in every
  later state, across removal and return of the account, and such an acquisition can no longer
  publish a ticket, whatever it has verified.
\<close>

theorem outdated_job_never_publishes:
  assumes "reach (sys_init c) sys_step s" and "fenced (sy_engine s) k n" and "sys_step\<^sup>*\<^sup>* s s'"
    and "jb_key (at_job a) = k" and "jb_epoch (at_job a) = n"
  shows "fenced (sy_engine s') k n \<and>
    publish now a candidate current (sy_engine s') = (WDone (at_job a) ''cancelled'', sy_engine s')"
proof -
  from engine_system.inv_reach [OF assms(1)] have inv: "sys_inv s" .
  from assms(3) have f: "fenced (sy_engine s') k n"
    by (induction rule: rtranclp_induct) (use assms(2) inv steps_inv fenced_step in \<open>blast+\<close>)
  then have "\<not> (\<exists>r. gm_get (en_records (sy_engine s')) k = Some r \<and> rc_epoch r = n)"
    by (auto simp: fenced_def)
  with f assms(4,5) show ?thesis by (auto simp: publish_def Let_def split: option.split)
qed

text \<open>The sample run again, after the account moved to another scope.\<close>

definition sample_moved :: Sys where
  "sample_moved = sample_done\<lparr>sy_engine :=
     snd (bind_locked 7 ''r1'' k1 False (\<lparr>id_Scope = ''s2'', id_Plan = ''plus''\<rparr>, False) (sy_engine sample_done))\<rparr>"

definition sample_attempt :: attempt where
  "sample_attempt = \<lparr>at_job = \<lparr>jb_key = k1, jb_epoch = 0, jb_proxyIndex = 0\<rparr>, at_plan = ''pro'', at_no = 0,
     at_id = \<lparr>id_Scope = ''s1'', id_Plan = ''plus''\<rparr>, at_proxyIndex = 0, at_proxy = ''socks5h://p:1'', at_captured = 7\<rparr>"

lemma sample_moved_reach: "reach (sys_init sample_cfg) sys_step sample_moved"
proof -
  have "sys_step sample_done sample_moved"
    using step_bind [of "''r1''" sample_done k1 False "(\<lparr>id_Scope = ''s2'', id_Plan = ''plus''\<rparr>, False)"]
    by (simp add: sample_moved_def sample_done_now)
  then show ?thesis using sample_done_reach by (blast intro: reach_step)
qed

theorem outdated_job_never_publishes_witness:
  "live (sy_engine sample_moved) k1 = None \<and>
   publish 8 sample_attempt sample_result \<lparr>id_Scope = ''s1'', id_Plan = ''plus''\<rparr> (sy_engine sample_moved) =
     (WDone (at_job sample_attempt) ''cancelled'', sy_engine sample_moved)"
proof -
  have "fst (bind_locked 7 ''r1'' k1 False sample_answer (sy_engine sample_done)) = (sample_token, True)"
    by (subst sample_done_bind) simp
  then have "fenced (sy_engine sample_moved) k1 0" "live (sy_engine sample_moved) k1 = None"
    unfolding sample_moved_def by (auto intro: bind_other_scope simp: sample_answer_def)
  with outdated_job_never_publishes [OF sample_moved_reach, of k1 0 sample_moved sample_attempt 8 sample_result
      "\<lparr>id_Scope = ''s1'', id_Plan = ''plus''\<rparr>"]
  show ?thesis by (simp add: sample_attempt_def)
qed

section \<open>Closing\<close>

lemma closed_step:
  assumes "sys_inv s" and "sys_step s s'" and "en_closed (sy_engine s)"
  shows "en_closed (sy_engine s')" and "live (sy_engine s') k = Some t \<Longrightarrow> live (sy_engine s) k = Some t"
proof -
  have pub: "publish now a candidate current e = (pc, e') \<Longrightarrow> en_closed e \<Longrightarrow> e' = e" for now a candidate current e pc e'
    by (auto simp: publish_def Let_def split: option.splits)
  have fin: "en_closed (finish_job now reason j e) = en_closed e" for now reason j e
    by (simp add: finish_job_def Let_def put_record_def split: option.split)
  show "en_closed (sy_engine s')"
    using sys_step_cases [OF assms(2,1)] assms(3) by (auto simp: fin dest: quiet_closed pub)
  show "live (sy_engine s) k = Some t" if "live (sy_engine s') k = Some t"
    using sys_step_cases [OF assms(2,1)] assms(3) that finish_frame(1)
    by (auto simp: fetch_frame(1) dest: quiet_live pub) (metis finish_frame(1) option.distinct(1))
qed

text \<open>
  C17. Closing is final. From any state in which the engine is closed, and whatever its workers
  still finish, it stays closed, no key gains a ticket, no request is given a state and no
  further probe is admitted.
\<close>

theorem close_is_final:
  assumes "reach (sys_init c) sys_step s" and "en_closed (sy_engine s)" and "sys_step\<^sup>*\<^sup>* s s'"
  shows "en_closed (sy_engine s') \<and>
    (\<forall>k t. live (sy_engine s') k = Some t \<longrightarrow> live (sy_engine s) k = Some t) \<and>
    fst (bind_locked now rid k callerState answer (sy_engine s')) = ([], False) \<and>
    reserveProbe now (sy_engine s') = (False, sy_engine s')"
proof -
  from engine_system.inv_reach [OF assms(1)] have inv: "sys_inv s" .
  from assms(3) have main: "en_closed (sy_engine s') \<and>
      (\<forall>k t. live (sy_engine s') k = Some t \<longrightarrow> live (sy_engine s) k = Some t)"
  proof (induction rule: rtranclp_induct)
    case base
    then show ?case using assms(2) by simp
  next
    case (step t u)
    then show ?case using closed_step [OF steps_inv [OF step(1) inv] step(2)] by blast
  qed
  then show ?thesis by (simp add: bind_locked_unfold Let_def reserveProbe_def)
qed

theorem close_is_final_witness:
  "live (sy_engine sample_done) k1 \<noteq> None \<and>
   fst (bind_locked 8 ''r2'' k1 False sample_answer (Close (sy_engine sample_done))) = ([], False)"
proof -
  let ?s = "sample_done\<lparr>sy_engine := Close (sy_engine sample_done)\<rparr>"
  have "sys_step sample_done ?s" by (rule step_close)
  then have "reach (sys_init sample_cfg) sys_step ?s" using sample_done_reach by (blast intro: reach_step)
  moreover have "live (sy_engine sample_done) k1 \<noteq> None"
    by (rule bind_live [of 7 "''r1''" k1 False sample_answer "sy_engine sample_done" sample_token])
      (subst sample_done_bind, simp_all)
  ultimately show ?thesis
    using close_is_final [of sample_cfg ?s ?s 8 "''r2''" k1 False sample_answer] by (simp add: Close_def)
qed

end
