(* ===== verification/Work.thy ===== *)
theory Work
  imports Machine
begin

text \<open>
  The work of one job: \<open>collect\<close> ends after a bounded number of steps and sends a bounded
  number of probes, whatever the host answers and whatever the rest of the engine does.
\<close>

section \<open>A measure\<close>

text \<open>
  A measure for the place a worker is at, and the probes it may still send. \<open>pc_fine\<close> holds of
  every place that can be reached from the start of a job.
\<close>

fun pc_fine :: "Config \<Rightarrow> wpc \<Rightarrow> bool" where
  "pc_fine c (WStart j) = True"
| "pc_fine c (WLoop j plan n) = (0 \<le> n)"
| "pc_fine c (WWait j plan n) = (0 \<le> n \<and> n < MaxAttempts c)"
| "pc_fine c (WDescribe j plan n) = (0 \<le> n \<and> n < MaxAttempts c)"
| "pc_fine c (WChoose j plan n ident) = (0 \<le> n \<and> n < MaxAttempts c)"
| "pc_fine c (WCapture a) = (0 \<le> at_no a \<and> at_no a < MaxAttempts c)"
| "pc_fine c (WReserve a) = (0 \<le> at_no a \<and> at_no a < MaxAttempts c)"
| "pc_fine c (WProbe a) = (0 \<le> at_no a \<and> at_no a < MaxAttempts c)"
| "pc_fine c (WRedescribe a candidate) = (0 \<le> at_no a \<and> at_no a < MaxAttempts c)"
| "pc_fine c (WReserveFormal a candidate fixd) = (0 \<le> at_no a \<and> at_no a < MaxAttempts c)"
| "pc_fine c (WProbeFormal a candidate fixd) = (0 \<le> at_no a \<and> at_no a < MaxAttempts c)"
| "pc_fine c (WRecheck a candidate fixd) = (0 \<le> at_no a \<and> at_no a < MaxAttempts c)"
| "pc_fine c (WPublish a candidate current) = (0 \<le> at_no a \<and> at_no a < MaxAttempts c)"
| "pc_fine c (WActs j as pc) = (as \<noteq> [] \<and> pc_fine c pc)"
| "pc_fine c _ = True"

fun weight :: "int \<Rightarrow> wpc \<Rightarrow> int" where
  "weight m (WStart j) = 20 * max 0 m + 4"
| "weight m (WLoop j plan n) = 20 * max 0 (m - n) + 3"
| "weight m (WWait j plan n) = 20 * (m - n) + 2"
| "weight m (WDescribe j plan n) = 20 * (m - n) + 1"
| "weight m (WChoose j plan n ident) = 20 * (m - n)"
| "weight m (WCapture a) = 20 * (m - at_no a) - 1"
| "weight m (WReserve a) = 20 * (m - at_no a) - 2"
| "weight m (WProbe a) = 20 * (m - at_no a) - 3"
| "weight m (WRedescribe a candidate) = 20 * (m - at_no a) - 4"
| "weight m (WReserveFormal a candidate fixd) = 20 * (m - at_no a) - 5"
| "weight m (WProbeFormal a candidate fixd) = 20 * (m - at_no a) - 6"
| "weight m (WRecheck a candidate fixd) = 20 * (m - at_no a) - 7"
| "weight m (WPublish a candidate current) = 20 * (m - at_no a) - 10"
| "weight m (WActs j as pc) = int (length as) + 1 + weight m pc"
| "weight m (WDone j reason) = 1"
| "weight m WFetch = 0"
| "weight m WExit = 0"

fun probes_left :: "int \<Rightarrow> wpc \<Rightarrow> int" where
  "probes_left m (WStart j) = 2 * max 0 m"
| "probes_left m (WLoop j plan n) = 2 * max 0 (m - n)"
| "probes_left m (WWait j plan n) = 2 * (m - n)"
| "probes_left m (WDescribe j plan n) = 2 * (m - n)"
| "probes_left m (WChoose j plan n ident) = 2 * (m - n)"
| "probes_left m (WCapture a) = 2 * (m - at_no a)"
| "probes_left m (WReserve a) = 2 * (m - at_no a)"
| "probes_left m (WProbe a) = 2 * (m - at_no a)"
| "probes_left m (WRedescribe a candidate) = 2 * (m - at_no a) - 1"
| "probes_left m (WReserveFormal a candidate fixd) = 2 * (m - at_no a) - 1"
| "probes_left m (WProbeFormal a candidate fixd) = 2 * (m - at_no a) - 1"
| "probes_left m (WRecheck a candidate fixd) = 2 * (m - at_no a) - 2"
| "probes_left m (WPublish a candidate current) = 2 * (m - at_no a) - 2"
| "probes_left m (WActs j as pc) = probes_left m pc"
| "probes_left m _ = 0"

definition is_probe :: "input \<Rightarrow> bool" where
  "is_probe inp \<longleftrightarrow> (case inp of IProbe _ _ \<Rightarrow> True | _ \<Rightarrow> False)"

text \<open>One step: the place stays fine, the measure drops, the probes left drop with a probe.\<close>

definition drops :: "Config \<Rightarrow> bool \<Rightarrow> wpc \<Rightarrow> wpc \<Rightarrow> bool" where
  "drops c probe pc pc' \<longleftrightarrow> pc_fine c pc' \<and> weight (MaxAttempts c) pc' < weight (MaxAttempts c) pc \<and>
     probes_left (MaxAttempts c) pc' + (if probe then 1 else 0) \<le> probes_left (MaxAttempts c) pc"

lemma weight_nonneg: "pc_fine c pc \<Longrightarrow> 0 \<le> weight (MaxAttempts c) pc"
  by (induction c pc rule: pc_fine.induct) auto

lemma probes_left_nonneg: "pc_fine c pc \<Longrightarrow> 0 \<le> probes_left (MaxAttempts c) pc"
  by (induction c pc rule: pc_fine.induct) auto

section \<open>Every step lowers the measure\<close>

lemma acts_drop:
  assumes "pc_fine c pc" and "weight (MaxAttempts c) pc + int (length as) + 1 < weight (MaxAttempts c) old"
    and "probes_left (MaxAttempts c) pc + (if probe then 1 else 0) \<le> probes_left (MaxAttempts c) old"
  shows "drops c probe old (acts j as pc)"
  using assms by (simp add: drops_def acts_def)

lemma next_attempt_drop:
  assumes "0 \<le> at_no a" and "at_no a < MaxAttempts c" and "length as \<le> 2"
    and "20 * (MaxAttempts c - at_no a) - 10 \<le> weight (MaxAttempts c) old"
    and "2 * (MaxAttempts c - at_no a) - 2 + (if probe then 1 else 0) \<le> probes_left (MaxAttempts c) old"
  shows "drops c probe old (next_attempt a as)"
  unfolding next_attempt_def using assms by (intro acts_drop) (simp_all add: max_def)

lemma after_harvest_drop:
  assumes "0 \<le> at_no a" and "at_no a < MaxAttempts c" and "probe \<longrightarrow> old = WProbe a"
    and "old = WProbe a \<or> old = WReserve a"
  shows "drops c probe old (after_harvest a result err e)"
proof -
  have "drops c probe old (next_attempt a as)" if "length as \<le> 2" for as
    by (rule next_attempt_drop) (use assms that in auto)
  moreover have "drops c probe old (acts (at_job a) [x] (WDone (at_job a) r))" for x r
    by (rule acts_drop) (use assms in auto)
  moreover have "drops c probe old (WDone (at_job a) r)" for r
    using assms by (auto simp: drops_def)
  moreover have "drops c probe old (WRedescribe a result)" using assms by (auto simp: drops_def)
  ultimately show ?thesis by (simp add: after_harvest_def Let_def)
qed

lemma after_formal_drop:
  assumes "0 \<le> at_no a" and "at_no a < MaxAttempts c" and "probe \<longrightarrow> old = WProbeFormal a candidate fixd"
    and "old = WProbeFormal a candidate fixd \<or> old = WReserveFormal a candidate fixd"
  shows "drops c probe old (after_formal a candidate fixd result err)"
proof -
  have "drops c probe old (next_attempt a as)" if "length as \<le> 2" for as
    by (rule next_attempt_drop) (use assms that in auto)
  moreover have "drops c probe old (acts (at_job a) [x] (WDone (at_job a) r))" for x r
    by (rule acts_drop) (use assms in auto)
  moreover have "drops c probe old (WDone (at_job a) r)" for r
    using assms by (auto simp: drops_def)
  moreover have "drops c probe old (WRecheck a candidate fixd)" using assms by (auto simp: drops_def)
  ultimately show ?thesis by (simp add: after_formal_def Let_def)
qed

lemma choose_drop:
  assumes "0 \<le> n" and "n < MaxAttempts c" and "choose_step now j plan n ident e = (pc', e')"
  shows "drops c False (WChoose j plan n ident) pc'"
proof -
  obtain i u e1 where ch: "chooseProxyLocked now e = ((i, u), e1)" by (metis prod.exhaust)
  have "drops c False (WChoose j plan n ident) (acts j [x] (WDone j r))" for x r
    by (rule acts_drop) (use assms in auto)
  with assms ch show ?thesis by (auto simp: choose_step_def drops_def split: if_splits)
qed

lemma go_drop:
  assumes "go_step now pc e = Some (pc', e')" and "pc_fine (en_cfg e) pc" and "pc \<noteq> WFetch"
  shows "drops (en_cfg e) False pc pc'"
proof (cases pc)
  case (WLoop j plan n)
  with assms show ?thesis by (auto simp: go_step_def drops_def split: if_splits)
next
  case (WStart j)
  with assms show ?thesis by (auto simp: go_step_def drops_def split: option.splits)
next
  case (WChoose j plan n ident)
  with assms choose_drop show ?thesis by (auto simp: go_step_def)
next
  case (WReserve a)
  with assms after_harvest_drop [of a "en_cfg e" False "WReserve a"] show ?thesis
    by (auto simp: go_step_def drops_def split: prod.splits if_splits)
next
  case (WReserveFormal a candidate fixd)
  with assms after_formal_drop [of a "en_cfg e" False "WReserveFormal a candidate fixd"] show ?thesis
    by (auto simp: go_step_def drops_def split: prod.splits if_splits)
next
  case (WPublish a candidate current)
  with assms publish_frame(1) [of now a candidate current e pc' e'] show ?thesis
    by (auto simp: go_step_def drops_def)
next
  case (WActs j as pc1)
  with assms show ?thesis by (auto simp: go_step_def drops_def acts_def split: list.splits)
qed (use assms in \<open>auto simp: go_step_def drops_def\<close>)

lemma describe_drop:
  assumes "describe_step ident err pc e = Some pc'" and "pc_fine (en_cfg e) pc"
  shows "drops (en_cfg e) False pc pc'"
proof (cases pc)
  case (WDescribe j plan n)
  have "drops (en_cfg e) False pc (acts j [x] (WDone j r))" for x r
    by (rule acts_drop) (use assms WDescribe in auto)
  with assms WDescribe show ?thesis by (auto simp: describe_step_def describe_def drops_def split: if_splits)
next
  case (WRedescribe a candidate)
  have "drops (en_cfg e) False pc (next_attempt a as)" if "length as \<le> 2" for as
    by (rule next_attempt_drop) (use assms that WRedescribe in auto)
  with assms WRedescribe show ?thesis by (auto simp: describe_step_def describe_def drops_def split: if_splits)
next
  case (WRecheck a candidate fixd)
  have "drops (en_cfg e) False pc (next_attempt a as)" if "length as \<le> 2" for as
    by (rule next_attempt_drop) (use assms that WRecheck in auto)
  moreover have "drops (en_cfg e) False pc (acts j [x] (WPublish a candidate current))" for j x current
    by (rule acts_drop) (use assms WRecheck in auto)
  ultimately show ?thesis using assms WRecheck by (auto simp: describe_step_def split: if_splits prod.splits)
qed (use assms in \<open>simp_all add: describe_step_def\<close>)

lemma probe_drop:
  assumes "probe_step result err pc e = Some pc'" and "pc_fine (en_cfg e) pc"
  shows "drops (en_cfg e) True pc pc'"
proof (cases pc)
  case (WProbe a)
  with assms after_harvest_drop [of a "en_cfg e" True "WProbe a"] show ?thesis by (auto simp: probe_step_def)
next
  case (WProbeFormal a candidate fixd)
  with assms after_formal_drop [of a "en_cfg e" True "WProbeFormal a candidate fixd"] show ?thesis
    by (auto simp: probe_step_def)
qed (use assms in \<open>simp_all add: probe_step_def\<close>)

lemma step_drop:
  assumes "wstep now inp pc e = Some (pc', e')" and "pc_fine (en_cfg e) pc" and "pc \<noteq> WFetch"
  shows "drops (en_cfg e) (is_probe inp) pc pc'"
proof (cases inp)
  case ICancel
  with assms show ?thesis by (cases pc) (auto simp: wstep_def cancel_step_def drops_def is_probe_def split: if_splits)
qed (use assms go_drop describe_drop probe_drop in \<open>auto simp: wstep_def is_probe_def\<close>)

section \<open>Runs of one worker\<close>

text \<open>
  \<open>worker_steps c pc n p pc'\<close>: from \<open>pc\<close> the worker takes \<open>n\<close> steps, \<open>p\<close> of them replies to
  probes, to \<open>pc'\<close>, without ending its job on the way. Before every step the engine and the
  clock may be any at all, as long as the configuration is \<open>c\<close>.
\<close>

inductive worker_steps :: "Config \<Rightarrow> wpc \<Rightarrow> int \<Rightarrow> int \<Rightarrow> wpc \<Rightarrow> bool" for c pc where
  worker_steps_none: "worker_steps c pc 0 0 pc"
| worker_steps_more:
    "worker_steps c pc n p pc1 \<Longrightarrow> pc1 \<noteq> WFetch \<Longrightarrow> en_cfg e = c \<Longrightarrow> wstep now inp pc1 e = Some (pc2, e') \<Longrightarrow>
     worker_steps c pc (n + 1) (p + (if is_probe inp then 1 else 0)) pc2"

lemma worker_steps_bound:
  assumes "worker_steps c pc n p pc'" and "pc_fine c pc"
  shows "pc_fine c pc' \<and> n + weight (MaxAttempts c) pc' \<le> weight (MaxAttempts c) pc \<and>
    p + probes_left (MaxAttempts c) pc' \<le> probes_left (MaxAttempts c) pc"
  using assms(1)
proof induction
  case worker_steps_none
  then show ?case using assms(2) by simp
next
  case (worker_steps_more n p pc1 e now inp pc2 e')
  then have "drops c (is_probe inp) pc1 pc2" using step_drop by blast
  with worker_steps_more.IH show ?case by (auto simp: drops_def)
qed

lemma fine_progress:
  assumes "pc_fine (en_cfg e) pc" and "pc \<noteq> WFetch" and "pc \<noteq> WExit"
  shows "\<exists>inp. wstep now inp pc e \<noteq> None"
proof -
  let ?d = "IDescribe \<lparr>id_Scope = [], id_Plan = []\<rparr> True" and ?p = "IProbe zero_result True"
  have "wstep now IGo pc e \<noteq> None \<or> wstep now ?d pc e \<noteq> None \<or> wstep now ?p pc e \<noteq> None"
    using assms
    by (cases pc) (auto simp: wstep_def go_step_def describe_step_def probe_step_def Let_def
        split: prod.split list.split option.split)
  then show ?thesis by blast
qed

text \<open>
  C16. One job is bounded work. Whatever the host answers and whatever happens to the engine in
  between, a worker that has started a job takes at most 20 steps per attempt and 4 more and sends
  at most two probes per attempt; and at every place before the end of the job some input lets
  it go on, so the job ends once the host has answered and the timers have fired.
\<close>

theorem job_is_bounded:
  assumes "worker_steps c (WStart j) n p pc" and "0 \<le> MaxAttempts c"
  shows "n \<le> 20 * MaxAttempts c + 4 \<and> p \<le> 2 * MaxAttempts c \<and>
    (pc = WFetch \<or> pc = WExit \<or> (\<forall>e now. en_cfg e = c \<longrightarrow> (\<exists>inp. wstep now inp pc e \<noteq> None)))"
proof -
  from worker_steps_bound [OF assms(1)] have b: "pc_fine c pc"
    "n + weight (MaxAttempts c) pc \<le> 20 * max 0 (MaxAttempts c) + 4"
    "p + probes_left (MaxAttempts c) pc \<le> 2 * max 0 (MaxAttempts c)" by simp_all
  with weight_nonneg [OF b(1)] probes_left_nonneg [OF b(1)] assms(2) fine_progress [of _ pc]
  show ?thesis by (auto simp: max_def)
qed

text \<open>The first two steps of a sample job.\<close>

lemma sample_worker_steps:
  "worker_steps sample_cfg (WStart \<lparr>jb_key = k1, jb_epoch = 0, jb_proxyIndex = - 1\<rparr>) (0 + 1 + 1) 0
     (WDescribe \<lparr>jb_key = k1, jb_epoch = 0, jb_proxyIndex = - 1\<rparr> ''pro'' 0)"
proof -
  let ?j = "\<lparr>jb_key = k1, jb_epoch = 0, jb_proxyIndex = - 1\<rparr>"
  have cfg: "en_cfg sample_engine = sample_cfg" by code_simp
  have w1: "wstep 0 IGo (WStart ?j) sample_engine = Some (WLoop ?j ''pro'' 0, sample_engine)"
    and w2: "wstep 0 IGo (WLoop ?j ''pro'' 0) sample_engine = Some (WDescribe ?j ''pro'' 0, sample_engine)"
    by code_simp+
  have "worker_steps sample_cfg (WStart ?j) (0 + 1) (0 + (if is_probe IGo then 1 else 0)) (WLoop ?j ''pro'' 0)"
    by (rule worker_steps_more [OF worker_steps_none _ cfg w1]) simp
  from worker_steps_more [OF this _ cfg w2] show ?thesis by (simp add: is_probe_def)
qed

theorem job_is_bounded_witness:
  "\<exists>inp. wstep 5 inp (WDescribe \<lparr>jb_key = k1, jb_epoch = 0, jb_proxyIndex = - 1\<rparr> ''pro'' 0) sample_engine \<noteq> None"
proof -
  have "en_cfg sample_engine = sample_cfg" "0 \<le> MaxAttempts sample_cfg" by code_simp+
  with job_is_bounded [OF sample_worker_steps] show ?thesis by auto
qed

end
