(* ===== verification/Interceptor.thy ===== *)
theory Interceptor
  imports Cache Engine Json
begin

text \<open>
  The hooks the host calls, \<open>internal/turnstate/interceptor.go\<close>: a plugin is the passive cache
  and, when prewarming is configured, the engine. Each hook is a function on the plugin; the
  records are the fields of the SDK's request types that the hooks read. A hook returns its log
  lines with their model instead of calling \<open>p.log\<close>; \<open>pl_log\<close> says whether a log function was
  given. All hooks return a nil error.

  The cache and the engine read the same clock \<open>now\<close>. \<open>answer\<close> is the reply of the host to
  \<open>Describe\<close>, \<open>init_index\<close> the SDK constant \<open>StreamChunkHeaderInitIndex\<close>. Header maps are listed in
  the order in which \<open>range\<close> visits them; for the header map inside a WebSocket payload \<open>visit\<close>
  chooses that order, anew for each of the two times a payload is parsed.
\<close>

section \<open>Data\<close>

definition selectedAuthIDMetadataKey :: string where
  "selectedAuthIDMetadataKey = ''selected_auth_id''"

record Plugin =
  pl_cache :: Cache
  pl_log :: bool
  pl_warmer :: "Engine option"

record RequestInterceptRequest =
  ri_ToFormat :: string
  ri_RequestID :: string
  ri_Model :: string
  ri_Metadata :: "(string, json) gomap"
  ri_Headers :: header

record StreamChunkInterceptRequest =
  sc_RequestID :: string
  sc_ChunkIndex :: int
  sc_ResponseHeaders :: header
  sc_Body :: string

type_synonym log_lines = "(string \<times> string) list"

definition NewPlugin :: "Cache \<Rightarrow> bool \<Rightarrow> Plugin" where
  "NewPlugin cache has_log = \<lparr>pl_cache = cache, pl_log = has_log, pl_warmer = None\<rparr>"

definition SetPrewarm :: "Engine \<Rightarrow> Plugin \<Rightarrow> Plugin" where
  "SetPrewarm e p = p\<lparr>pl_warmer := Some e\<rparr>"

definition PluginClose :: "Plugin \<Rightarrow> Plugin" where
  "PluginClose p = p\<lparr>pl_warmer := map_option Close (pl_warmer p)\<rparr>"

section \<open>Reading headers, metadata and payloads\<close>

definition selectedAuthID :: "(string, json) gomap \<Rightarrow> string" where
  "selectedAuthID metadata =
     (case gm_get metadata selectedAuthIDMetadataKey of Some (JStr s) \<Rightarrow> s | _ \<Rightarrow> [])"

definition planTypeValue :: "header \<Rightarrow> string" where
  "planTypeValue headers =
     (case find (\<lambda>(name, headerValues). EqualFold name PlanTypeHeader \<and> headerValues \<noteq> []) headers of
        None \<Rightarrow> []
      | Some (name, headerValues) \<Rightarrow> TrimSpace (hd headerValues))"

definition turnStateValues :: "header \<Rightarrow> string list" where
  "turnStateValues headers =
     concat (map snd (filter (\<lambda>(name, headerValues). EqualFold name TurnStateHeader) headers))"

text \<open>A string that is not blank, trimmed; otherwise the old value.\<close>

definition trimmed_or :: "string \<Rightarrow> json option \<Rightarrow> string" where
  "trimmed_or old v = (case v of Some (JStr s) \<Rightarrow> if TrimSpace s \<noteq> [] then TrimSpace s else old | _ \<Rightarrow> old)"

fun ws_header :: "string \<times> json \<Rightarrow> string \<times> string \<Rightarrow> string \<times> string" where
  "ws_header (k, v) (state, plan) =
     (let state = (if EqualFold k TurnStateHeader then trimmed_or state (Some v) else state);
          plan = (if EqualFold k PlanTypeHeader then trimmed_or plan (Some v) else plan)
      in (state, plan))"

definition parseWebSocketTurnState ::
  "((string, json) gomap \<Rightarrow> (string, json) gomap) \<Rightarrow> string \<Rightarrow> string \<times> string" where
  "parseWebSocketTurnState visit payload =
     (case unmarshal_map payload of
        None \<Rightarrow> ([], [])
      | Some root \<Rightarrow>
          let plan = trimmed_or [] (gm_get root ''plan_type'')
          in case gm_get root ''headers'' of
               Some (JObj headers) \<Rightarrow> fold ws_header (visit (as_map headers)) ([], plan)
             | _ \<Rightarrow> ([], plan))"

section \<open>Capturing\<close>

definition logged :: "Plugin \<Rightarrow> string \<Rightarrow> string \<Rightarrow> log_lines" where
  "logged p message model = (if pl_log p then [(message, model)] else [])"

definition capture_message :: "string \<Rightarrow> string \<Rightarrow> bool \<Rightarrow> string" where
  "capture_message source plan replaced =
     ''codex turn-state cache captured source='' @ source @
     (if plan \<noteq> [] then '' plan='' @ ToLower (TrimSpace plan) else []) @
     (if replaced then '' replaced=true'' else [])"

definition capture :: "gotime \<Rightarrow> string \<Rightarrow> header \<Rightarrow> string \<Rightarrow> Plugin \<Rightarrow> log_lines \<times> Plugin" where
  "capture now requestID headers source p =
     (let plan = planTypeValue headers;
          ((key, stored, replaced), c) = StoreResponseForRequest now requestID (turnStateValues headers) [plan] (pl_cache p);
          p = p\<lparr>pl_cache := c\<rparr>
      in if \<not> stored then ([], p)
         else (logged p (capture_message source plan replaced) (Model key), p))"

definition captureWebSocket ::
  "((string, json) gomap \<Rightarrow> (string, json) gomap) \<Rightarrow> gotime \<Rightarrow> string \<Rightarrow> string \<Rightarrow> Plugin \<Rightarrow> log_lines \<times> Plugin" where
  "captureWebSocket visit now requestID payload p =
     (let (state, plan) = parseWebSocketTurnState visit payload;
          p = (if plan \<noteq> [] then p\<lparr>pl_cache := BindPlan requestID plan (pl_cache p)\<rparr> else p)
      in if state = [] then ([], p)
         else
           let ((key, stored, replaced), c) = StoreResponseForRequest now requestID [state] [plan] (pl_cache p);
               p = p\<lparr>pl_cache := c\<rparr>
           in if \<not> stored then ([], p)
              else (logged p (capture_message ''websocket'' plan replaced) (Model key), p))"

section \<open>The hooks\<close>

text \<open>The header a hook adds to the request; \<open>None\<close> is the empty response.\<close>

definition InterceptRequestBeforeAuth :: "RequestInterceptRequest \<Rightarrow> Plugin \<Rightarrow> header option \<times> log_lines \<times> Plugin" where
  "InterceptRequestBeforeAuth req p = (None, [], p)"

definition request_key :: "RequestInterceptRequest \<Rightarrow> CacheKey" where
  "request_key req = CacheKey (selectedAuthID (ri_Metadata req)) (ri_Model req)"

definition warm_key :: "CacheKey \<Rightarrow> Key" where
  "warm_key key = Key (AuthID key) (Model key)"

definition InterceptRequestAfterAuth ::
  "gotime \<Rightarrow> Identity \<times> bool \<Rightarrow> RequestInterceptRequest \<Rightarrow> Plugin \<Rightarrow> header option \<times> log_lines \<times> Plugin" where
  "InterceptRequestAfterAuth now answer req p =
     (if \<not> EqualFold (ri_ToFormat req) ''codex'' then (None, [], p)
      else
        let key = request_key req in
        if ri_RequestID req = [] \<or> \<not> validKey key
        then (None, [], p\<lparr>pl_cache := ForgetRequest (ri_RequestID req) (pl_cache p)\<rparr>)
        else case (case pl_warmer p of None \<Rightarrow> None
                   | Some e \<Rightarrow> if Manages (warm_key key) e then Some e else None) of
          Some e \<Rightarrow>
            (let c = ForgetRequest (ri_RequestID req) (pl_cache p);
                 ((state, hit), e) = Bind now (ri_RequestID req) (warm_key key)
                   (turnStateValues (ri_Headers req) \<noteq> []) answer e;
                 p = p\<lparr>pl_cache := c, pl_warmer := Some e\<rparr>
             in if \<not> hit then (None, [], p)
                else (Some [(TurnStateHeader, [state])],
                      logged p ''codex verified turn-state injected'' (Model key), p))
        | None \<Rightarrow>
            (let c = BindRequest now (ri_RequestID req) key (pl_cache p);
                 ((state, hit), c) = Lookup now key c;
                 p = p\<lparr>pl_cache := c\<rparr>
             in if \<not> hit then (None, [], p)
                else (Some [(TurnStateHeader, [state])],
                      logged p ''codex turn-state cache injected'' (Model key), p)))"

definition HandleRequestComplete :: "gotime \<Rightarrow> string \<Rightarrow> Plugin \<Rightarrow> Plugin" where
  "HandleRequestComplete now requestID p =
     p\<lparr>pl_cache := ForgetRequest requestID (pl_cache p),
       pl_warmer := map_option (Complete now requestID) (pl_warmer p)\<rparr>"

definition InterceptResponse :: "gotime \<Rightarrow> string \<Rightarrow> header \<Rightarrow> string \<Rightarrow> Plugin \<Rightarrow> log_lines \<times> Plugin" where
  "InterceptResponse now requestID headers body p =
     (let p = p\<lparr>pl_warmer := map_option (\<lambda>e. EngineJSON now requestID body (Headers now requestID headers e)) (pl_warmer p)\<rparr>
      in capture now requestID headers ''http'' p)"

definition InterceptStreamChunk ::
  "int \<Rightarrow> gotime \<Rightarrow> StreamChunkInterceptRequest \<Rightarrow> Plugin \<Rightarrow> log_lines \<times> Plugin" where
  "InterceptStreamChunk init_index now req p =
     (if sc_ChunkIndex req = init_index then
        (let p = p\<lparr>pl_warmer := map_option (Headers now (sc_RequestID req) (sc_ResponseHeaders req)) (pl_warmer p)\<rparr>
         in capture now (sc_RequestID req) (sc_ResponseHeaders req) ''stream'' p)
      else ([], p\<lparr>pl_warmer := map_option (Chunk now (sc_RequestID req) (sc_Body req)) (pl_warmer p)\<rparr>))"

definition ObserveWebSocketResponseEvent ::
  "((string, json) gomap \<Rightarrow> (string, json) gomap) \<Rightarrow>
   ((string, json) gomap \<Rightarrow> (string, json) gomap) \<Rightarrow> gotime \<Rightarrow> string \<Rightarrow> string \<Rightarrow> Plugin \<Rightarrow> log_lines \<times> Plugin" where
  "ObserveWebSocketResponseEvent visit visit' now requestID payload p =
     (if requestID = [] \<or> payload = [] then ([], p)
      else
        let p = p\<lparr>pl_warmer :=
          map_option (\<lambda>e. EngineJSON now requestID payload
              (Headers now requestID [(TurnStateHeader, [fst (parseWebSocketTurnState visit payload)])] e))
            (pl_warmer p)\<rparr>
        in captureWebSocket visit' now requestID payload p)"

end
