(* ===== verification/Interceptor_Spec.thy ===== *)
theory Interceptor_Spec
  imports Interceptor Cache_Spec Engine_Spec
begin

text \<open>
  What the hooks promise together: managed keys never touch the passive cache, a captured
  state is reused for exactly the same credential and model, a completed request is inert, and
  the order in which Go visits header maps does not matter.
\<close>

section \<open>Hooks as operations\<close>

datatype hook =
    HookRequest "Identity \<times> bool" RequestInterceptRequest
  | HookComplete string
  | HookResponse string header string
  | HookChunk StreamChunkInterceptRequest
  | HookSocket "(string, json) gomap \<Rightarrow> (string, json) gomap" "(string, json) gomap \<Rightarrow> (string, json) gomap" string string

fun hook_apply :: "int \<Rightarrow> gotime \<times> hook \<Rightarrow> Plugin \<Rightarrow> Plugin" where
  "hook_apply ix (now, HookRequest answer req) p = snd (snd (InterceptRequestAfterAuth now answer req p))"
| "hook_apply ix (now, HookComplete rid) p = HandleRequestComplete now rid p"
| "hook_apply ix (now, HookResponse rid h body) p = snd (InterceptResponse now rid h body p)"
| "hook_apply ix (now, HookChunk req) p = snd (InterceptStreamChunk ix now req p)"
| "hook_apply ix (now, HookSocket visit visit' rid payload) p = snd (ObserveWebSocketResponseEvent visit visit' now rid payload p)"

definition managed :: "CacheKey \<Rightarrow> Plugin \<Rightarrow> bool" where
  "managed k p \<longleftrightarrow> (case pl_warmer p of None \<Rightarrow> False | Some e \<Rightarrow> Manages (warm_key k) e)"

section \<open>The hooks on the cache\<close>

text \<open>Every hook acts on the passive cache by a list of its operations.\<close>

definition capture_ops :: "gotime \<Rightarrow> string \<Rightarrow> header \<Rightarrow> (gotime \<times> cache_op) list" where
  "capture_ops now rid h = [(now, OpStore rid (turnStateValues h) [planTypeValue h])]"

fun hook_ops :: "int \<Rightarrow> gotime \<times> hook \<Rightarrow> Plugin \<Rightarrow> (gotime \<times> cache_op) list" where
  "hook_ops ix (now, HookRequest answer req) p =
     (let k = request_key req; rid = ri_RequestID req in
      if \<not> EqualFold (ri_ToFormat req) ''codex'' then []
      else if rid = [] \<or> \<not> validKey k \<or> managed k p then [(now, OpForgetRequest rid)]
      else [(now, OpBindRequest rid k), (now, OpLookup k)])"
| "hook_ops ix (now, HookComplete rid) p = [(now, OpForgetRequest rid)]"
| "hook_ops ix (now, HookResponse rid h body) p = capture_ops now rid h"
| "hook_ops ix (now, HookChunk req) p =
     (if sc_ChunkIndex req = ix then capture_ops now (sc_RequestID req) (sc_ResponseHeaders req) else [])"
| "hook_ops ix (now, HookSocket visit visit' rid payload) p =
     (if rid = [] \<or> payload = [] then []
      else case parseWebSocketTurnState visit' payload of (state, plan) \<Rightarrow>
        (if plan \<noteq> [] then [(now, OpBindPlan rid plan)] else []) @
        (if state \<noteq> [] then [(now, OpStore rid [state] [plan])] else []))"

lemma capture_cache:
  "pl_cache (snd (capture now rid h source p)) = cache_run (capture_ops now rid h) (pl_cache p)"
  "pl_warmer (snd (capture now rid h source p)) = pl_warmer p"
  by (simp_all add: capture_def capture_ops_def Let_def case_prod_beta)

lemma captureWebSocket_cache:
  "rid \<noteq> [] \<Longrightarrow> payload \<noteq> [] \<Longrightarrow>
   pl_cache (snd (captureWebSocket visit now rid payload p)) =
     cache_run (hook_ops ix (now, HookSocket visit0 visit rid payload) p) (pl_cache p)"
  "pl_warmer (snd (captureWebSocket visit now rid payload p)) = pl_warmer p"
  by (simp_all add: captureWebSocket_def Let_def case_prod_beta)

lemma request_unfold:
  "InterceptRequestAfterAuth now answer req p =
     (let k = request_key req; rid = ri_RequestID req in
      if \<not> EqualFold (ri_ToFormat req) ''codex'' then (None, [], p)
      else if rid = [] \<or> \<not> validKey k then (None, [], p\<lparr>pl_cache := ForgetRequest rid (pl_cache p)\<rparr>)
      else if managed k p then
        (let e = the (pl_warmer p);
             ((state, hit), e') = Bind now rid (warm_key k) (turnStateValues (ri_Headers req) \<noteq> []) answer e;
             p' = p\<lparr>pl_cache := ForgetRequest rid (pl_cache p), pl_warmer := Some e'\<rparr>
         in if hit then (Some [(TurnStateHeader, [state])],
                         logged p ''codex verified turn-state injected'' (Model k), p') else (None, [], p'))
      else
        (let ((state, hit), c) = Lookup now k (BindRequest now rid k (pl_cache p));
             p' = p\<lparr>pl_cache := c\<rparr>
         in if hit then (Some [(TurnStateHeader, [state])],
                         logged p ''codex turn-state cache injected'' (Model k), p') else (None, [], p')))"
proof (cases "pl_warmer p")
  case None
  then show ?thesis
    by (simp add: InterceptRequestAfterAuth_def managed_def Let_def logged_def case_prod_beta)
next
  case (Some e)
  then show ?thesis
    by (simp add: InterceptRequestAfterAuth_def managed_def Let_def logged_def case_prod_beta)
qed

lemma hook_cache: "pl_cache (hook_apply ix x p) = cache_run (hook_ops ix x p) (pl_cache p)"
proof (cases "(ix, x, p)" rule: hook_apply.cases)
  case (1 ix now answer req p)
  then show ?thesis by (simp add: request_unfold Let_def case_prod_beta)
next
  case (5 ix now visit visit' rid payload p)
  then show ?thesis
    using captureWebSocket_cache(1) [of rid payload visit' now _ ix visit]
    by (simp add: ObserveWebSocketResponseEvent_def Let_def)
qed (simp_all add: HandleRequestComplete_def InterceptResponse_def InterceptStreamChunk_def capture_cache Let_def)

section \<open>The hooks on the engine\<close>

text \<open>The request path touches neither what \<open>Manages\<close> reads nor the probe budget.\<close>

definition same_ownership :: "Engine \<Rightarrow> Engine \<Rightarrow> bool" where
  "same_ownership e e' \<longleftrightarrow> en_cfg e' = en_cfg e \<and> en_plans e' = en_plans e \<and>
     en_discoveryCount e' = en_discoveryCount e \<and> en_ownsAllModels e' = en_ownsAllModels e \<and>
     en_owned e' = en_owned e \<and> en_budget e' = en_budget e \<and> en_closed e' = en_closed e"

lemma same_ownership_refl [simp]: "same_ownership e e"
  by (simp add: same_ownership_def)

lemma same_ownership_trans: "same_ownership e e' \<Longrightarrow> same_ownership e' e'' \<Longrightarrow> same_ownership e e''"
  by (simp add: same_ownership_def)

lemma same_ownership_Manages: "same_ownership e e' \<Longrightarrow> Manages k e' = Manages k e"
  by (simp add: same_ownership_def Manages_def)

lemma same_ownership_enqueue [simp]: "same_ownership e0 (enqueueLocked now k e) = same_ownership e0 e"
  by (auto simp: same_ownership_def enqueueLocked_def put_record_def Let_def split: option.split)

lemma same_ownership_invalidate [simp]: "same_ownership e (invalidateLocked now ob e)"
  by (auto simp: invalidateLocked_def bumpEpochLocked_def put_record_def Let_def same_ownership_def [of e "e\<lparr>en_epoch := n, en_records := m\<rparr>" for n m]
      split: option.split)

lemma same_ownership_requests: "same_ownership e0 (e\<lparr>en_requests := q\<rparr>) = same_ownership e0 e"
  by (simp add: same_ownership_def)

lemma same_ownership_obs: "same_ownership e (obs_apply now rid op e)"
proof (cases op)
  case ObsComplete
  have "same_ownership e (observe now rid Finish e)"
    by (auto simp: observe_def Let_def same_ownership_requests
        intro: same_ownership_trans [OF _ same_ownership_invalidate] split: option.split)
  with ObsComplete show ?thesis by (auto simp: Complete_def Let_def same_ownership_requests split: option.split)
qed (auto simp: Headers_def headers_exact Chunk_def EngineJSON_def observe_def Let_def same_ownership_requests
    intro: same_ownership_trans [OF _ same_ownership_invalidate] split: option.split)

lemma same_ownership_Bind: "same_ownership e (snd (Bind now rid k callerState answer e))"
proof -
  have touch: "same_ownership e (bind_touch now rid e)"
    by (simp add: bind_touch_def same_ownership_requests split: option.split)
  then have "same_ownership e (drop_ticket k r (bind_touch now rid e))" for r
    by (simp add: drop_ticket_def bumpEpochLocked_def put_record_def Let_def same_ownership_def)
  with touch have "same_ownership e (snd (bind_locked now rid k callerState a e))" for a
    by (auto simp: bind_locked_unfold Let_def same_ownership_requests split: option.split)
  then show ?thesis by (simp add: Bind_def)
qed

lemmas ownership_hooks =
  same_ownership_obs [where op = "ObsHeaders h" for h, simplified]
  same_ownership_obs [where op = "ObsChunk b" for b, simplified]
  same_ownership_obs [where op = "ObsJSON b" for b, simplified]
  same_ownership_obs [where op = ObsComplete, simplified]

lemma hook_warmer: "rel_option same_ownership (pl_warmer p) (pl_warmer (hook_apply ix x p))"
proof (cases "pl_warmer p")
  case None
  have "pl_warmer (hook_apply ix x p) = None"
    using None
    by (cases "(ix, x, p)" rule: hook_apply.cases)
      (auto simp: InterceptRequestAfterAuth_def HandleRequestComplete_def InterceptResponse_def
        InterceptStreamChunk_def ObserveWebSocketResponseEvent_def capture_cache captureWebSocket_cache
        Let_def case_prod_beta)
  with None show ?thesis by simp
next
  case (Some e)
  have "\<exists>e'. pl_warmer (hook_apply ix x p) = Some e' \<and> same_ownership e e'"
  proof (cases "(ix, x, p)" rule: hook_apply.cases)
    case (1 ix now answer req p)
    with Some show ?thesis
      by (auto simp: InterceptRequestAfterAuth_def Let_def case_prod_beta same_ownership_Bind)
  next
    case (3 ix now rid h body p)
    with Some same_ownership_trans [OF ownership_hooks(1) ownership_hooks(3)] show ?thesis
      by (auto simp: InterceptResponse_def Let_def capture_cache)
  next
    case (5 ix now visit visit' rid payload p)
    with Some same_ownership_trans [OF ownership_hooks(1) ownership_hooks(3)] show ?thesis
      by (auto simp: ObserveWebSocketResponseEvent_def Let_def captureWebSocket_cache)
  qed (use Some ownership_hooks in \<open>auto simp: HandleRequestComplete_def InterceptStreamChunk_def Let_def capture_cache\<close>)
  with Some show ?thesis by auto
qed

lemma managed_hook: "managed k (hook_apply ix x p) = managed k p"
  using hook_warmer [of p ix x]
  by (auto simp: managed_def same_ownership_Manages rel_option_iff split: option.splits)

section \<open>Managed keys\<close>












definition sample_request :: "string \<Rightarrow> string \<Rightarrow> RequestInterceptRequest" where
  "sample_request rid auth = \<lparr>ri_ToFormat = ''Codex'', ri_RequestID = rid, ri_Model = ''gpt-6'',
     ri_Metadata = [(''selected_auth_id'', JStr auth)], ri_Headers = []\<rparr>"


section \<open>Passive reuse\<close>

lemma BindRequest_view:
  "cache_inv c \<Longrightarrow> now \<le> t \<Longrightarrow> cache_view t (BindRequest now rid k c) = cache_view t c"
  by (auto simp: BindRequest_def Let_def cache_view_purge)

lemma Lookup_view_hit:
  "cache_inv c \<Longrightarrow> fst (Lookup now k c) = (case cache_view now c k of None \<Rightarrow> ([], False) | Some v \<Rightarrow> (v, True))"
  using cache_inv_validKey [of c k]
  by (auto simp: Lookup_def Let_def cache_view_def purge_get_entries cache_invD split: option.splits)

lemma Lookup_view:
  "cache_inv c \<Longrightarrow> now \<le> t \<Longrightarrow> cache_view t (snd (Lookup now k c)) = cache_view t c"
  by (auto simp: Lookup_def Let_def cache_view_purge split: option.splits)

lemma BindRequest_bound:
  "rid \<noteq> [] \<Longrightarrow> validKey k \<Longrightarrow> gm_get (pending (BindRequest now rid k c)) rid =
     Some \<lparr>pb_key = k, pb_planType = [], pb_createdAt = now, pb_expiresAt = now + pendingTTL\<rparr>"
  by (simp add: BindRequest_def Let_def)

lemma Lookup_pending:
  "cache_inv c \<Longrightarrow> gm_get (pending c) rid = Some b \<Longrightarrow> now < pb_expiresAt b \<Longrightarrow>
   gm_get (pending (snd (Lookup now k c))) rid = Some b"
  by (auto simp: Lookup_def Let_def purge_get_pending cache_invD split: option.split)

text \<open>
  A request whose key is not managed is given exactly the state the abstract cache holds for
  its credential and model, and nothing if there is none; it is bound to the key for two hours,
  so that its response can be captured; no value gains or loses lifetime; the engine is not
  asked.
\<close>

theorem passive_request:
  assumes "cache_inv (pl_cache p)" and "EqualFold (ri_ToFormat req) ''codex''" and "ri_RequestID req \<noteq> []"
    and "validKey (request_key req)" and "\<not> managed (request_key req) p"
    and "InterceptRequestAfterAuth now answer req p = (hdr, log, p')"
  shows "hdr = map_option (\<lambda>v. [(TurnStateHeader, [v])]) (cache_view now (pl_cache p) (request_key req)) \<and>
    (\<exists>b. gm_get (pending (pl_cache p')) (ri_RequestID req) = Some b \<and> pb_key b = request_key req \<and>
       pb_planType b = [] \<and> pb_expiresAt b = now + pendingTTL) \<and>
    (\<forall>t \<ge> now. cache_view t (pl_cache p') = cache_view t (pl_cache p)) \<and> pl_warmer p' = pl_warmer p \<and>
    cache_inv (pl_cache p')"
proof -
  let ?c = "BindRequest now (ri_RequestID req) (request_key req) (pl_cache p)"
  have inv: "cache_inv ?c" using assms(1) by (rule cache_inv_BindRequest)
  have p': "p' = p\<lparr>pl_cache := snd (Lookup now (request_key req) ?c)\<rparr>"
    and hdr: "hdr = (case fst (Lookup now (request_key req) ?c) of
      (state, hit) \<Rightarrow> if hit then Some [(TurnStateHeader, [state])] else None)"
    using assms(2-6) by (auto simp: request_unfold Let_def case_prod_beta split: if_splits)
  have "hdr = map_option (\<lambda>v. [(TurnStateHeader, [v])]) (cache_view now (pl_cache p) (request_key req))"
    unfolding hdr Lookup_view_hit [OF inv] by (simp add: BindRequest_view assms(1) split: option.split)
  moreover have "gm_get (pending (pl_cache p')) (ri_RequestID req) =
      Some \<lparr>pb_key = request_key req, pb_planType = [], pb_createdAt = now, pb_expiresAt = now + pendingTTL\<rparr>"
    unfolding p' using Lookup_pending [OF inv BindRequest_bound [OF assms(3,4)]]
    by (simp add: pendingTTL_def)
  ultimately show ?thesis
    using inv by (auto simp: p' Lookup_view BindRequest_view assms(1) cache_inv_Lookup)
qed

definition sample_passive :: Plugin where
  "sample_passive = (NewPlugin sample_cache True)\<lparr>pl_warmer := Some sample_ready\<rparr>"

theorem passive_request_witness:
  "fst (InterceptRequestAfterAuth 5 sample_answer (sample_request ''r3'' ''acct'') sample_passive) = None \<and>
   fst (InterceptRequestAfterAuth 5 sample_answer ((sample_request ''r3'' ''acct'')\<lparr>ri_Model := ''gpt''\<rparr>) sample_passive) =
     Some [(TurnStateHeader, [sample_state 292])]"
proof -
  let ?r = "sample_request ''r3'' ''acct''"
  have inv: "cache_inv (pl_cache sample_passive)"
    by (simp add: sample_passive_def NewPlugin_def sample_cache_inv)
  have c: "EqualFold (ri_ToFormat ?r) ''codex''" "ri_RequestID ?r \<noteq> []" "validKey (request_key ?r)"
    "\<not> managed (request_key ?r) sample_passive"
    "cache_view 5 (pl_cache sample_passive) (request_key ?r) = None"
    "EqualFold (ri_ToFormat (?r\<lparr>ri_Model := ''gpt''\<rparr>)) ''codex''" "ri_RequestID (?r\<lparr>ri_Model := ''gpt''\<rparr>) \<noteq> []"
    "validKey (request_key (?r\<lparr>ri_Model := ''gpt''\<rparr>))" "\<not> managed (request_key (?r\<lparr>ri_Model := ''gpt''\<rparr>)) sample_passive"
    "cache_view 5 (pl_cache sample_passive) (request_key (?r\<lparr>ri_Model := ''gpt''\<rparr>)) = Some (sample_state 292)"
    by code_simp+
  obtain h l q where 1: "InterceptRequestAfterAuth 5 sample_answer ?r sample_passive = (h, l, q)"
    by (metis prod.exhaust)
  obtain h' l' q' where 2: "InterceptRequestAfterAuth 5 sample_answer (?r\<lparr>ri_Model := ''gpt''\<rparr>) sample_passive = (h', l', q')"
    by (metis prod.exhaust)
  from passive_request [OF inv c(1-4) 1] passive_request [OF inv c(6-9) 2] c 1 2 show ?thesis by simp
qed

section \<open>Capture and reuse\<close>

lemma validate_cong:
  "acceptedLengths c' = acceptedLengths c \<Longrightarrow> validatePlanAndLength c' vs plan = validatePlanAndLength c vs plan"
  by (simp only: validatePlanAndLength_def)

lemma Store_bound:
  assumes "cache_inv c" and "rid \<noteq> []" and "gm_get (pending c) rid = Some b" and "now < pb_expiresAt b"
    and "pb_planType b = []" and "validatePlanAndLength c [v] plan = Some v"
    and "t < now + stateTTL"
  shows "cache_view t (snd (StoreResponseForRequest now rid [v] [plan] c)) (pb_key b) = Some v"
    and "cache_inv (snd (StoreResponseForRequest now rid [v] [plan] c))"
proof -
  have acc: "acceptedLengths (purgeExpiredLocked now c) = acceptedLengths c" by simp
  have "validatePlanAndLength (purgeExpiredLocked now c) [v] plan = Some v"
    using assms(6) validate_cong [OF acc] by simp
  moreover have "gm_get (pending (purgeExpiredLocked now c)) rid = Some b"
    using assms by (simp add: purge_get_pending cache_invD)
  ultimately have "snd (StoreResponseForRequest now rid [v] [plan] c) =
      snd (storeLocked (pb_key b) v now (purgeExpiredLocked now c))"
    using assms(2,5) by (simp add: StoreResponseForRequest_def Let_def case_prod_beta)
  then show "cache_view t (snd (StoreResponseForRequest now rid [v] [plan] c)) (pb_key b) = Some v"
    using assms(7) by (simp add: storeLocked_def Let_def cache_view_def)
  show "cache_inv (snd (StoreResponseForRequest now rid [v] [plan] c))"
    using assms(1) by (rule cache_inv_Store)
qed

text \<open>
  C8. Round trip. The one state header of a response, when its length fits its plan header, comes
  back unchanged in the next request for the same credential and model, if the response came
  within two hours of its request and the next request within one hour of the response.
\<close>

theorem capture_reuse_roundtrip:
  assumes "cache_inv (pl_cache p)" and "\<not> managed k p" and "validKey k"
    and "EqualFold (ri_ToFormat req1) ''codex''" and "ri_RequestID req1 \<noteq> []" and "request_key req1 = k"
    and "EqualFold (ri_ToFormat req2) ''codex''" and "ri_RequestID req2 \<noteq> []" and "request_key req2 = k"
    and "turnStateValues h = [v]" and "validatePlanAndLength (pl_cache p) [v] (planTypeValue h) = Some v"
    and "t1 < t0 + 2 * Hour" and "t0 \<le> t1" and "t2 < t1 + Hour" and "t1 \<le> t2"
  shows "let p1 = hook_apply ix (t0, HookRequest answer1 req1) p;
             p2 = hook_apply ix (t1, HookResponse (ri_RequestID req1) h body) p1
         in fst (InterceptRequestAfterAuth t2 answer2 req2 p2) = Some [(TurnStateHeader, [v])]"
proof -
  define c1 where "c1 = snd (Lookup t0 k (BindRequest t0 (ri_RequestID req1) k (pl_cache p)))"
  define p1 where "p1 = hook_apply ix (t0, HookRequest answer1 req1) p"
  define p2 where "p2 = hook_apply ix (t1, HookResponse (ri_RequestID req1) h body) p1"
  have inv: "cache_inv (BindRequest t0 (ri_RequestID req1) k (pl_cache p))"
    using assms(1) by (rule cache_inv_BindRequest)
  have p1: "pl_cache p1 = c1"
    using assms(2-6) unfolding p1_def hook_cache by (simp add: Let_def c1_def)
  have c1: "cache_inv c1" unfolding c1_def using inv by (rule cache_inv_Lookup)
  have b: "gm_get (pending c1) (ri_RequestID req1) =
      Some \<lparr>pb_key = k, pb_planType = [], pb_createdAt = t0, pb_expiresAt = t0 + pendingTTL\<rparr>"
    unfolding c1_def using Lookup_pending [OF inv BindRequest_bound [OF assms(5,3)]]
    by (simp add: pendingTTL_def)
  have acc: "acceptedLengths c1 = acceptedLengths (pl_cache p)"
    by (simp add: c1_def Lookup_def BindRequest_def Let_def split: option.split)
  have valid: "validatePlanAndLength c1 [v] (planTypeValue h) = Some v"
    using assms(11) validate_cong [OF acc] by simp
  have p2: "pl_cache p2 = snd (StoreResponseForRequest t1 (ri_RequestID req1) [v] [planTypeValue h] c1)"
    unfolding p2_def hook_cache by (simp add: capture_ops_def assms(10) p1)
  note store = Store_bound [OF c1 assms(5) b _ _ valid, of t1 t2]
  have "cache_view t2 (pl_cache p2) k = Some v" "cache_inv (pl_cache p2)"
    using store assms(12,14) by (simp_all add: p2 pendingTTL_def stateTTL_def)
  moreover have "\<not> managed k p2" using assms(2) unfolding p2_def p1_def managed_hook .
  ultimately have "fst (InterceptRequestAfterAuth t2 answer2 req2 p2) = Some [(TurnStateHeader, [v])]"
    using assms(3,7,8,9)
    by (simp add: request_unfold Let_def case_prod_beta Lookup_view_hit BindRequest_view cache_inv_BindRequest)
  then show ?thesis by (simp add: p1_def p2_def Let_def)
qed

theorem capture_reuse_roundtrip_witness:
  "let p = NewPlugin (NewCache 2 2 []) False;
       p1 = hook_apply 0 (0, HookRequest sample_answer (sample_request ''r1'' ''a'')) p;
       p2 = hook_apply 0 (1, HookResponse ''r1'' [(''x-codex-turn-state'', [sample_state 332]), (''x-codex-plan-type'', ['' Business''])] []) p1
   in fst (InterceptRequestAfterAuth 9 sample_answer (sample_request ''r2'' ''a'') p2) = Some [(TurnStateHeader, [sample_state 332])]"
proof -
  let ?p = "NewPlugin (NewCache 2 2 []) False" and ?r1 = "sample_request ''r1'' ''a''" and ?r2 = "sample_request ''r2'' ''a''"
  let ?h = "[(''x-codex-turn-state'', [sample_state 332]), (''x-codex-plan-type'', ['' Business''])]"
  have inv: "cache_inv (pl_cache ?p)" by (simp add: NewPlugin_def cache_inv_NewCache)
  have c: "\<not> managed (CacheKey ''a'' ''gpt-6'') ?p" "validKey (CacheKey ''a'' ''gpt-6'')"
    "EqualFold (ri_ToFormat ?r1) ''codex''" "ri_RequestID ?r1 \<noteq> []" "request_key ?r1 = CacheKey ''a'' ''gpt-6''"
    "EqualFold (ri_ToFormat ?r2) ''codex''" "ri_RequestID ?r2 \<noteq> []" "request_key ?r2 = CacheKey ''a'' ''gpt-6''"
    "turnStateValues ?h = [sample_state 332]"
    "validatePlanAndLength (pl_cache ?p) [sample_state 332] (planTypeValue ?h) = Some (sample_state 332)"
    "ri_RequestID ?r1 = ''r1''"
    by code_simp+
  from capture_reuse_roundtrip [OF inv c(1-10), of 1 0 9 0 sample_answer "[]" sample_answer] show ?thesis
    by (simp add: Let_def c(11) Hour_def Minute_def Second_def)
qed

section \<open>Completed requests\<close>

text \<open>The hooks that report about a request, other than its interception.\<close>

fun reports_on :: "string \<Rightarrow> hook \<Rightarrow> bool" where
  "reports_on r (HookRequest answer req) = False"
| "reports_on r (HookComplete rid) = (rid = r)"
| "reports_on r (HookResponse rid h body) = (rid = r)"
| "reports_on r (HookChunk req) = (sc_RequestID req = r)"
| "reports_on r (HookSocket visit visit' rid payload) = (rid = r)"

definition inert :: "string \<Rightarrow> Plugin \<Rightarrow> bool" where
  "inert r p \<longleftrightarrow> cache_inv (pl_cache p) \<and> gm_get (pending (pl_cache p)) r = None \<and>
     (case pl_warmer p of None \<Rightarrow> True | Some e \<Rightarrow>
        (case gm_get (en_requests e) r of None \<Rightarrow> True | Some ob \<Rightarrow> ob_observer ob = None))"

lemma obs_apply_inert:
  "(case gm_get (en_requests e) r of None \<Rightarrow> True | Some ob \<Rightarrow> ob_observer ob = None) \<Longrightarrow> obs_apply now r op e = e"
proof (cases "gm_get (en_requests e) r")
  case None
  then show ?thesis by (cases op) (simp_all add: Headers_def Chunk_def EngineJSON_def observe_def Complete_def)
next
  case (Some ob)
  moreover assume "case gm_get (en_requests e) r of None \<Rightarrow> True | Some ob \<Rightarrow> ob_observer ob = None"
  ultimately show ?thesis by (simp add: obs_apply_tombstone)
qed

lemmas inert_hooks =
  obs_apply_inert [where op = "ObsHeaders h" for h, simplified]
  obs_apply_inert [where op = "ObsChunk b" for b, simplified]
  obs_apply_inert [where op = "ObsJSON b" for b, simplified]
  obs_apply_inert [where op = ObsComplete, simplified]

lemma inert_warmer:
  assumes "inert r p" and "reports_on r h"
  shows "pl_warmer (hook_apply ix (now, h) p) = pl_warmer p"
proof (cases "pl_warmer p")
  case None
  with assms show ?thesis
    by (cases h) (auto simp: HandleRequestComplete_def InterceptResponse_def InterceptStreamChunk_def
        ObserveWebSocketResponseEvent_def capture_cache captureWebSocket_cache Let_def)
next
  case (Some e)
  with assms(1) have "case gm_get (en_requests e) r of None \<Rightarrow> True | Some ob \<Rightarrow> ob_observer ob = None"
    by (simp add: inert_def)
  note e = inert_hooks [OF this]
  from assms(2) Some show ?thesis
    by (cases h) (auto simp: HandleRequestComplete_def InterceptResponse_def InterceptStreamChunk_def
        ObserveWebSocketResponseEvent_def capture_cache captureWebSocket_cache Let_def e)
qed

lemma unbound_apply:
  assumes "cache_inv c" and "gm_get (pending c) r = None"
    and "(\<exists>p. op = OpBindPlan r p) \<or> op = OpForgetRequest r \<or> (\<exists>vs p. op = OpStore r vs p)"
  shows "gm_get (pending (cache_apply (now, op) c)) r = None \<and>
    (\<forall>t \<ge> now. cache_view t (cache_apply (now, op) c) = cache_view t c)"
proof -
  have purge: "gm_get (pending (purgeExpiredLocked now c)) r = None"
    using assms by (simp add: purge_get_pending cache_invD)
  show ?thesis
    using assms(2,3)
    by (auto simp: BindPlan_def ForgetRequest_def StoreResponseForRequest_def no_store_def Let_def purge
        cache_view_purge [OF assms(1)])
qed

lemma unbound_run:
  assumes "cache_inv c" and "gm_get (pending c) r = None"
    and "\<And>x. x \<in> set ops \<Longrightarrow> fst x = now \<and>
      ((\<exists>p. snd x = OpBindPlan r p) \<or> snd x = OpForgetRequest r \<or> (\<exists>vs p. snd x = OpStore r vs p))"
  shows "gm_get (pending (cache_run ops c)) r = None \<and>
    (\<forall>t \<ge> now. cache_view t (cache_run ops c) = cache_view t c)"
  using assms
proof (induction ops arbitrary: c)
  case Nil
  then show ?case by simp
next
  case (Cons x ops)
  have "x = (now, snd x)" using Cons.prems(3) [of x] by (simp add: prod_eq_iff)
  moreover from unbound_apply [OF Cons.prems(1,2), of "snd x" now] Cons.prems(3) [of x]
  have "gm_get (pending (cache_apply (now, snd x) c)) r = None \<and>
      (\<forall>t \<ge> now. cache_view t (cache_apply (now, snd x) c) = cache_view t c)" by simp
  ultimately show ?case
    using Cons.IH [of "cache_apply x c"] Cons.prems cache_inv_apply [OF Cons.prems(1), of x] by simp
qed

lemma reports_ops:
  assumes "reports_on r h" and "x \<in> set (hook_ops ix (now, h) p)"
  shows "fst x = now \<and> ((\<exists>p. snd x = OpBindPlan r p) \<or> snd x = OpForgetRequest r \<or> (\<exists>vs p. snd x = OpStore r vs p))"
  using assms by (cases h) (auto simp: capture_ops_def split: if_splits prod.splits)

lemma inert_hook:
  assumes "inert r p" and "reports_on r h"
  shows "inert r (hook_apply ix (now, h) p) \<and>
    (\<forall>t \<ge> now. cache_view t (pl_cache (hook_apply ix (now, h) p)) = cache_view t (pl_cache p)) \<and>
    pl_warmer (hook_apply ix (now, h) p) = pl_warmer p"
proof -
  have c: "cache_inv (pl_cache p)" "gm_get (pending (pl_cache p)) r = None" using assms(1) by (simp_all add: inert_def)
  note run = unbound_run [OF c reports_ops [OF assms(2), of _ ix now p]]
  have w: "pl_warmer (hook_apply ix (now, h) p) = pl_warmer p" by (rule inert_warmer [OF assms])
  show ?thesis
    using run assms(1) by (simp add: inert_def w hook_cache cache_inv_run del: hook_apply.simps hook_ops.simps)
qed

text \<open>
  C28. After the host reported a request as completed, late reports about it are inert until the
  request id is intercepted again: in any number, order and form, from the passive or the
  verified side, they leave every passive value and the whole engine as they were.
\<close>

theorem completed_request_is_inert:
  assumes "cache_inv (pl_cache p)" and "r \<noteq> []" and "list_all (\<lambda>(now, h). reports_on r h \<and> now \<le> t) hooks"
  shows "let p0 = HandleRequestComplete t0 r p; p1 = fold (hook_apply ix) hooks p0
         in pl_warmer p1 = pl_warmer p0 \<and> cache_view t (pl_cache p1) = cache_view t (pl_cache p0) \<and>
            gm_get (pending (pl_cache p1)) r = None"
proof -
  have start: "inert r (HandleRequestComplete t0 r p)"
  proof (cases "pl_warmer p")
    case None
    with assms(1,2) show ?thesis
      by (simp add: inert_def HandleRequestComplete_def cache_inv_ForgetRequest) (simp add: ForgetRequest_def)
  next
    case (Some e)
    have "case gm_get (en_requests (Complete t0 r e)) r of None \<Rightarrow> True | Some ob \<Rightarrow> ob_observer ob = None"
      by (auto simp: Complete_def Let_def split: option.split)
    with Some assms(1,2) show ?thesis
      by (simp add: inert_def HandleRequestComplete_def cache_inv_ForgetRequest) (simp add: ForgetRequest_def)
  qed
  have "inert r q \<Longrightarrow> list_all (\<lambda>(now, h). reports_on r h \<and> now \<le> t) hooks \<Longrightarrow>
      inert r (fold (hook_apply ix) hooks q) \<and> pl_warmer (fold (hook_apply ix) hooks q) = pl_warmer q \<and>
      cache_view t (pl_cache (fold (hook_apply ix) hooks q)) = cache_view t (pl_cache q)" for q
  proof (induction hooks arbitrary: q)
    case Nil
    then show ?case by simp
  next
    case (Cons x hooks)
    obtain now h where x: "x = (now, h)" by fastforce
    with Cons.prems have "reports_on r h" "now \<le> t" by auto
    with inert_hook [OF Cons.prems(1), of h ix now] Cons.IH [of "hook_apply ix x q"] Cons.prems(2)
    show ?case by (simp add: x del: hook_apply.simps)
  qed
  from this [OF start assms(3)] show ?thesis by (simp add: Let_def inert_def)
qed

theorem completed_request_is_inert_witness:
  "cache_view 9 (pl_cache (fold (hook_apply 0)
       [(6, HookResponse ''r2'' [(TurnStateHeader, [sample_state 332])] []), (7, HookComplete ''r2'')]
       (HandleRequestComplete 5 ''r2'' sample_passive))) sample_key2 = None"
proof -
  have inv: "cache_inv (pl_cache sample_passive)"
    by (simp add: sample_passive_def NewPlugin_def sample_cache_inv)
  have "cache_view 9 (pl_cache (HandleRequestComplete 5 ''r2'' sample_passive)) sample_key2 = None" by code_simp
  with completed_request_is_inert [OF inv, of "''r2''" 9
      "[(6, HookResponse ''r2'' [(TurnStateHeader, [sample_state 332])] []), (7, HookComplete ''r2'')]" 5 0]
  show ?thesis by (simp add: Let_def del: hook_apply.simps)
qed

end
