(* ===== verification/Socket_Spec.thy ===== *)
theory Socket_Spec
  imports Interceptor_Spec "HOL-Library.Multiset"
begin

text \<open>
  WebSocket response events: reading the payload does not depend on the order in which Go visits
  its header map as long as no header is given under two spellings, and what such an event
  does to a verified ticket.
\<close>

section \<open>The order of the header map\<close>

definition state_of :: "string \<times> json \<Rightarrow> string \<Rightarrow> string" where
  "state_of kv s = (if EqualFold (fst kv) TurnStateHeader then trimmed_or s (Some (snd kv)) else s)"

definition plan_of :: "string \<times> json \<Rightarrow> string \<Rightarrow> string" where
  "plan_of kv s = (if EqualFold (fst kv) PlanTypeHeader then trimmed_or s (Some (snd kv)) else s)"

lemma fold_ws_header: "fold ws_header xs (s, p) = (fold state_of xs s, fold plan_of xs p)"
proof (induction xs arbitrary: s p)
  case Nil
  then show ?case by simp
next
  case (Cons kv xs)
  obtain k v where kv: "kv = (k, v)" by fastforce
  have "ws_header kv (s, p) = (state_of kv s, plan_of kv p)"
    by (simp add: kv state_of_def plan_of_def)
  with Cons.IH show ?case by simp
qed

lemma fold_filter_id:
  assumes "\<And>x s. \<not> P x \<Longrightarrow> f x s = s"
  shows "fold f xs s = fold f (filter P xs) s"
  by (induction xs arbitrary: s) (simp_all add: assms)

lemma mset_eq_short:
  assumes "mset xs = mset ys" and "length ys \<le> 1"
  shows "xs = ys"
proof (cases ys)
  case Nil
  with assms show ?thesis by simp
next
  case (Cons y zs)
  with assms(2) have "ys = [y]" by simp
  with assms(1) show ?thesis by (cases xs) (auto simp: add_mset_eq_single)
qed

lemma fold_order_free:
  assumes "\<And>x s. \<not> P x \<Longrightarrow> f x s = s" and "mset xs = mset ys" and "length (filter P ys) \<le> 1"
  shows "fold f xs s = fold f ys s"
proof -
  have "mset (filter P xs) = mset (filter P ys)" using assms(2) by simp
  from this assms(3) have "filter P xs = filter P ys" by (rule mset_eq_short)
  then show ?thesis
    using fold_filter_id [of P f xs s] fold_filter_id [of P f ys s] assms(1) by simp
qed

definition single_header :: "string \<Rightarrow> (string, json) gomap \<Rightarrow> bool" where
  "single_header name headers \<longleftrightarrow> length (filter (\<lambda>kv. EqualFold (fst kv) name) headers) \<le> 1"

definition payload_headers :: "string \<Rightarrow> (string, json) gomap" where
  "payload_headers payload =
     (case unmarshal_map payload of
        None \<Rightarrow> []
      | Some root \<Rightarrow> (case gm_get root ''headers'' of Some (JObj headers) \<Rightarrow> as_map headers | _ \<Rightarrow> []))"

text \<open>
  The state and the plan read from a WebSocket payload do not depend on the order in which
  Go visits the payload's header map, provided neither header occurs under two spellings.
\<close>

theorem socket_order_free:
  assumes "mset (visit (payload_headers payload)) = mset (payload_headers payload)"
    and "single_header TurnStateHeader (payload_headers payload)"
    and "single_header PlanTypeHeader (payload_headers payload)"
  shows "parseWebSocketTurnState visit payload = parseWebSocketTurnState (\<lambda>m. m) payload"
proof -
  have "fold state_of (visit (payload_headers payload)) s = fold state_of (payload_headers payload) s" for s
    by (rule fold_order_free [OF _ assms(1), of "\<lambda>kv. EqualFold (fst kv) TurnStateHeader"])
      (use assms(2) in \<open>simp_all add: state_of_def single_header_def\<close>)
  moreover have "fold plan_of (visit (payload_headers payload)) s = fold plan_of (payload_headers payload) s" for s
    by (rule fold_order_free [OF _ assms(1), of "\<lambda>kv. EqualFold (fst kv) PlanTypeHeader"])
      (use assms(3) in \<open>simp_all add: plan_of_def single_header_def\<close>)
  ultimately show ?thesis
    by (auto simp: parseWebSocketTurnState_def payload_headers_def Let_def fold_ws_header
        split: option.split json.split)
qed

text \<open>An event with two headers, visited in both orders.\<close>

definition quoted :: "string \<Rightarrow> string" where
  "quoted s = [CHR 0x22] @ s @ [CHR 0x22]"

definition sample_metadata :: string where
  "sample_metadata = ''{'' @ quoted ''headers'' @ '':{'' @ quoted ''x-codex-turn-state'' @ '':'' @ quoted ''abc'' @ '','' @
     quoted ''x-codex-plan-type'' @ '':'' @ quoted '' team'' @ ''}}''"

theorem socket_order_free_witness:
  "parseWebSocketTurnState rev sample_metadata = (''abc'', ''team'')"
proof -
  have "single_header TurnStateHeader (payload_headers sample_metadata)"
    "single_header PlanTypeHeader (payload_headers sample_metadata)"
    "parseWebSocketTurnState (\<lambda>m. m) sample_metadata = (''abc'', ''team'')"
    by code_simp+
  with socket_order_free [where visit = rev and payload = sample_metadata] show ?thesis by simp
qed

section \<open>Events and verified tickets\<close>

text \<open>
  What a WebSocket event does to verified tickets, exactly. It revokes the ticket of a key if
  and only if its request is still watched and carries that ticket, and the payload either
  holds a state of the 312-byte form or completes with another model. The plan the payload
  names plays no part.
\<close>

theorem socket_event_verdict:
  assumes "rid \<noteq> []" and "payload \<noteq> []" and "pl_warmer p = Some e"
  shows "let p' = snd (ObserveWebSocketResponseEvent visit visit' now rid payload p) in
    live (the (pl_warmer p')) k =
      (if aimed rid k e \<and>
          (length (fst (parseWebSocketTurnState visit payload)) = 312 \<or> verdict rid (ObsJSON payload) e)
       then None else live e k)"
proof -
  let ?h = "[(TurnStateHeader, [fst (parseWebSocketTurnState visit payload)])]"
  have name: "CanonicalHeaderKey TurnStateHeader = StateHeader" "StateHeader \<noteq> ''X-Codex-Plan-Type''"
    by code_simp+
  have bad: "list_ex (bad_header plan) ?h \<longleftrightarrow> length (fst (parseWebSocketTurnState visit payload)) = 312" for plan
    by (simp add: bad_header_def name)
  have headers_as: "Headers now rid ?h e = (case gm_get (en_requests e) rid of None \<Rightarrow> e
      | Some ob \<Rightarrow> if length (fst (parseWebSocketTurnState visit payload)) = 312 then invalidateLocked now ob e else e)"
    unfolding Headers_def headers_exact bad by simp
  have req: "en_requests (Headers now rid ?h e) = en_requests e"
    by (auto simp: headers_as invalidateLocked_def enqueueLocked_def bumpEpochLocked_def
        put_record_def Let_def split: option.split)
  have after: "live (Headers now rid ?h e) k =
      (if aimed rid k e \<and> length (fst (parseWebSocketTurnState visit payload)) = 312 then None else live e k)" for k
    by (auto simp: headers_as live_invalidate aimed_def aims_def split: option.split)
  have "pl_warmer (snd (ObserveWebSocketResponseEvent visit visit' now rid payload p)) =
      Some (EngineJSON now rid payload (Headers now rid ?h e))"
    using assms by (simp add: ObserveWebSocketResponseEvent_def Let_def captureWebSocket_cache)
  then show ?thesis
    by (auto simp: Let_def EngineJSON_def live_observe after aimed_def verdict_def req split: option.splits)
qed

definition sample_mismatch :: string where
  "sample_mismatch = ''{'' @ quoted ''plan_type'' @ '':'' @ quoted ''team'' @ ''}''"

theorem socket_event_verdict_witness:
  "aimed ''r1'' k1 sample_bound \<and> gm_get (en_plans sample_bound) k1 = Some ''pro'' \<and>
   snd (parseWebSocketTurnState rev sample_mismatch) = ''team'' \<and>
   live (the (pl_warmer (snd (ObserveWebSocketResponseEvent rev rev 9 ''r1'' sample_mismatch
     (sample_passive\<lparr>pl_warmer := Some sample_bound\<rparr>))))) k1 = Some sample_ticket"
proof -
  have "aimed ''r1'' k1 sample_bound" "gm_get (en_plans sample_bound) k1 = Some ''pro''"
    "\<not> verdict ''r1'' (ObsJSON sample_mismatch) sample_bound"
    "parseWebSocketTurnState rev sample_mismatch = ([], ''team'')"
    "live sample_bound k1 = Some sample_ticket" "sample_mismatch \<noteq> []"
    by code_simp+
  with socket_event_verdict [of "''r1''" sample_mismatch "sample_passive\<lparr>pl_warmer := Some sample_bound\<rparr>"
      sample_bound rev rev 9 k1]
  show ?thesis by (simp add: Let_def)
qed

end
