(* ===== verification/Marshal.thy ===== *)
theory Marshal
  imports Json "HOL-Library.Word"
begin

text \<open>
  Text encodings of the standard library that the program writes: \<open>json.Marshal\<close> for strings,
  arrays and maps, \<open>hex.EncodeToString\<close> and the decoder \<open>base64.RawURLEncoding\<close>.

  \<open>json_escape\<close> follows Go's string encoder: control characters and the HTML characters are
  escaped, invalid UTF-8 becomes \<open>\ufffd\<close>, U+2028 and U+2029 are escaped, and every other rune
  is copied. On valid UTF-8 the decoder of the theory Json reads the string back, and a
  marshalled string ends where its closing quote is, so marshalled strings and lists of strings
  can be told apart.
\<close>

unbundle bit_operations_syntax

section \<open>Hexadecimal\<close>

definition hexdigit :: "nat \<Rightarrow> char" where
  "hexdigit n = (if n < 10 then char_of (48 + n) else char_of (87 + n))"

definition hex_byte :: "8 word \<Rightarrow> string" where
  "hex_byte w = [hexdigit (unat (drop_bit 4 w)), hexdigit (unat (w AND 0x0F))]"

definition hex_encode :: "8 word list \<Rightarrow> string" where
  "hex_encode ws = concat (map hex_byte ws)"

section \<open>JSON strings\<close>

definition escape_byte :: "char \<Rightarrow> string" where
  "escape_byte c =
     (if c = CHR 0x5C \<or> c = CHR 0x22 then [CHR 0x5C, c]
      else if c = CHR 0x08 then [CHR 0x5C, CHR ''b''] else if c = CHR 0x0C then [CHR 0x5C, CHR ''f'']
      else if c = CHR 0x0A then [CHR 0x5C, CHR ''n''] else if c = CHR 0x0D then [CHR 0x5C, CHR ''r'']
      else if c = CHR 0x09 then [CHR 0x5C, CHR ''t'']
      else if byte c < 32 \<or> c = CHR ''<'' \<or> c = CHR ''>'' \<or> c = CHR ''&''
      then [CHR 0x5C, CHR ''u'', CHR ''0'', CHR ''0'', hexdigit (byte c div 16), hexdigit (byte c mod 16)]
      else [c])"

definition escape_rune :: "string \<Rightarrow> string" where
  "escape_rune r =
     (if r = [CHR 0xE2, CHR 0x80, CHR 0xA8] then CHR 0x5C # ''u2028''
      else if r = [CHR 0xE2, CHR 0x80, CHR 0xA9] then CHR 0x5C # ''u2029'' else r)"

fun json_escape :: "string \<Rightarrow> string" where
  "json_escape [] = []"
| "json_escape (c # cs) =
     (if byte c < 128 then escape_byte c @ json_escape cs
      else if utf8_len (c # cs) = 0 then (CHR 0x5C # ''ufffd'') @ json_escape cs
      else escape_rune (take (utf8_len (c # cs)) (c # cs)) @
           json_escape (drop (utf8_len (c # cs) - 1) cs))"

definition json_quote :: "string \<Rightarrow> string" where
  "json_quote s = [CHR 0x22] @ json_escape s @ [CHR 0x22]"

fun valid_utf8 :: "string \<Rightarrow> bool" where
  "valid_utf8 [] = True"
| "valid_utf8 (c # cs) =
     (if byte c < 128 then valid_utf8 cs
      else utf8_len (c # cs) \<noteq> 0 \<and> valid_utf8 (drop (utf8_len (c # cs) - 1) cs))"

section \<open>JSON values\<close>

fun commas :: "string list \<Rightarrow> string" where
  "commas [] = []"
| "commas [s] = s"
| "commas (s # t # ss) = s @ '','' @ commas (t # ss)"

text \<open>Maps are written with their keys in order.\<close>

fun marshal :: "json \<Rightarrow> string" where
  "marshal JNull = ''null''"
| "marshal (JBool b) = (if b then ''true'' else ''false'')"
| "marshal (JNum s) = s"
| "marshal (JStr s) = json_quote s"
| "marshal (JArr vs) = ''['' @ commas (map marshal vs) @ '']''"
| "marshal (JObj fs) = ''{'' @
     commas (map snd (sort_key fst (map (\<lambda>kv. (fst kv, json_quote (fst kv) @ '':'' @ marshal (snd kv))) fs))) @ ''}''"

section \<open>Base64 without padding, URL alphabet\<close>

definition base64_val :: "char \<Rightarrow> nat option" where
  "base64_val c =
     (if is_upper c then Some (byte c - 65) else if is_lower c then Some (byte c - 71)
      else if is_digit c then Some (byte c + 4) else if c = CHR ''-'' then Some 62
      else if c = CHR ''_'' then Some 63 else None)"

fun base64_groups :: "nat list \<Rightarrow> string option" where
  "base64_groups [] = Some []"
| "base64_groups [a] = None"
| "base64_groups [a, b] = Some [char_of ((a * 64 + b) div 16)]"
| "base64_groups [a, b, c] =
     Some (let v = (a * 64 + b) * 64 + c in [char_of (v div 1024), char_of (v div 4 mod 256)])"
| "base64_groups (a # b # c # d # r) =
     (let v = ((a * 64 + b) * 64 + c) * 64 + d in
      map_option (\<lambda>s. [char_of (v div 65536), char_of (v div 256 mod 256), char_of (v mod 256)] @ s)
        (base64_groups r))"

text \<open>The decoder skips line ends, and does not check the unused bits of the last group.\<close>

definition RawURLDecode :: "string \<Rightarrow> string option" where
  "RawURLDecode s =
     (let vs = map base64_val (filter (\<lambda>c. c \<noteq> CHR 0x0A \<and> c \<noteq> CHR 0x0D) s) in
      if None \<in> set vs then None else base64_groups (map the vs))"

section \<open>Reading back\<close>

lemma hexdigit_inj: "m < 16 \<Longrightarrow> n < 16 \<Longrightarrow> hexdigit m = hexdigit n \<longleftrightarrow> m = n"
  by (auto simp: hexdigit_def char_of_eq_iff split: if_splits) (simp_all add: take_bit_eq_mod)

lemma byte_hexdigit: "n < 16 \<Longrightarrow> byte (hexdigit n) = (if n < 10 then 48 + n else 87 + n)"
  by (simp add: hexdigit_def byte_def)

lemma hex_val_hexdigit [simp]: "n < 16 \<Longrightarrow> hex_val (hexdigit n) = n"
  by (simp add: hex_val_def is_digit_def is_lower_def byte_hexdigit)

lemma byte_bound: "byte c < 256"
  by (simp add: byte_def)

lemma char_of_byte [simp]: "char_of (byte c) = c"
  by (simp add: byte_def)

lemma unquote_unicode:
  assumes "hex4 [a, b, x, y] = n" and "\<not> (55296 \<le> n \<and> n < 57344)"
  shows "unquote (CHR 0x5C # CHR ''u'' # a # b # x # y # r) = utf8_encode n @ unquote r"
  using assms by (auto simp: hex4_def Let_def)

lemma unquote_short:
  "d \<noteq> CHR ''u'' \<Longrightarrow> unquote (CHR 0x5C # d # r) = unescape d # unquote r"
  by simp

lemma unquote_plain:
  "byte c < 128 \<Longrightarrow> c \<noteq> CHR 0x5C \<Longrightarrow> unquote (c # r) = c # unquote r"
  by simp

definition short_escaped :: "char list" where
  "short_escaped = [CHR 0x5C, CHR 0x22, CHR 0x08, CHR 0x0C, CHR 0x0A, CHR 0x0D, CHR 0x09]"

lemma escape_byte_cases:
  obtains (short) d where "c \<in> set short_escaped" "escape_byte c = [CHR 0x5C, d]" "d \<noteq> CHR ''u''" "unescape d = c"
  | (unicode) "escape_byte c = [CHR 0x5C, CHR ''u'', CHR ''0'', CHR ''0'', hexdigit (byte c div 16), hexdigit (byte c mod 16)]"
  | (plain) "escape_byte c = [c]" "c \<noteq> CHR 0x5C" "c \<noteq> CHR 0x22"
proof (cases "c \<in> set short_escaped")
  case True
  have "\<exists>d. escape_byte c = [CHR 0x5C, d] \<and> d \<noteq> CHR ''u'' \<and> unescape d = c"
    using True unfolding short_escaped_def list.set insert_iff
    by (elim disjE) (simp_all add: escape_byte_def unescape_def)
  with True show ?thesis using short by blast
next
  case False
  then show ?thesis
    using unicode plain unfolding short_escaped_def escape_byte_def
    by (cases "byte c < 32 \<or> c = CHR ''<'' \<or> c = CHR ''>'' \<or> c = CHR ''&''") simp_all
qed

lemma hex4_byte:
  "hex4 [CHR ''0'', CHR ''0'', hexdigit (byte c div 16), hexdigit (byte c mod 16)] = byte c"
proof -
  have "hex_val (hexdigit (byte c div 16)) = byte c div 16" "hex_val (hexdigit (byte c mod 16)) = byte c mod 16"
    using byte_bound [of c] by (simp_all add: hex_val_hexdigit)
  moreover have "hex_val (CHR ''0'') = 0" by (simp add: hex_val_def is_digit_def byte_def)
  ultimately show ?thesis by (simp add: hex4_def)
qed

lemma unquote_escape_byte:
  assumes "byte c < 128"
  shows "unquote (escape_byte c @ r) = c # unquote r"
proof (cases c rule: escape_byte_cases)
  case (short d)
  then show ?thesis by (simp add: unquote_short del: unquote.simps)
next
  case unicode
  have "utf8_encode (byte c) = [c]" using assms by (simp add: utf8_encode_def)
  with unicode assms unquote_unicode [OF hex4_byte, of c r] show ?thesis
    by (simp del: unquote.simps)
next
  case plain
  with assms show ?thesis by (simp add: unquote_plain del: unquote.simps)
qed

lemma utf8_len2: "194 \<le> byte a \<Longrightarrow> byte a \<le> 223 \<Longrightarrow> cont 128 191 b \<Longrightarrow> utf8_len (a # b # r) = 2"
  by (simp add: utf8_len_def)

lemma utf8_len3:
  "224 \<le> byte a \<Longrightarrow> byte a \<le> 239 \<Longrightarrow>
   cont (if byte a = 224 then 160 else 128) (if byte a = 237 then 159 else 191) b \<Longrightarrow> cont 128 191 c \<Longrightarrow>
   utf8_len (a # b # c # r) = 3"
  unfolding utf8_len_def Let_def list.case by simp

lemma utf8_len4:
  "240 \<le> byte a \<Longrightarrow> byte a \<le> 244 \<Longrightarrow>
   cont (if byte a = 240 then 144 else 128) (if byte a = 244 then 143 else 191) b \<Longrightarrow> cont 128 191 c \<Longrightarrow>
   cont 128 191 d \<Longrightarrow> utf8_len (a # b # c # d # r) = 4"
  unfolding utf8_len_def Let_def list.case by simp

lemma utf8_len_cases:
  assumes "utf8_len s \<noteq> 0"
  obtains (two) a b r where "s = a # b # r" "194 \<le> byte a" "byte a \<le> 223" "cont 128 191 b" "utf8_len s = 2"
  | (three) a b c r where "s = a # b # c # r" "224 \<le> byte a" "byte a \<le> 239"
      "cont (if byte a = 224 then 160 else 128) (if byte a = 237 then 159 else 191) b" "cont 128 191 c" "utf8_len s = 3"
  | (four) a b c d r where "s = a # b # c # d # r" "240 \<le> byte a" "byte a \<le> 244"
      "cont (if byte a = 240 then 144 else 128) (if byte a = 244 then 143 else 191) b" "cont 128 191 c" "cont 128 191 d"
      "utf8_len s = 4"
proof -
  obtain a b t where s: "s = a # b # t"
    using assms by (auto simp: utf8_len_def split: list.splits)
  show ?thesis
  proof (cases "194 \<le> byte a \<and> byte a \<le> 223")
    case True
    with assms s have "cont 128 191 b" by (simp add: utf8_len_def split: if_splits)
    with True s show ?thesis using two [of a b t] utf8_len2 [of a b t] by simp
  next
    case not2: False
    show ?thesis
    proof (cases "224 \<le> byte a \<and> byte a \<le> 239")
      case True
      obtain c r where t: "t = c # r"
        and "cont (if byte a = 224 then 160 else 128) (if byte a = 237 then 159 else 191) b" "cont 128 191 c"
        using assms not2 True unfolding s utf8_len_def Let_def list.case by (cases t) (simp_all split: if_splits)
      with True s show ?thesis using three [of a b c r] utf8_len3 [of a b c r] by simp
    next
      case False
      then have range: "240 \<le> byte a \<and> byte a \<le> 244"
        using assms not2 unfolding s utf8_len_def Let_def list.case by (simp split: if_splits)
      obtain c u where t: "t = c # u"
        using assms not2 False range unfolding s utf8_len_def Let_def list.case by (cases t) simp_all
      obtain d r where u: "u = d # r"
        and "cont (if byte a = 240 then 144 else 128) (if byte a = 244 then 143 else 191) b" "cont 128 191 c" "cont 128 191 d"
        using assms not2 False range unfolding s t utf8_len_def Let_def list.case by (cases u) (simp_all split: if_splits)
      with range s t show ?thesis using four [of a b c d r] utf8_len4 [of a b c d r] by simp
    qed
  qed
qed

lemma utf8_len_append:
  assumes "utf8_len s \<noteq> 0"
  shows "utf8_len (take (utf8_len s) s @ r) = utf8_len s"
  using assms
proof (cases s rule: utf8_len_cases)
  case (two a b q)
  then show ?thesis by (simp add: utf8_len2)
next
  case (three a b c q)
  then show ?thesis by (simp add: utf8_len3)
next
  case (four a b c d q)
  then show ?thesis by (simp add: utf8_len4)
qed

lemma utf8_len_bound: "utf8_len s \<noteq> 0 \<Longrightarrow> 2 \<le> utf8_len s \<and> utf8_len s \<le> length s"
  by (cases s rule: utf8_len_cases) simp_all

lemma unquote_rune:
  assumes "128 \<le> byte c" and "utf8_len (c # cs) \<noteq> 0"
  shows "unquote (take (utf8_len (c # cs)) (c # cs) @ r) = take (utf8_len (c # cs)) (c # cs) @ unquote r"
proof -
  define n where "n = utf8_len (c # cs)"
  have n: "2 \<le> n" "n \<le> length (c # cs)" using assms utf8_len_bound [of "c # cs"] by (simp_all add: n_def)
  then obtain t where t: "take n (c # cs) @ r = c # t @ r" "t = take (n - 1) cs" "length t = n - 1"
    by (cases n) auto
  have len: "utf8_len (c # t @ r) = n"
    using utf8_len_append [of "c # cs" r] assms t n_def by simp
  have "unquote (c # t @ r) = take n (c # t @ r) @ unquote (drop (n - 1) (t @ r))"
    using assms n len by (auto simp: byte_def)
  also have "\<dots> = take n (c # cs) @ unquote r"
    using t n by (cases n) simp_all
  finally show ?thesis using t by (simp add: n_def)
qed

lemma unquote_escape_rune:
  assumes "128 \<le> byte c" and "utf8_len (c # cs) \<noteq> 0"
  shows "unquote (escape_rune (take (utf8_len (c # cs)) (c # cs)) @ r) =
    take (utf8_len (c # cs)) (c # cs) @ unquote r"
proof -
  have hex: "hex4 ''2028'' = 8232" "hex4 ''2029'' = 8233"
    by (simp_all add: hex4_def hex_val_def is_digit_def byte_def)
  have enc: "utf8_encode 8232 = [CHR 0xE2, CHR 0x80, CHR 0xA8]" "utf8_encode 8233 = [CHR 0xE2, CHR 0x80, CHR 0xA9]"
    by (simp_all add: utf8_encode_def char_of_eq_iff)
  have esc: "unquote ((CHR 0x5C # ''u2028'') @ r) = [CHR 0xE2, CHR 0x80, CHR 0xA8] @ unquote r"
    "unquote ((CHR 0x5C # ''u2029'') @ r) = [CHR 0xE2, CHR 0x80, CHR 0xA9] @ unquote r"
    using unquote_unicode [OF hex(1), of r] unquote_unicode [OF hex(2), of r] enc
    by (simp_all only: append.simps) (simp_all del: unquote.simps)
  consider "take (utf8_len (c # cs)) (c # cs) = [CHR 0xE2, CHR 0x80, CHR 0xA8]"
    | "take (utf8_len (c # cs)) (c # cs) = [CHR 0xE2, CHR 0x80, CHR 0xA9]"
    | "escape_rune (take (utf8_len (c # cs)) (c # cs)) = take (utf8_len (c # cs)) (c # cs)"
    unfolding escape_rune_def by argo
  then show ?thesis
  proof cases
    case 1
    then show ?thesis by (simp only: escape_rune_def esc if_True simp_thms)
  next
    case 2
    have "[CHR 0xE2, CHR 0x80, CHR 0xA9] \<noteq> [CHR 0xE2, CHR 0x80, CHR 0xA8]" by simp
    with 2 show ?thesis by (simp only: escape_rune_def esc if_True if_False simp_thms)
  next
    case 3
    with unquote_rune [OF assms, of r] show ?thesis by (simp only:)
  qed
qed

lemma unquote_json_escape: "valid_utf8 s \<Longrightarrow> unquote (json_escape s) = s"
proof (induction s rule: json_escape.induct)
  case 1
  then show ?case by simp
next
  case (2 c cs)
  show ?case
  proof (cases "byte c < 128")
    case True
    with 2 show ?thesis by (simp add: unquote_escape_byte del: unquote.simps)
  next
    case False
    with 2 have "unquote (json_escape (drop (utf8_len (c # cs) - 1) cs)) = drop (utf8_len (c # cs) - 1) cs"
      and ok: "utf8_len (c # cs) \<noteq> 0" by auto
    moreover have "take (utf8_len (c # cs)) (c # cs) @ drop (utf8_len (c # cs) - 1) cs = c # cs"
      using ok by (cases "utf8_len (c # cs)") simp_all
    ultimately show ?thesis
      using False unquote_escape_rune [of c cs] by (simp del: unquote.simps)
  qed
qed

section \<open>Where a string ends\<close>

text \<open>The text up to the first quote that is not escaped, and what follows it.\<close>

definition prefixed :: "string \<Rightarrow> (string \<times> string) option \<Rightarrow> (string \<times> string) option" where
  "prefixed p x = map_option (\<lambda>y. (p @ fst y, snd y)) x"

lemma prefixed_simps [simp]:
  "prefixed [] x = x" "prefixed p (prefixed q x) = prefixed (p @ q) x"
  "prefixed p None = None" "prefixed p (Some (a, r)) = Some (p @ a, r)"
  by (cases x; simp add: prefixed_def)+

fun split_quote :: "string \<Rightarrow> (string \<times> string) option" where
  "split_quote [] = None"
| "split_quote (c # cs) =
     (if c = CHR 0x22 then Some ([], cs)
      else if c = CHR 0x5C then (case cs of [] \<Rightarrow> None | d # ds \<Rightarrow> prefixed [c, d] (split_quote ds))
      else prefixed [c] (split_quote cs))"

lemma split_quote_plain:
  "CHR 0x22 \<notin> set s \<Longrightarrow> CHR 0x5C \<notin> set s \<Longrightarrow> split_quote (s @ t) = prefixed s (split_quote t)"
  by (induction s) auto

lemma split_quote_escaped:
  "CHR 0x22 \<notin> set s \<Longrightarrow> CHR 0x5C \<notin> set s \<Longrightarrow>
   split_quote (CHR 0x5C # d # s @ t) = prefixed (CHR 0x5C # d # s) (split_quote t)"
  by (simp add: split_quote_plain)

lemma hexdigit_plain: "n < 16 \<Longrightarrow> hexdigit n \<noteq> CHR 0x22 \<and> hexdigit n \<noteq> CHR 0x5C"
  using byte_hexdigit [of n] by (auto simp: byte_def split: if_splits)

lemma split_quote_unicode:
  assumes "m < 16" and "n < 16"
  shows "split_quote ([CHR 0x5C, CHR ''u'', CHR ''0'', CHR ''0'', hexdigit m, hexdigit n] @ t) =
    prefixed [CHR 0x5C, CHR ''u'', CHR ''0'', CHR ''0'', hexdigit m, hexdigit n] (split_quote t)"
proof -
  have "CHR 0x22 \<notin> set [CHR ''0'', CHR ''0'', hexdigit m, hexdigit n]"
    "CHR 0x5C \<notin> set [CHR ''0'', CHR ''0'', hexdigit m, hexdigit n]"
    using hexdigit_plain [OF assms(1)] hexdigit_plain [OF assms(2)] by auto
  from split_quote_escaped [OF this, of "CHR ''u''" t] show ?thesis
    by (simp only: append.simps)
qed

lemma split_quote_escape_byte: "split_quote (escape_byte c @ t) = prefixed (escape_byte c) (split_quote t)"
proof (cases c rule: escape_byte_cases)
  case (short d)
  then show ?thesis using split_quote_escaped [of "[]" d t] by simp
next
  case unicode
  moreover have "byte c div 16 < 16" using byte_bound [of c] by simp
  ultimately show ?thesis by (simp only: split_quote_unicode mod_less_divisor zero_less_numeral)
next
  case plain
  then show ?thesis by simp
qed

lemma utf8_rune_high:
  assumes "128 \<le> byte c" and "utf8_len (c # cs) \<noteq> 0" and "d \<in> set (take (utf8_len (c # cs)) (c # cs))"
  shows "128 \<le> byte d"
  using assms(2)
proof (cases "c # cs" rule: utf8_len_cases)
  case (two a b q)
  with assms(3) show ?thesis by (auto simp: cont_def)
next
  case (three a b e q)
  with assms(3) show ?thesis by (auto simp: cont_def split: if_splits)
next
  case (four a b e f q)
  with assms(3) show ?thesis by (auto simp: cont_def split: if_splits)
qed

lemma split_quote_escape_rune:
  assumes "128 \<le> byte c" and "utf8_len (c # cs) \<noteq> 0"
  shows "split_quote (escape_rune (take (utf8_len (c # cs)) (c # cs)) @ t) =
    prefixed (escape_rune (take (utf8_len (c # cs)) (c # cs))) (split_quote t)"
proof -
  have "CHR 0x22 \<notin> set (take (utf8_len (c # cs)) (c # cs))" "CHR 0x5C \<notin> set (take (utf8_len (c # cs)) (c # cs))"
    using utf8_rune_high [OF assms, of "CHR 0x22"] utf8_rune_high [OF assms, of "CHR 0x5C"]
    by (auto simp: byte_def)
  then show ?thesis
    using split_quote_plain [of "take (utf8_len (c # cs)) (c # cs)" t]
      split_quote_escaped [of "''2028''" "CHR ''u''" t] split_quote_escaped [of "''2029''" "CHR ''u''" t]
    by (simp add: escape_rune_def del: split_quote.simps take_Suc_Cons)
qed

lemma split_quote_json_escape: "split_quote (json_escape s @ [CHR 0x22] @ r) = Some (json_escape s, r)"
proof (induction s rule: json_escape.induct)
  case 1
  then show ?case by simp
next
  case (2 c cs)
  consider "byte c < 128" | "128 \<le> byte c" "utf8_len (c # cs) = 0" | "128 \<le> byte c" "utf8_len (c # cs) \<noteq> 0"
    by linarith
  then show ?case
  proof cases
    case 1
    with 2 show ?thesis by (simp add: split_quote_escape_byte del: split_quote.simps)
  next
    case rune: 2
    with 2 split_quote_escaped [of "''fffd''" "CHR ''u''" "json_escape cs @ [CHR 0x22] @ r"] show ?thesis
      by (simp del: split_quote.simps)
  next
    case 3
    with 2 split_quote_escape_rune [of c cs] show ?thesis by (simp del: split_quote.simps)
  qed
qed

lemma json_quote_split:
  assumes "json_quote s @ r = json_quote t @ r'" and "valid_utf8 s" and "valid_utf8 t"
  shows "s = t \<and> r = r'"
proof -
  have "json_escape s @ [CHR 0x22] @ r = json_escape t @ [CHR 0x22] @ r'"
    using assms(1) by (simp add: json_quote_def)
  then have "Some (json_escape s, r) = Some (json_escape t, r')"
    by (metis split_quote_json_escape)
  then have "json_escape s = json_escape t" and r: "r = r'" by blast+
  then have "s = t"
    by (metis unquote_json_escape assms(2,3))
  with r show ?thesis by blast
qed

end
