(* ===== verification/Transport.thy ===== *)
theory Transport
  imports Go_Text
begin

text \<open>
  The probe transport, \<open>internal/probe/transport.go\<close>. The libraries behind it (the proxy
  dialer, TLS, HTTP/2) are not part of the repository: what each call returns is an argument.
  What is modelled is the control flow around them: which destination is allowed, in which
  order the connection is set up, and which close calls each outcome makes.

  \<open>BuildDialer\<close> is the SDK's function: \<open>None\<close> is an error, \<open>Some None\<close> a nil dialer, and
  \<open>Some (Some b)\<close> a dialer that can (\<open>b\<close>) or cannot dial with a context.
\<close>

section \<open>The route\<close>

definition newTransport :: "(string \<Rightarrow> bool option option) \<Rightarrow> string \<Rightarrow> string option" where
  "newTransport BuildDialer route =
     (case BuildDialer route of
        None \<Rightarrow> Some ''invalid probe proxy''
      | Some None \<Rightarrow> Some ''probe route must be explicit''
      | Some (Some ctxDialer) \<Rightarrow> if ctxDialer then None else Some ''proxy lacks context dialing'')"

section \<open>One round trip\<close>

record URL =
  u_Scheme :: string
  u_Hostname :: string
  u_Port :: string

text \<open>
  What the network does: the calls in the order in which the code makes them. \<open>nw_response\<close>
  is the outcome of the HTTP/2 round trip: \<open>None\<close> is an error, \<open>Some b\<close> a response with or
  without a body.
\<close>

record network =
  nw_dial :: bool
  nw_handshake :: bool
  nw_protocol :: string
  nw_client_conn :: bool
  nw_response :: "bool option"

text \<open>
  The calls on the connection; a dial has its address and whether it succeeded.
\<close>

datatype call = Dial string bool | CloseConn | Handshake string | CloseTLS | NewH2 | SendRequest | CloseH2

definition RoundTrip :: "network \<Rightarrow> URL \<Rightarrow> (string + unit) \<times> call list" where
  "RoundTrip nw u =
     (if u_Scheme u \<noteq> ''https'' \<or> u_Hostname u \<noteq> ''chatgpt.com'' \<or> u_Port u \<noteq> []
      then (Inl ''probe endpoint not allowed'', [])
      else
        let calls = [Dial (u_Hostname u @ '':443'') (nw_dial nw)] in
        if \<not> nw_dial nw then (Inl ''probe proxy dial failed'', calls)
        else
          let calls = calls @ [Handshake (u_Hostname u)] in
          if \<not> nw_handshake nw then (Inl ''probe TLS handshake failed'', calls @ [CloseConn])
          else if nw_protocol nw \<noteq> ''h2'' then (Inl ''probe requires HTTP/2'', calls @ [CloseTLS])
          else
            let calls = calls @ [NewH2] in
            if \<not> nw_client_conn nw then (Inl ''probe HTTP/2 setup failed'', calls @ [CloseTLS])
            else
              let calls = calls @ [SendRequest] in
              case nw_response nw of
                None \<Rightarrow> (Inl ''probe HTTP/2 request failed'', calls @ [CloseH2])
              | Some False \<Rightarrow> (Inl ''empty probe response'', calls @ [CloseH2])
              | Some True \<Rightarrow> (Inr (), calls))"

section \<open>The body of a response\<close>

text \<open>
  \<open>ob_once\<close> is the \<open>sync.Once\<close>; \<open>ob_stop\<close> says whether a cancellation hook is set. Closing
  returns the close calls it makes; the errors of the two closes are arguments.
\<close>

record ownedBody =
  ob_once :: bool
  ob_stop :: bool
  ob_err :: "string option"

datatype body_call = StopHook | CloseBody | CloseConnection

definition ownedBodyClose ::
  "string option \<Rightarrow> string option \<Rightarrow> ownedBody \<Rightarrow> string option \<times> body_call list \<times> ownedBody" where
  "ownedBodyClose body_err conn_err b =
     (if ob_once b then (ob_err b, [], b)
      else
        let err = (if body_err = None then conn_err else body_err)
        in (err, (if ob_stop b then [StopHook] else []) @ [CloseBody, CloseConnection],
            b\<lparr>ob_once := True, ob_err := err\<rparr>))"

text \<open>
  The body in use. \<open>lb_armed\<close>: the hook that closes the connection when the request's context ends is
  set and has not run. The two things that can happen are the end of the context and a \<open>Close\<close>
  of the reader, whose inner calls return the given errors.
\<close>

record live_body =
  lb_owned :: ownedBody
  lb_armed :: bool

datatype body_event = ContextDone | CloseCalled "string option" "string option"

definition live_start :: live_body where
  "live_start = \<lparr>lb_owned = \<lparr>ob_once = False, ob_stop = True, ob_err = None\<rparr>, lb_armed = True\<rparr>"

definition body_step :: "body_event \<Rightarrow> live_body \<Rightarrow> body_call list \<times> live_body" where
  "body_step ev lb =
     (case ev of
        ContextDone \<Rightarrow> (if lb_armed lb then ([CloseConnection], lb\<lparr>lb_armed := False\<rparr>) else ([], lb))
      | CloseCalled be ce \<Rightarrow>
          let (err, calls, b) = ownedBodyClose be ce (lb_owned lb)
          in (calls, lb\<lparr>lb_owned := b, lb_armed := lb_armed lb \<and> StopHook \<notin> set calls\<rparr>))"

fun body_run :: "body_event list \<Rightarrow> live_body \<Rightarrow> body_call list \<times> live_body" where
  "body_run [] lb = ([], lb)"
| "body_run (ev # evs) lb =
     (let (cs, lb) = body_step ev lb; (cs', lb) = body_run evs lb in (cs @ cs', lb))"

definition is_close :: "body_event \<Rightarrow> bool" where
  "is_close ev \<longleftrightarrow> ev \<noteq> ContextDone"

lemma body_run_closed:
  "ob_once (lb_owned lb) \<Longrightarrow> \<not> lb_armed lb \<Longrightarrow> body_run evs lb = ([], lb)"
proof (induction evs)
  case (Cons ev evs)
  have "body_step ev lb = ([], lb)"
    using Cons.prems by (cases ev) (simp_all add: body_step_def ownedBodyClose_def)
  with Cons show ?case by simp
qed simp

lemma body_run_cancelled:
  assumes "lb = \<lparr>lb_owned = \<lparr>ob_once = False, ob_stop = True, ob_err = None\<rparr>, lb_armed = False\<rparr>"
  shows "fst (body_run evs lb) = (if list_ex is_close evs then [StopHook, CloseBody, CloseConnection] else [])"
proof (induction evs)
  case (Cons ev evs)
  show ?case
  proof (cases ev)
    case ContextDone
    with Cons assms show ?thesis by (simp add: body_step_def is_close_def split: prod.split)
  next
    case (CloseCalled be ce)
    then show ?thesis
      by (simp add: assms body_step_def is_close_def ownedBodyClose_def Let_def body_run_closed)
  qed
qed simp

text \<open>The calls of a whole life of a body.\<close>

lemma body_run_start:
  "fst (body_run evs live_start) =
     (case evs of
        [] \<Rightarrow> []
      | ContextDone # evs \<Rightarrow> CloseConnection # (if list_ex is_close evs then [StopHook, CloseBody, CloseConnection] else [])
      | CloseCalled be ce # evs \<Rightarrow> [StopHook, CloseBody, CloseConnection])"
proof (cases evs)
  case (Cons ev evs')
  show ?thesis
  proof (cases ev)
    case ContextDone
    with Cons show ?thesis
      using body_run_cancelled [OF refl, of evs'] by (auto simp: body_step_def live_start_def split: prod.splits)
  next
    case (CloseCalled be ce)
    with Cons show ?thesis
      by (simp add: body_step_def live_start_def ownedBodyClose_def Let_def body_run_closed)
  qed
qed simp

section \<open>The socket\<close>

text \<open>
  The TLS connection wraps the dialled one and the HTTP/2 connection the TLS one, so each of
  the three close calls closes the one socket there is. \<open>sockets\<close> runs the calls on the number
  of open sockets; closing with none open is \<open>None\<close>.
\<close>

fun sockets :: "call list \<Rightarrow> nat \<Rightarrow> nat option" where
  "sockets [] n = Some n"
| "sockets (Dial a ok # cs) n = sockets cs (if ok then n + 1 else n)"
| "sockets (c # cs) n =
     (if c \<in> {CloseConn, CloseTLS, CloseH2} then if n = 0 then None else sockets cs (n - 1) else sockets cs n)"

text \<open>
  A round trip leaves one socket open exactly when it returns a response, and none when it
  returns an error; it never closes a socket twice. The socket of a response is closed by the
  first \<open>Close\<close> of its body, and by no later one, and every \<open>Close\<close> reports the same error.
  The only destination ever dialled is \<open>chatgpt.com:443\<close>, as a host name.
\<close>

theorem round_trip_owns_socket:
  "sockets (snd (RoundTrip nw u)) 0 = Some (if fst (RoundTrip nw u) = Inr () then 1 else 0) \<and>
   {a. \<exists>ok. Dial a ok \<in> set (snd (RoundTrip nw u))} \<subseteq> {''chatgpt.com:443''} \<and>
   (fst (RoundTrip nw u) = Inr () \<longrightarrow> u_Scheme u = ''https'' \<and> nw_protocol nw = ''h2'') \<and>
   (let b = \<lparr>ob_once = False, ob_stop = True, ob_err = None\<rparr>;
        (e, cs, b') = ownedBodyClose be ce b;
        (e', cs', b'') = ownedBodyClose be' ce' b'
    in cs = [StopHook, CloseBody, CloseConnection] \<and> cs' = [] \<and> e' = e \<and> b'' = b')"
proof -
  have "sockets (snd (RoundTrip nw u)) 0 = Some (if fst (RoundTrip nw u) = Inr () then 1 else 0) \<and>
    {a. \<exists>ok. Dial a ok \<in> set (snd (RoundTrip nw u))} \<subseteq> {''chatgpt.com:443''} \<and>
    (fst (RoundTrip nw u) = Inr () \<longrightarrow> u_Scheme u = ''https'' \<and> nw_protocol nw = ''h2'')"
    by (auto simp: RoundTrip_def Let_def split: option.split bool.split)
  moreover have "let b = \<lparr>ob_once = False, ob_stop = True, ob_err = None\<rparr>;
        (e, cs, b') = ownedBodyClose be ce b;
        (e', cs', b'') = ownedBodyClose be' ce' b'
    in cs = [StopHook, CloseBody, CloseConnection] \<and> cs' = [] \<and> e' = e \<and> b'' = b'"
    by (simp add: ownedBodyClose_def Let_def)
  ultimately show ?thesis by blast
qed

theorem round_trip_owns_socket_witness:
  "fst (RoundTrip \<lparr>nw_dial = True, nw_handshake = True, nw_protocol = ''h2'', nw_client_conn = True,
      nw_response = Some True\<rparr> \<lparr>u_Scheme = ''https'', u_Hostname = ''chatgpt.com'', u_Port = []\<rparr>) = Inr () \<and>
   sockets (snd (RoundTrip \<lparr>nw_dial = True, nw_handshake = True, nw_protocol = ''h2'', nw_client_conn = True,
      nw_response = Some True\<rparr> \<lparr>u_Scheme = ''https'', u_Hostname = ''chatgpt.com'', u_Port = []\<rparr>)) 0 = Some 1"
  using round_trip_owns_socket [of "\<lparr>nw_dial = True, nw_handshake = True, nw_protocol = ''h2'',
      nw_client_conn = True, nw_response = Some True\<rparr>" "\<lparr>u_Scheme = ''https'', u_Hostname = ''chatgpt.com'', u_Port = []\<rparr>"]
  by (simp add: RoundTrip_def)

text \<open>
  A connection does not outlive its request. Once the context of the request has ended or the
  reader has closed the body, whichever comes first and however often either happens, the
  connection has been closed; the body itself is closed at most once, exactly if the reader
  closed it, and after a \<open>Close\<close> of the reader the hook of the context never runs.
\<close>

theorem body_ends_connection:
  "(CloseConnection \<in> set (fst (body_run evs live_start)) \<longleftrightarrow> evs \<noteq> []) \<and>
   count_list (fst (body_run evs live_start)) CloseBody = (if list_ex is_close evs then 1 else 0) \<and>
   count_list (fst (body_run (CloseCalled be ce # evs) live_start)) CloseConnection = 1"
  unfolding body_run_start by (auto simp: is_close_def split: list.splits body_event.splits)

theorem body_ends_connection_witness:
  "CloseConnection \<in> set (fst (body_run [ContextDone, CloseCalled None None] live_start))"
  using body_ends_connection [of "[ContextDone, CloseCalled None None]"] by blast

end
