(* ===== verification/Yaml.thy ===== *)
theory Yaml
  imports Prelude
begin

text \<open>
  The key check of the prewarm section, \<open>internal/prewarm/config_yaml.go\<close>. The document is
  parsed by \<open>gopkg.in/yaml.v3\<close>; what the code walks are its nodes. Nodes are shared and may
  form cycles through aliases, so they live in a store: a node is an address, \<open>nil\<close> is an
  address that the store does not hold, and the map \<open>seen\<close> is keyed by addresses as in the code.

  The recursive closure \<open>check\<close> is written with an explicit number of nested calls; \<open>None\<close>
  means that they were used up. The theorem \<open>check_total\<close> shows that one call per stored node
  is always enough.
\<close>

datatype yaml_kind = DocumentNode | SequenceNode | MappingNode | ScalarNode | AliasNode

record node =
  nd_Kind :: yaml_kind
  nd_Value :: string
  nd_Alias :: nat
  nd_Content :: "nat list"

type_synonym nodes = "nat \<Rightarrow> node option"

definition known_keys :: "string list" where
  "known_keys = [''enabled'', ''models'', ''max_probes_per_hour'', ''proxies'', ''accounts'', ''proxy_file'',
     ''host_config_file'', ''workers'', ''max_attempts'', ''attempt_interval_seconds'', ''cooldown_seconds'',
     ''ttl_seconds'', ''refresh_before_seconds'', ''probe_timeout_seconds'', ''max_pending'']"

type_synonym walk = "(string + nat list) option"

text \<open>
  \<open>Some (Inl e)\<close> is the error \<open>e\<close>, \<open>Some (Inr seen)\<close> the nodes seen after a walk without
  error. A key that the store does not hold, or a key without a value, is a run-time panic in
  Go (a nil pointer or an index out of range); it is the error \<open>panic\<close> here.
\<close>

definition panic :: string where "panic = ''panic''"

fun check_each :: "(nat \<Rightarrow> nat list \<Rightarrow> walk) \<Rightarrow> nat list \<Rightarrow> nat list \<Rightarrow> walk" where
  "check_each chk [] seen = Some (Inr seen)"
| "check_each chk (c # cs) seen =
     (case chk c seen of
        Some (Inr seen) \<Rightarrow> check_each chk cs seen
      | r \<Rightarrow> r)"

fun check_keys :: "nodes \<Rightarrow> (nat \<Rightarrow> nat list \<Rightarrow> walk) \<Rightarrow> nat list \<Rightarrow> nat list \<Rightarrow> walk" where
  "check_keys st chk [] seen = Some (Inr seen)"
| "check_keys st chk (k # vs) seen =
     (case st k of
        None \<Rightarrow> Some (Inl panic)
      | Some kn \<Rightarrow>
          if nd_Value kn = ''<<'' then
            (case vs of
               [] \<Rightarrow> Some (Inl panic)
             | v # rest \<Rightarrow>
                 (case chk v seen of
                    Some (Inr seen) \<Rightarrow> check_keys st chk rest seen
                  | r \<Rightarrow> r))
          else if nd_Value kn \<notin> set known_keys then Some (Inl ''unknown prewarm configuration field'')
          else check_keys st chk (drop 1 vs) seen)"

fun check_node :: "nat \<Rightarrow> nodes \<Rightarrow> nat \<Rightarrow> nat list \<Rightarrow> walk" where
  "check_node 0 st n seen = None"
| "check_node (Suc depth) st n seen =
     (case st n of
        None \<Rightarrow> Some (Inl ''invalid prewarm configuration'')
      | Some nd \<Rightarrow>
          if n \<in> set seen then Some (Inr seen)
          else
            let seen = n # seen in
            if nd_Kind nd = AliasNode then check_node depth st (nd_Alias nd) seen
            else if nd_Kind nd = SequenceNode then check_each (check_node depth st) (nd_Content nd) seen
            else if nd_Kind nd \<noteq> MappingNode then Some (Inl ''prewarm configuration must be a mapping'')
            else check_keys st (check_node depth st) (nd_Content nd) seen)"

text \<open>\<open>Decode\<close> is the library's decoder into the plain configuration.\<close>

definition UnmarshalYAML :: "nat \<Rightarrow> nodes \<Rightarrow> (nat \<Rightarrow> 'c option) \<Rightarrow> nat \<Rightarrow> (string + 'c) option" where
  "UnmarshalYAML depth st Decode n =
     (case st n of
        None \<Rightarrow> Some (Inl panic)
      | Some nd \<Rightarrow>
          if nd_Kind nd \<noteq> MappingNode \<and> nd_Kind nd \<noteq> AliasNode
          then Some (Inl ''prewarm configuration must be a mapping'')
          else
            (case check_node depth st n [] of
               None \<Rightarrow> None
             | Some (Inl e) \<Rightarrow> Some (Inl e)
             | Some (Inr _) \<Rightarrow>
                 (case Decode n of
                    None \<Rightarrow> Some (Inl ''invalid prewarm configuration value'')
                  | Some value \<Rightarrow> Some (Inr value))))"

section \<open>The nodes the check visits\<close>

fun merge_values :: "nodes \<Rightarrow> nat list \<Rightarrow> nat list" where
  "merge_values st [] = []"
| "merge_values st [k] = []"
| "merge_values st (k # v # rest) =
     (if map_option nd_Value (st k) = Some ''<<'' then [v] else []) @ merge_values st rest"

fun keys_ok :: "nodes \<Rightarrow> nat list \<Rightarrow> bool" where
  "keys_ok st [] = True"
| "keys_ok st (k # vs) =
     ((case map_option nd_Value (st k) of
         None \<Rightarrow> False
       | Some key \<Rightarrow> if key = ''<<'' then vs \<noteq> [] else key \<in> set known_keys) \<and>
      keys_ok st (drop 1 vs))"

definition visits :: "nodes \<Rightarrow> nat \<Rightarrow> nat list" where
  "visits st n =
     (case st n of
        None \<Rightarrow> []
      | Some nd \<Rightarrow>
          if nd_Kind nd = AliasNode then [nd_Alias nd]
          else if nd_Kind nd = SequenceNode then nd_Content nd
          else if nd_Kind nd = MappingNode then merge_values st (nd_Content nd) else [])"

definition node_ok :: "nodes \<Rightarrow> nat \<Rightarrow> bool" where
  "node_ok st n =
     (case st n of
        None \<Rightarrow> False
      | Some nd \<Rightarrow> nd_Kind nd \<in> {AliasNode, SequenceNode} \<or>
          nd_Kind nd = MappingNode \<and> keys_ok st (nd_Content nd))"

inductive visited :: "nodes \<Rightarrow> nat \<Rightarrow> nat \<Rightarrow> bool" for st where
  visited_refl: "visited st n n"
| visited_step: "visited st n m \<Longrightarrow> k \<in> set (visits st m) \<Longrightarrow> visited st n k"

lemma visited_first: "visited st c m \<Longrightarrow> c \<in> set (visits st n) \<Longrightarrow> visited st n m"
  by (induction rule: visited.induct) (auto intro: visited.intros)

section \<open>A walk without error\<close>

definition grows :: "nodes \<Rightarrow> nat list \<Rightarrow> nat list \<Rightarrow> nat list \<Rightarrow> bool" where
  "grows st cs seen seen' \<longleftrightarrow> set seen \<subseteq> set seen' \<and> set cs \<subseteq> set seen' \<and>
     (\<forall>m \<in> set seen' - set seen. node_ok st m \<and> set (visits st m) \<subseteq> set seen')"

lemma grows_Nil [simp]: "grows st [] seen seen"
  by (simp add: grows_def)

lemma grows_append: "grows st cs s s' \<Longrightarrow> grows st ds s' s'' \<Longrightarrow> grows st (cs @ ds) s s''"
  unfolding grows_def by (simp add: subset_iff) blast

lemma check_each_grows:
  assumes "\<And>c s s'. chk c s = Some (Inr s') \<Longrightarrow> grows st [c] s s'"
  shows "check_each chk cs seen = Some (Inr seen') \<Longrightarrow> grows st cs seen seen'"
proof (induction cs arbitrary: seen)
  case (Cons c cs)
  then obtain s where "chk c seen = Some (Inr s)" "check_each chk cs s = Some (Inr seen')"
    by (auto split: option.splits sum.splits)
  then show ?case
    using grows_append [of st "[c]" seen s cs seen'] assms Cons.IH by simp
qed simp

lemma check_keys_grows:
  assumes "\<And>c s s'. chk c s = Some (Inr s') \<Longrightarrow> grows st [c] s s'"
  shows "check_keys st chk ks seen = Some (Inr seen') \<Longrightarrow>
    keys_ok st ks \<and> grows st (merge_values st ks) seen seen'"
  using assms
proof (induction st ks arbitrary: seen rule: merge_values.induct)
  case (3 st k v rest)
  then obtain kn where kn: "st k = Some kn" by (auto split: option.splits)
  show ?case
  proof (cases "nd_Value kn = ''<<''")
    case True
    with 3 kn obtain s where "chk v seen = Some (Inr s)" "check_keys st chk rest s = Some (Inr seen')"
      by (auto split: option.splits sum.splits)
    then show ?thesis
      using grows_append [of st "[v]" seen s "merge_values st rest" seen'] "3.IH" "3.prems"(2) kn True by auto
  next
    case False
    with 3 kn show ?thesis by (auto split: if_splits)
  qed
qed (auto split: option.splits if_splits)

lemma check_node_grows: "check_node d st n seen = Some (Inr seen') \<Longrightarrow> grows st [n] seen seen'"
proof (induction d arbitrary: n seen seen')
  case (Suc d)
  then obtain nd where nd: "st n = Some nd" by (auto split: option.splits)
  show ?case
  proof (cases "n \<in> set seen")
    case True
    with Suc.prems nd show ?thesis by (auto simp: grows_def)
  next
    case False
    have "grows st (visits st n) (n # seen) seen' \<and> node_ok st n"
      using Suc.prems nd False Suc.IH check_each_grows [of "check_node d st" st "nd_Content nd" "n # seen" seen']
        check_keys_grows [of "check_node d st" st "nd_Content nd" "n # seen" seen']
      by (auto simp: Let_def visits_def node_ok_def split: if_splits)
    then show ?thesis by (auto simp: grows_def)
  qed
qed simp

lemma visited_closed:
  assumes "visited st n m" and "n \<in> set seen" and "\<And>k. k \<in> set seen \<Longrightarrow> set (visits st k) \<subseteq> set seen"
  shows "m \<in> set seen"
  using assms by (induction rule: visited.induct) auto

section \<open>A walk with an error\<close>

definition leads_to_bad :: "nodes \<Rightarrow> nat \<Rightarrow> bool" where
  "leads_to_bad st n \<longleftrightarrow> (\<exists>m. visited st n m \<and> \<not> node_ok st m)"

lemma check_each_bad:
  assumes "\<And>c s e. chk c s = Some (Inl e) \<Longrightarrow> leads_to_bad st c"
  shows "check_each chk cs seen = Some (Inl e) \<Longrightarrow> \<exists>c \<in> set cs. leads_to_bad st c"
  by (induction cs arbitrary: seen) (auto split: option.splits sum.splits intro: assms)

lemma check_keys_bad:
  assumes "\<And>c s e. chk c s = Some (Inl e) \<Longrightarrow> leads_to_bad st c"
  shows "check_keys st chk ks seen = Some (Inl e) \<Longrightarrow>
    \<not> keys_ok st ks \<or> (\<exists>c \<in> set (merge_values st ks). leads_to_bad st c)"
  using assms
proof (induction st ks arbitrary: seen rule: merge_values.induct)
  case (3 st k v rest)
  then show ?case by (auto split: option.splits sum.splits if_splits)
qed (auto split: option.splits if_splits)

lemma check_node_bad: "check_node d st n seen = Some (Inl e) \<Longrightarrow> leads_to_bad st n"
proof (induction d arbitrary: n seen e)
  case (Suc d)
  show ?case
  proof (cases "st n")
    case None
    then show ?thesis by (auto simp: leads_to_bad_def node_ok_def intro: visited_refl)
  next
    case (Some nd)
    have "\<not> node_ok st n \<or> (\<exists>c \<in> set (visits st n). leads_to_bad st c)"
      using Suc.prems Some Suc.IH check_each_bad [of "check_node d st" st "nd_Content nd" "n # seen" e]
        check_keys_bad [of "check_node d st" st "nd_Content nd" "n # seen" e]
      by (auto simp: Let_def visits_def node_ok_def split: if_splits)
    then show ?thesis
      by (auto simp: leads_to_bad_def intro: visited_refl visited_first)
  qed
qed simp

section \<open>The walk ends\<close>

definition unseen :: "nodes \<Rightarrow> nat list \<Rightarrow> nat" where
  "unseen st seen = card (dom st - set seen)"

lemma unseen_mono: "finite (dom st) \<Longrightarrow> set seen \<subseteq> set seen' \<Longrightarrow> unseen st seen' \<le> unseen st seen"
  unfolding unseen_def by (intro card_mono) auto

lemma unseen_Cons: "finite (dom st) \<Longrightarrow> st n = Some nd \<Longrightarrow> n \<notin> set seen \<Longrightarrow> unseen st (n # seen) < unseen st seen"
  unfolding unseen_def by (intro psubset_card_mono) auto

lemma grows_unseen: "finite (dom st) \<Longrightarrow> grows st cs seen seen' \<Longrightarrow> unseen st seen' \<le> unseen st seen"
  by (simp add: grows_def unseen_mono)

lemma check_each_total:
  assumes "\<And>c s. unseen st s < d \<Longrightarrow> chk c s \<noteq> None"
    and "\<And>c s s'. chk c s = Some (Inr s') \<Longrightarrow> unseen st s' \<le> unseen st s"
  shows "unseen st seen < d \<Longrightarrow> check_each chk cs seen \<noteq> None"
proof (induction cs arbitrary: seen)
  case (Cons c cs)
  then obtain r where r: "chk c seen = Some r" using assms(1) by blast
  then show ?case
    using Cons assms(2) [of c seen] by (cases r) (auto intro: le_less_trans)
qed simp

lemma check_keys_total:
  assumes "\<And>c s. unseen st s < d \<Longrightarrow> chk c s \<noteq> None"
    and "\<And>c s s'. chk c s = Some (Inr s') \<Longrightarrow> unseen st s' \<le> unseen st s"
  shows "unseen st seen < d \<Longrightarrow> check_keys st chk ks seen \<noteq> None"
  using assms
proof (induction st ks arbitrary: seen rule: merge_values.induct)
  case (3 st k v rest)
  then obtain r where r: "chk v seen = Some r" by blast
  show ?case
  proof (cases r)
    case (Inl e)
    with 3 r show ?thesis by (auto split: option.splits)
  next
    case (Inr s)
    with 3 r have "unseen st s < d" by (meson le_less_trans)
    with 3 r Inr show ?thesis by (auto split: option.splits)
  qed
qed (auto split: option.splits)

lemma check_node_total:
  assumes "finite (dom st)"
  shows "unseen st seen < d \<Longrightarrow> check_node d st n seen \<noteq> None"
proof (induction d arbitrary: n seen)
  case (Suc d)
  have mono: "unseen st s' \<le> unseen st s" if "check_node d st c s = Some (Inr s')" for c s s'
    using that check_node_grows grows_unseen assms by blast
  show ?case
  proof (cases "st n")
    case (Some nd)
    show ?thesis
    proof (cases "n \<in> set seen")
      case False
      with Some Suc.prems have "unseen st (n # seen) < d"
        using unseen_Cons [OF assms] by (meson less_Suc_eq_le less_le_trans)
      then show ?thesis
        using Some False Suc.IH check_each_total [of st d "check_node d st" "n # seen"] mono
          check_keys_total [of st d "check_node d st" "n # seen"]
        by (auto simp: Let_def)
    qed (simp add: Some)
  qed simp
qed simp

text \<open>
  C30. With as many nested calls as there are nodes, plus one, the key check ends, on cyclic
  aliases too. The section is accepted exactly when the node is a mapping or an alias, every
  node that the walk reaches (through aliases, sequences and merge keys) is a mapping whose
  keys are all fields of the configuration, a sequence or an alias, and the decoder accepts the
  values.
\<close>

theorem yaml_keys_checked:
  assumes "finite (dom st)" and "st n = Some nd" and "card (dom st) < depth"
  shows "(\<exists>r. UnmarshalYAML depth st Decode n = Some r) \<and>
    (UnmarshalYAML depth st Decode n = Some (Inr value) \<longleftrightarrow>
       nd_Kind nd \<in> {MappingNode, AliasNode} \<and> (\<forall>m. visited st n m \<longrightarrow> node_ok st m) \<and>
       Decode n = Some value)"
proof -
  have "unseen st [] < depth" using assms by (simp add: unseen_def)
  then obtain r where r: "check_node depth st n [] = Some r"
    using check_node_total [OF assms(1)] by blast
  have "(\<exists>seen. r = Inr seen) \<longleftrightarrow> (\<forall>m. visited st n m \<longrightarrow> node_ok st m)"
  proof (cases r)
    case (Inl e)
    with r check_node_bad show ?thesis by (auto simp: leads_to_bad_def)
  next
    case (Inr seen)
    with r check_node_grows have "grows st [n] [] seen" by blast
    then show ?thesis
      using Inr visited_closed [of st n _ seen] by (auto simp: grows_def)
  qed
  then show ?thesis
    using assms(2) r by (cases r) (auto simp: UnmarshalYAML_def split: option.split)
qed

definition sample_nodes :: nodes where
  "sample_nodes =
     [0 \<mapsto> \<lparr>nd_Kind = MappingNode, nd_Value = [], nd_Alias = 9, nd_Content = [1, 2]\<rparr>,
      1 \<mapsto> \<lparr>nd_Kind = ScalarNode, nd_Value = ''<<'', nd_Alias = 9, nd_Content = []\<rparr>,
      2 \<mapsto> \<lparr>nd_Kind = AliasNode, nd_Value = [], nd_Alias = 0, nd_Content = []\<rparr>]"

theorem yaml_keys_checked_witness:
  "(\<exists>r. UnmarshalYAML 4 sample_nodes (\<lambda>_. Some (7::nat)) 0 = Some r) \<and>
   UnmarshalYAML 4 sample_nodes (\<lambda>_. Some (7::nat)) 0 = Some (Inr 7)"
proof -
  have "finite (dom sample_nodes)" "card (dom sample_nodes) < 4"
    by (simp_all add: sample_nodes_def)
  moreover have "sample_nodes 0 = Some \<lparr>nd_Kind = MappingNode, nd_Value = [], nd_Alias = 9, nd_Content = [1, 2]\<rparr>"
    by (simp add: sample_nodes_def)
  ultimately have "\<exists>r. UnmarshalYAML 4 sample_nodes (\<lambda>_. Some (7::nat)) 0 = Some r"
    using yaml_keys_checked [of sample_nodes 0 _ 4 "\<lambda>_. Some (7::nat)" 7] by blast
  moreover have "UnmarshalYAML 4 sample_nodes (\<lambda>_. Some (7::nat)) 0 = Some (Inr 7)"
    by (simp add: UnmarshalYAML_def sample_nodes_def eval_nat_numeral)
  ultimately show ?thesis by blast
qed

end
