(* ===== verification/Probe_Client.thy ===== *)
theory Probe_Client
  imports Marshal Transport Yaml Engine Completion
begin

text \<open>
  The probe client, \<open>internal/probe/client.go\<close> and \<open>internal/probe/discovery.go\<close>. It resolves
  an account to a snapshot (token, account id, plan, route, headers and a scope that is a digest
  of them), sends one probe with it, and lists the accounts of the host.

  What the client asks the outside world for is a \<open>world\<close>: the host's replies to the three
  read-only callbacks, the configuration file, the state of the context before and after. Every
  call of \<open>resolve\<close> has a world of its own, so the replies may differ from one call to the next.
  Arguments that stand for code outside the repository or for sources of randomness:
  a \<open>library\<close> (the proxy library, the YAML library on the configuration file, and SHA-256), the
  16 random bytes of a probe, and \<open>pw_send\<close> (the network).

  An error is its message; results are \<open>Inl error\<close> or \<open>Inr value\<close>. The context is \<open>None\<close>
  while it is alive and otherwise the message of its error.
\<close>

section \<open>Data\<close>

definition endpoint :: string where
  "endpoint = ''https://chatgpt.com/backend-api/codex/responses''"

definition defaultUA :: string where "defaultUA = ''codex_cli_rs/0.153.4''"

record Client =
  cl_indices :: "(string, string) gomap"

record hostConfig =
  hc_Proxy :: string
  hc_UserAgent :: string
  hc_DisableCloaking :: bool

record credentials =
  cr_Type :: string
  cr_Email :: string
  cr_Disabled :: bool
  cr_Token :: string
  cr_IDToken :: string
  cr_AccountID :: string
  cr_Proxy :: string
  cr_BaseURL :: string
  cr_Plan :: string
  cr_ChatGPTPlan :: string
  cr_Headers :: "(string, string) gomap"

record snapshot =
  sn_scope :: string
  sn_plan :: string
  sn_token :: string
  sn_accountID :: string
  sn_route :: string
  sn_email :: string
  sn_headers :: header

text \<open>The fields of the host's reply types that the client reads.\<close>

record HostAuthFileEntry =
  ha_ID :: string
  ha_AuthIndex :: string
  ha_Type :: string
  ha_Provider :: string
  ha_Email :: string
  ha_Status :: string
  ha_Disabled :: bool
  ha_RuntimeOnly :: bool
  ha_BaseURL :: string

record HostAuthGetResponse =
  hg_AuthIndex :: string
  hg_JSON :: string

text \<open>The configuration file: size and modification time before and after, and its bytes.\<close>

record file_view =
  fv_before :: "(int \<times> int) option"
  fv_bytes :: string
  fv_read_ok :: bool
  fv_after :: "(int \<times> int) option"

record world =
  wd_ctx :: "string option"
  wd_list :: "HostAuthFileEntry list option"
  wd_runtime :: "string \<Rightarrow> HostAuthFileEntry option"
  wd_get :: "string \<Rightarrow> HostAuthGetResponse option"
  wd_guard :: "string option"
  wd_file :: "file_view option"
  wd_visit :: "(string, string) gomap \<Rightarrow> (string, string) gomap"
  wd_ctx_end :: "string option"

text \<open>
  Code outside the repository. The YAML library on the bytes of the file: \<open>None\<close> is a syntax error, otherwise the kinds of
  the document's children and the outcome of decoding it into \<open>hostConfig\<close>. \<open>lb_BuildDialer\<close> is described
  in the theory Transport; \<open>lb_sha256\<close> is the digest of 32 bytes.
\<close>

record library =
  lb_yaml :: "string \<Rightarrow> (yaml_kind list \<times> hostConfig option) option"
  lb_BuildDialer :: "string \<Rightarrow> bool option option"
  lb_sha256 :: "string \<Rightarrow> 8 word list"

section \<open>The account directory\<close>

definition is_codex :: "HostAuthFileEntry \<Rightarrow> bool" where
  "is_codex a \<longleftrightarrow> ha_Type a = ''codex'' \<or> ha_Provider a = ''codex''"

definition listed :: "HostAuthFileEntry \<Rightarrow> bool" where
  "listed a \<longleftrightarrow> ha_ID a \<noteq> [] \<and> ha_AuthIndex a \<noteq> [] \<and> is_codex a"

definition readDirectory :: "world \<Rightarrow> Client \<Rightarrow> (string + HostAuthFileEntry list) \<times> Client" where
  "readDirectory w c =
     (case wd_list w of
        None \<Rightarrow> (Inl ''existing Host account list unavailable'', c)
      | Some files \<Rightarrow>
          let indices = foldl (\<lambda>m a. if listed a then gm_put (ha_ID a) (ha_AuthIndex a) m else m) [] files
          in (Inr files, c\<lparr>cl_indices := indices\<rparr>))"

definition authIndex :: "world \<Rightarrow> string \<Rightarrow> Client \<Rightarrow> (string + string) \<times> Client" where
  "authIndex w authID c =
     (let index = gm_get0 [] (cl_indices c) authID in
      if index \<noteq> [] then (Inr index, c)
      else case readDirectory w c of
             (Inl e, c) \<Rightarrow> (Inl e, c)
           | (Inr _, c) \<Rightarrow>
               let index = gm_get0 [] (cl_indices c) authID in
               if index = [] then (Inl ''account not found in Host'', c) else (Inr index, c))"

section \<open>The host's configuration file\<close>

text \<open>What is read through an \<open>io.LimitReader\<close> of \<open>n\<close> bytes.\<close>

fun limit_read :: "int \<Rightarrow> string \<Rightarrow> string" where
  "limit_read n [] = []"
| "limit_read n (c # cs) = (if n \<le> 0 then [] else c # limit_read (n - 1) cs)"

lemma limit_read_take: "limit_read n s = take (nat n) s"
proof (induction n s rule: limit_read.induct)
  case (2 n c cs)
  then show ?case by (cases "nat n") (auto simp: nat_diff_distrib)
qed simp

definition config_limit :: int where "config_limit = 4194304"

definition readConfig :: "library \<Rightarrow> world \<Rightarrow> string + hostConfig" where
  "readConfig lib w =
     (case wd_guard w of
        Some e \<Rightarrow> Inl e
      | None \<Rightarrow>
          (case wd_file w of
             None \<Rightarrow> Inl ''cannot read Host configuration''
           | Some f \<Rightarrow>
               (case fv_before f of
                  None \<Rightarrow> Inl ''cannot stat Host configuration''
                | Some before \<Rightarrow>
                    let raw = limit_read (config_limit + 1) (fv_bytes f) in
                    if fv_after f = None \<or> fst before \<noteq> fst (the (fv_after f)) \<or>
                       snd before \<noteq> snd (the (fv_after f)) \<or> int (length raw) \<noteq> fst (the (fv_after f))
                    then Inl ''Host configuration changed while reading''
                    else if \<not> fv_read_ok f \<or> raw = [] \<or> config_limit < int (length raw)
                    then Inl ''Host configuration too large or unreadable''
                    else case lb_yaml lib raw of
                           Some ([MappingNode], Some cfg) \<Rightarrow> Inr cfg
                         | _ \<Rightarrow> Inl ''invalid Host configuration'')))"

definition NewClient :: "library \<Rightarrow> world \<Rightarrow> bool \<Rightarrow> string \<Rightarrow> string + Client" where
  "NewClient lib w has_call configFile =
     (if \<not> has_call \<or> configFile = []
      then Inl ''prewarm requires existing Host callbacks and host_config_file''
      else case readConfig lib w of
             Inl e \<Rightarrow> Inl e
           | Inr _ \<Rightarrow> Inr \<lparr>cl_indices = []\<rparr>)"

section \<open>Reading credentials\<close>

definition decode_bool :: "json \<Rightarrow> bool \<Rightarrow> bool option" where
  "decode_bool j old = (case j of JBool b \<Rightarrow> Some b | JNull \<Rightarrow> Some old | _ \<Rightarrow> None)"

fun decode_string_fields :: "(string \<times> json) list \<Rightarrow> (string, string) gomap \<Rightarrow> (string, string) gomap option" where
  "decode_string_fields [] m = Some m"
| "decode_string_fields ((k, j) # fs) m =
     (case decode_string j [] of
        None \<Rightarrow> None
      | Some s \<Rightarrow> decode_string_fields fs (gm_put k s m))"

definition decode_string_map :: "json \<Rightarrow> (string, string) gomap \<Rightarrow> (string, string) gomap option" where
  "decode_string_map j old =
     (case j of JNull \<Rightarrow> Some [] | JObj fs \<Rightarrow> decode_string_fields fs old | _ \<Rightarrow> None)"

definition credential_names :: "string list" where
  "credential_names = [''type'', ''email'', ''disabled'', ''access_token'', ''id_token'', ''account_id'',
     ''proxy_url'', ''base_url'', ''plan_type'', ''chatgpt_plan_type'', ''headers'']"

definition decode_credential :: "string \<Rightarrow> json \<Rightarrow> credentials \<Rightarrow> credentials option" where
  "decode_credential k j a =
     (let f = match_field credential_names k; str = decode_string j in
      if f = Some ''type'' then map_option (\<lambda>s. a\<lparr>cr_Type := s\<rparr>) (str (cr_Type a))
      else if f = Some ''email'' then map_option (\<lambda>s. a\<lparr>cr_Email := s\<rparr>) (str (cr_Email a))
      else if f = Some ''disabled'' then map_option (\<lambda>b. a\<lparr>cr_Disabled := b\<rparr>) (decode_bool j (cr_Disabled a))
      else if f = Some ''access_token'' then map_option (\<lambda>s. a\<lparr>cr_Token := s\<rparr>) (str (cr_Token a))
      else if f = Some ''id_token'' then map_option (\<lambda>s. a\<lparr>cr_IDToken := s\<rparr>) (str (cr_IDToken a))
      else if f = Some ''account_id'' then map_option (\<lambda>s. a\<lparr>cr_AccountID := s\<rparr>) (str (cr_AccountID a))
      else if f = Some ''proxy_url'' then map_option (\<lambda>s. a\<lparr>cr_Proxy := s\<rparr>) (str (cr_Proxy a))
      else if f = Some ''base_url'' then map_option (\<lambda>s. a\<lparr>cr_BaseURL := s\<rparr>) (str (cr_BaseURL a))
      else if f = Some ''plan_type'' then map_option (\<lambda>s. a\<lparr>cr_Plan := s\<rparr>) (str (cr_Plan a))
      else if f = Some ''chatgpt_plan_type'' then map_option (\<lambda>s. a\<lparr>cr_ChatGPTPlan := s\<rparr>) (str (cr_ChatGPTPlan a))
      else if f = Some ''headers'' then map_option (\<lambda>h. a\<lparr>cr_Headers := h\<rparr>) (decode_string_map j (cr_Headers a))
      else Some a)"

fun decode_credentials :: "(string \<times> json) list \<Rightarrow> credentials \<Rightarrow> credentials option" where
  "decode_credentials [] a = Some a"
| "decode_credentials ((k, j) # fs) a =
     (case decode_credential k j a of None \<Rightarrow> None | Some a \<Rightarrow> decode_credentials fs a)"

definition no_credentials :: credentials where
  "no_credentials = \<lparr>cr_Type = [], cr_Email = [], cr_Disabled = False, cr_Token = [], cr_IDToken = [],
     cr_AccountID = [], cr_Proxy = [], cr_BaseURL = [], cr_Plan = [], cr_ChatGPTPlan = [], cr_Headers = []\<rparr>"

definition unmarshal_credentials :: "string \<Rightarrow> credentials option" where
  "unmarshal_credentials raw =
     (case json_parse raw of
        Some (JObj fs) \<Rightarrow> decode_credentials fs no_credentials
      | Some JNull \<Rightarrow> Some no_credentials
      | _ \<Rightarrow> None)"

text \<open>The claims of the identity token: email, account id and plan.\<close>

record claims =
  jc_Email :: string
  jc_AccountID :: string
  jc_Plan :: string

fun decode_auth_claim :: "(string \<times> json) list \<Rightarrow> claims \<Rightarrow> claims option" where
  "decode_auth_claim [] c = Some c"
| "decode_auth_claim ((k, j) # fs) c =
     (let f = match_field [''chatgpt_account_id'', ''chatgpt_plan_type''] k in
      case (if f = Some ''chatgpt_account_id'' then
              map_option (\<lambda>s. c\<lparr>jc_AccountID := s\<rparr>) (decode_string j (jc_AccountID c))
            else if f = Some ''chatgpt_plan_type'' then
              map_option (\<lambda>s. c\<lparr>jc_Plan := s\<rparr>) (decode_string j (jc_Plan c))
            else Some c) of
        None \<Rightarrow> None
      | Some c \<Rightarrow> decode_auth_claim fs c)"

fun decode_claims :: "(string \<times> json) list \<Rightarrow> claims \<Rightarrow> claims option" where
  "decode_claims [] c = Some c"
| "decode_claims ((k, j) # fs) c =
     (let f = match_field [''email'', ''https://api.openai.com/auth''] k in
      case (if f = Some ''email'' then
              map_option (\<lambda>s. c\<lparr>jc_Email := s\<rparr>) (decode_string j (jc_Email c))
            else if f = Some ''https://api.openai.com/auth'' then
              (case j of JNull \<Rightarrow> Some c | JObj gs \<Rightarrow> decode_auth_claim gs c | _ \<Rightarrow> None)
            else Some c) of
        None \<Rightarrow> None
      | Some c \<Rightarrow> decode_claims fs c)"

definition unmarshal_claims :: "string \<Rightarrow> claims option" where
  "unmarshal_claims raw =
     (let zero = \<lparr>jc_Email = [], jc_AccountID = [], jc_Plan = []\<rparr> in
      case json_parse raw of
        Some (JObj fs) \<Rightarrow> decode_claims fs zero
      | Some JNull \<Rightarrow> Some zero
      | _ \<Rightarrow> None)"

section \<open>Resolving an account\<close>

definition official_upstream :: "string \<Rightarrow> bool" where
  "official_upstream url \<longleftrightarrow> url = [] \<or> trim_right (CHR ''/'') url = ''https://chatgpt.com/backend-api/codex''"

definition enabled_account :: "HostAuthFileEntry \<Rightarrow> string \<Rightarrow> string \<Rightarrow> bool" where
  "enabled_account a authID index \<longleftrightarrow>
     \<not> (ha_ID a \<noteq> authID \<or> ha_AuthIndex a \<noteq> index \<or> ha_Disabled a \<or> ha_Status a = ''disabled'' \<or>
        (ha_Type a \<noteq> ''codex'' \<and> ha_Provider a \<noteq> ''codex'') \<or> ha_RuntimeOnly a)"

definition or_else :: "string \<Rightarrow> string \<Rightarrow> string" where
  "or_else s t = (if s = [] then t else s)"

text \<open>Email, account id and plan of the credentials, completed from the claims.\<close>

definition token_claims :: "credentials \<Rightarrow> claims option" where
  "token_claims auth =
     (case split_on (CHR ''.'') (cr_IDToken auth) of
        [_, part, _] \<Rightarrow> Option.bind (RawURLDecode part) unmarshal_claims
      | _ \<Rightarrow> None)"

definition identity :: "credentials \<Rightarrow> claims" where
  "identity auth =
     (let i = \<lparr>jc_Email = cr_Email auth, jc_AccountID = cr_AccountID auth,
               jc_Plan = or_else (cr_Plan auth) (cr_ChatGPTPlan auth)\<rparr>
      in case token_claims auth of
           None \<Rightarrow> i
         | Some c \<Rightarrow> \<lparr>jc_Email = or_else (jc_Email i) (jc_Email c),
                      jc_AccountID = or_else (jc_AccountID i) (jc_AccountID c),
                      jc_Plan = or_else (jc_Plan i) (jc_Plan c)\<rparr>)"

definition formal_route :: "credentials \<Rightarrow> hostConfig \<Rightarrow> string" where
  "formal_route auth cfg =
     or_else (or_else (TrimSpace (cr_Proxy auth)) (TrimSpace (hc_Proxy cfg))) ''direct''"

definition hdr_set :: "string \<Rightarrow> string \<Rightarrow> header \<Rightarrow> header" where
  "hdr_set k v h = gm_put (CanonicalHeaderKey k) [v] h"

definition hdr_del :: "string \<Rightarrow> header \<Rightarrow> header" where
  "hdr_del k h = gm_del (CanonicalHeaderKey k) h"

fun auth_headers :: "(string \<times> string) list \<Rightarrow> header \<Rightarrow> header option" where
  "auth_headers [] h = Some h"
| "auth_headers ((k, v) # kvs) h =
     (if CHR 0x0D \<in> set (k @ v) \<or> CHR 0x0A \<in> set (k @ v) then None else auth_headers kvs (hdr_set k v h))"

definition owned_headers :: "string list" where
  "owned_headers = [''Authorization'', ''Proxy-Authorization'', ''X-Codex-Turn-State'', ''Chatgpt-Account-Id'',
     ''Host'', ''Content-Length'', ''Transfer-Encoding'', ''Connection'']"

definition cloak :: "header \<Rightarrow> header" where
  "cloak h = hdr_set ''Originator'' ''codex_cli_rs'' (hdr_set ''User-Agent'' defaultUA h)"

definition probe_headers ::
  "((string, string) gomap \<Rightarrow> (string, string) gomap) \<Rightarrow> credentials \<Rightarrow> hostConfig \<Rightarrow> header option" where
  "probe_headers visit auth cfg =
     (let h = cloak [];
          h = (if hc_UserAgent cfg \<noteq> [] then hdr_set ''User-Agent'' (hc_UserAgent cfg) h else h)
      in case auth_headers (visit (cr_Headers auth)) h of
           None \<Rightarrow> None
         | Some h \<Rightarrow>
             let h = (if \<not> hc_DisableCloaking cfg then cloak h else h)
             in Some (fold hdr_del owned_headers h))"

definition scope_payload :: "string \<Rightarrow> string \<Rightarrow> string \<Rightarrow> string \<Rightarrow> header \<Rightarrow> string" where
  "scope_payload authID accountID plan route headers =
     marshal (JArr [JStr ''plugin-probe-v1'', JStr authID, JStr accountID, JStr plan, JStr route,
       JObj (map (\<lambda>kv. (fst kv, JArr (map JStr (snd kv)))) headers)])"

text \<open>The snapshot of accepted credentials.\<close>

definition resolve_auth ::
  "library \<Rightarrow> world \<Rightarrow> string \<Rightarrow> credentials \<Rightarrow> hostConfig \<Rightarrow>
   string + snapshot" where
  "resolve_auth lib w authID auth cfg =
     (let i = identity auth in
      if jc_AccountID i = [] then Inl ''account identity unavailable''
      else
        let route = formal_route auth cfg in
        case newTransport (lb_BuildDialer lib) route of
          Some e \<Rightarrow> Inl e
        | None \<Rightarrow>
            (case probe_headers (wd_visit w) auth cfg of
               None \<Rightarrow> Inl ''invalid configured auth header''
             | Some headers \<Rightarrow>
                 let scope = hex_encode (lb_sha256 lib (scope_payload authID (jc_AccountID i) (jc_Plan i) route headers)) in
                 (case wd_ctx_end w of
                    Some e \<Rightarrow> Inl e
                  | None \<Rightarrow> Inr \<lparr>sn_scope = scope, sn_plan = jc_Plan i, sn_token = cr_Token auth,
                      sn_accountID = jc_AccountID i, sn_route = route, sn_email = jc_Email i,
                      sn_headers = headers\<rparr>)))"

definition resolve_at ::
  "library \<Rightarrow> world \<Rightarrow> string \<Rightarrow> string \<Rightarrow>
   string + snapshot" where
  "resolve_at lib w authID index =
     (case wd_runtime w index of
        None \<Rightarrow> Inl ''account runtime unavailable''
      | Some a \<Rightarrow>
          if \<not> enabled_account a authID index then Inl ''enabled file-backed Codex account required''
          else if \<not> official_upstream (ha_BaseURL a) then Inl ''custom upstream unsupported for probes''
          else case wd_get w index of
            None \<Rightarrow> Inl ''account credentials unavailable''
          | Some file \<Rightarrow>
              if hg_AuthIndex file \<noteq> index \<or> int (length (hg_JSON file)) > 1048576
              then Inl ''invalid account credential response''
              else case unmarshal_credentials (hg_JSON file) of
                None \<Rightarrow> Inl ''enabled Codex OAuth credentials required''
              | Some auth \<Rightarrow>
                  if cr_Type auth \<noteq> ''codex'' \<or> cr_Disabled auth \<or> cr_Token auth = []
                  then Inl ''enabled Codex OAuth credentials required''
                  else if \<not> official_upstream (cr_BaseURL auth) then Inl ''custom upstream unsupported for probes''
                  else case readConfig lib w of
                    Inl e \<Rightarrow> Inl e
                  | Inr cfg \<Rightarrow> resolve_auth lib w authID auth cfg)"

definition resolve ::
  "library \<Rightarrow> world \<Rightarrow> string \<Rightarrow> Client \<Rightarrow>
   (string + snapshot) \<times> Client" where
  "resolve lib w authID c =
     (case wd_ctx w of
        Some e \<Rightarrow> (Inl e, c)
      | None \<Rightarrow>
          (case authIndex w authID c of
             (Inl e, c) \<Rightarrow> (Inl e, c)
           | (Inr index, c) \<Rightarrow> (resolve_at lib w authID index, c)))"

definition Describe :: "library \<Rightarrow> world \<Rightarrow> string \<Rightarrow> Client \<Rightarrow> (string + Identity) \<times> Client" where
  "Describe lib w authID c =
     (case resolve lib w authID c of
        (Inl e, c) \<Rightarrow> (Inl e, c)
      | (Inr s, c) \<Rightarrow> (Inr \<lparr>id_Scope = sn_scope s, id_Plan = sn_plan s\<rparr>, c))"

section \<open>One probe\<close>

record http_request =
  hq_Method :: string
  hq_URL :: string
  hq_Header :: header
  hq_Body :: string

record http_response =
  hs_StatusCode :: int
  hs_Header :: header
  hs_Body :: string
  hs_read_ok :: bool

text \<open>
  The world of one probe: the worlds of its two resolutions, 16 random bytes, the transport
  for a route (\<open>None\<close> is a transport error) and the context once the body has been read.
\<close>

record probe_world =
  pw_before :: world
  pw_random :: "8 word list option"
  pw_send :: "string \<Rightarrow> http_request \<Rightarrow> http_response option"
  pw_ctx_read :: "string option"
  pw_after :: world

definition session_id :: "8 word list \<Rightarrow> string" where
  "session_id random =
     (let random = random[6 := (random ! 6 AND 0x0F) OR 0x40];
          random = random[8 := (random ! 8 AND 0x3F) OR 0x80];
          encoded = hex_encode random
      in take 8 encoded @ ''-'' @ take 4 (drop 8 encoded) @ ''-'' @ take 4 (drop 12 encoded) @ ''-'' @
         take 4 (drop 16 encoded) @ ''-'' @ drop 20 encoded)"

definition probe_payload :: "string \<Rightarrow> string" where
  "probe_payload model =
     marshal (JObj [(''model'', JStr model), (''store'', JBool False), (''stream'', JBool True),
       (''instructions'', JStr ''Reply with exactly: pong''),
       (''input'', JArr [JObj [(''role'', JStr ''user''),
          (''content'', JArr [JObj [(''type'', JStr ''input_text''), (''text'', JStr ''ping'')]])]])])"

definition probe_request :: "snapshot \<Rightarrow> ProbeRequest \<Rightarrow> string \<Rightarrow> http_request" where
  "probe_request s r session =
     (let h = hdr_set ''Authorization'' (''Bearer '' @ sn_token s) (sn_headers s);
          h = hdr_set ''Chatgpt-Account-Id'' (sn_accountID s) h;
          h = hdr_set ''Content-Type'' ''application/json'' h;
          h = hdr_set ''Accept'' ''text/event-stream'' h;
          h = hdr_set ''Accept-Encoding'' ''identity'' h;
          h = hdr_set ''OpenAI-Beta'' ''responses=experimental'' h;
          h = hdr_set ''Version'' ''0.153.4'' h;
          h = hdr_set ''Session-Id'' session h;
          h = (if rq_State r \<noteq> [] then hdr_set StateHeader (rq_State r) h else h)
      in \<lparr>hq_Method = ''POST'', hq_URL = endpoint, hq_Header = h, hq_Body = probe_payload (rq_Model r)\<rparr>)"

definition header_values :: "string \<Rightarrow> header \<Rightarrow> string list" where
  "header_values k h = gm_get0 [] h (CanonicalHeaderKey k)"

definition read_reply ::
  "string option \<Rightarrow> snapshot \<Rightarrow> ProbeRequest \<Rightarrow> http_response \<Rightarrow> string + ProbeResult" where
  "read_reply ctx s r response =
     (let result = \<lparr>rs_Scope = sn_scope s, rs_Status = hs_StatusCode response, rs_State = [], rs_ActualModel = [],
                     rs_Plan = sn_plan s, rs_Body = []\<rparr>
      in if hs_StatusCode response \<noteq> 200 then Inr result
         else
           let body = limit_read (MaxProbeBytes + 1) (hs_Body response);
               states = header_values StateHeader (hs_Header response);
               plans = header_values ''X-Codex-Plan-Type'' (hs_Header response)
           in if \<not> hs_read_ok response \<or> MaxProbeBytes < int (length body) \<or> ctx \<noteq> None
              then Inl ''probe response incomplete or oversized''
              else if 1 < length states then Inl ''conflicting probe states''
              else if 1 < length plans then Inl ''conflicting probe plans''
              else Inr (result\<lparr>rs_Body := body,
                rs_State := (case states of [v] \<Rightarrow> TrimSpace v | _ \<Rightarrow> []),
                rs_ActualModel := snd (EvaluateProbeBody body (rq_Model r)),
                rs_Plan := (case plans of [v] \<Rightarrow> TrimSpace v | _ \<Rightarrow> sn_plan s)\<rparr>))"

definition probe_route :: "snapshot \<Rightarrow> ProbeRequest \<Rightarrow> string + string" where
  "probe_route s r =
     (case rq_ProxyOverride r of
        None \<Rightarrow> Inr (sn_route s)
      | Some route \<Rightarrow> if \<not> HasPrefix route ''socks5h://'' then Inl ''harvest proxy must be SOCKS5H'' else Inr route)"

text \<open>
  \<open>Probe\<close> also returns what it sent: the route and the request, if it came that far.
\<close>

definition Probe ::
  "library \<Rightarrow> probe_world \<Rightarrow> ProbeRequest \<Rightarrow> Client \<Rightarrow>
   (string + ProbeResult) \<times> (string \<times> http_request) option \<times> Client" where
  "Probe lib pw r c =
     (if rq_TimeoutSeconds r < 1 \<or> 60 < rq_TimeoutSeconds r then (Inl ''invalid probe timeout'', None, c)
      else case resolve lib (pw_before pw) (rq_AuthID r) c of
        (Inl e, c) \<Rightarrow> (Inl e, None, c)
      | (Inr s, c) \<Rightarrow>
          if rq_ExpectedScope r = [] \<or> rq_ExpectedScope r \<noteq> sn_scope s then (Inl ''probe scope changed'', None, c)
          else case probe_route s r of
            Inl e \<Rightarrow> (Inl e, None, c)
          | Inr route \<Rightarrow>
              if newTransport (lb_BuildDialer lib) route \<noteq> None then (Inl ''invalid probe route'', None, c)
              else case pw_random pw of
                None \<Rightarrow> (Inl ''cannot generate probe session'', None, c)
              | Some random \<Rightarrow>
                  let request = probe_request s r (session_id random); sent = Some (route, request) in
                  case pw_send pw route request of
                    None \<Rightarrow> (Inl ''probe transport failed'', sent, c)
                  | Some response \<Rightarrow>
                      (case read_reply (pw_ctx_read pw) s r response of
                         Inl e \<Rightarrow> (Inl e, sent, c)
                       | Inr result \<Rightarrow>
                           (case resolve lib (pw_after pw) (rq_AuthID r) c of
                              (Inr current, c) \<Rightarrow>
                                if sn_scope current \<noteq> sn_scope s
                                then (Inl ''account or formal route changed'', sent, c)
                                else (Inr result, sent, c)
                            | (Inl e, c) \<Rightarrow> (Inl ''account or formal route changed'', sent, c))))"

section \<open>Discovering accounts\<close>

text \<open>
  \<open>sort_ID\<close> stands for \<open>sort.Slice\<close>, whose order among equal IDs the standard library leaves
  open. The \<open>n\<close>-th pass reads the context \<open>ctx n\<close>; the world of the account \<open>id\<close> is \<open>ws id\<close>.
\<close>

definition discovered :: "library \<Rightarrow> (string \<Rightarrow> world) \<Rightarrow> HostAuthFileEntry \<Rightarrow> Client \<Rightarrow> Account \<times> Client" where
  "discovered lib ws a c =
     (let account = \<lparr>ac_Email = ha_Email a, ac_AuthID = ha_ID a, ac_Plan = [], ac_Models = []\<rparr>
      in if \<not> ha_Disabled a \<and> ha_Status a \<noteq> ''disabled'' \<and> \<not> ha_RuntimeOnly a then
           (case resolve lib (ws (ha_ID a)) (ha_ID a) c of
              (Inr s, c) \<Rightarrow>
                (account\<lparr>ac_Plan := CanonicalPlan (sn_plan s),
                         ac_Email := or_else (ha_Email a) (sn_email s)\<rparr>, c)
            | (Inl e, c) \<Rightarrow> (account, c))
         else (account, c))"

fun discover_loop ::
  "library \<Rightarrow> (string \<Rightarrow> world) \<Rightarrow> (nat \<Rightarrow> string option) \<Rightarrow> nat \<Rightarrow> string list \<Rightarrow> Account list \<Rightarrow>
   HostAuthFileEntry list \<Rightarrow> Client \<Rightarrow> (string + Account list) \<times> Client" where
  "discover_loop lib ws ctx n seen result [] c =
     (case ctx n of Some e \<Rightarrow> (Inl e, c) | None \<Rightarrow> (Inr result, c))"
| "discover_loop lib ws ctx n seen result (a # as) c =
     (case ctx n of
        Some e \<Rightarrow> (Inl e, c)
      | None \<Rightarrow>
          if ha_ID a = [] \<or> ha_AuthIndex a = [] \<or> (ha_Type a \<noteq> ''codex'' \<and> ha_Provider a \<noteq> ''codex'')
          then discover_loop lib ws ctx (n + 1) seen result as c
          else if ha_ID a \<in> set seen then discover_loop lib ws ctx (n + 1) seen result as c
          else
            let (account, c) = discovered lib ws a c; result = result @ [account] in
            if 1000 < length result then (Inl ''too many automatically discovered Codex accounts'', c)
            else discover_loop lib ws ctx (n + 1) (ha_ID a # seen) result as c)"

definition DiscoverAccounts ::
  "library \<Rightarrow> (HostAuthFileEntry list \<Rightarrow> HostAuthFileEntry list) \<Rightarrow> world \<Rightarrow> (string \<Rightarrow> world) \<Rightarrow>
   (nat \<Rightarrow> string option) \<Rightarrow> Client \<Rightarrow> (string + Account list) \<times> Client" where
  "DiscoverAccounts lib sort_ID w ws ctx c =
     (case readConfig lib w of
        Inl e \<Rightarrow> (Inl e, c)
      | Inr _ \<Rightarrow>
          (case readDirectory w c of
             (Inl e, c) \<Rightarrow> (Inl e, c)
           | (Inr files, c) \<Rightarrow> discover_loop lib ws ctx 0 [] [] (sort_ID files) c))"

end
