(* ===== verification/Session_Spec.thy ===== *)
theory Session_Spec
  imports Probe_Client
begin

text \<open>
  The session id of a probe is a random UUID of version 4: its form, and that no random bit
  other than the six fixed ones is lost. The facts about single bytes are checked on all 256.
\<close>

section \<open>Bytes\<close>

lemma all_bytes: "(w :: 8 word) \<in> set (map word_of_nat [0..<256])"
proof -
  have "unat w < 256" using unsigned_less [of w, where ?'a = nat] by simp
  moreover have "w = word_of_nat (unat w)" by simp
  ultimately show ?thesis by (metis atLeastLessThan_iff atLeast_upt image_eqI list.set_map lessThan_iff)
qed

lemma byte_facts:
  "unat (drop_bit 4 (w :: 8 word)) < 16" "unat (w AND 0x0F) < 16"
  "push_bit 4 (drop_bit 4 w) OR (w AND 0x0F) = w"
  "drop_bit 4 ((w AND 0x0F) OR 0x40) = 4"
  "drop_bit 4 ((w AND 0x3F) OR 0x80) \<in> {8, 9, 10, 11}"
  "((w AND 0x0F) OR 0x40) AND 0x0F = w AND 0x0F"
  "((w AND 0x3F) OR 0x80) AND 0x3F = w AND 0x3F"
proof -
  have "\<forall>w \<in> set (map word_of_nat [0..<256]). unat (drop_bit 4 (w :: 8 word)) < 16 \<and> unat (w AND 0x0F) < 16 \<and>
      push_bit 4 (drop_bit 4 w) OR (w AND 0x0F) = w \<and>
      drop_bit 4 ((w AND 0x0F) OR 0x40) = 4 \<and> drop_bit 4 ((w AND 0x3F) OR 0x80) \<in> {8, 9, 10, 11} \<and>
      ((w AND 0x0F) OR 0x40) AND 0x0F = w AND 0x0F \<and> ((w AND 0x3F) OR 0x80) AND 0x3F = w AND 0x3F"
    by code_simp
  with all_bytes [of w] show "unat (drop_bit 4 (w :: 8 word)) < 16" "unat (w AND 0x0F) < 16"
    "push_bit 4 (drop_bit 4 w) OR (w AND 0x0F) = w" "drop_bit 4 ((w AND 0x0F) OR 0x40) = 4"
    "drop_bit 4 ((w AND 0x3F) OR 0x80) \<in> {8, 9, 10, 11}" "((w AND 0x0F) OR 0x40) AND 0x0F = w AND 0x0F"
    "((w AND 0x3F) OR 0x80) AND 0x3F = w AND 0x3F" by blast+
qed

lemma hex_byte_inj: "hex_byte v = hex_byte w \<longleftrightarrow> v = w"
proof
  assume "hex_byte v = hex_byte w"
  then have "drop_bit 4 v = drop_bit 4 w" "v AND 0x0F = w AND 0x0F"
    using byte_facts(1,2) by (simp_all add: hex_byte_def hexdigit_inj word_unat_eq_iff)
  then show "v = w" using byte_facts(3) by metis
qed simp

lemma length_hex_byte [simp]: "length (hex_byte w) = 2"
  by (simp add: hex_byte_def)

lemma hex_encode_inj: "hex_encode vs = hex_encode ws \<longleftrightarrow> vs = ws"
proof (induction vs arbitrary: ws)
  case Nil
  then show ?case by (cases ws) (auto simp: hex_encode_def hex_byte_def)
next
  case (Cons v vs)
  then show ?case
    by (cases ws) (auto simp: hex_encode_def append_eq_append_conv hex_byte_inj [symmetric], simp add: hex_byte_def)
qed

definition hex_digits :: string where "hex_digits = ''0123456789abcdef''"

lemma hexdigit_digits: "n < 16 \<Longrightarrow> hexdigit n \<in> set hex_digits"
proof -
  have "\<forall>n \<in> set [0..<16]. hexdigit n \<in> set hex_digits" by code_simp
  then show "n < 16 \<Longrightarrow> hexdigit n \<in> set hex_digits" by auto
qed

lemma hex_encode_digits: "set (hex_encode ws) \<subseteq> set hex_digits"
  by (auto simp: hex_encode_def hex_byte_def intro: hexdigit_digits byte_facts)

section \<open>The session id\<close>

definition versioned :: "8 word list \<Rightarrow> 8 word list" where
  "versioned rnd = rnd[6 := (rnd ! 6 AND 0x0F) OR 0x40, 8 := (rnd ! 8 AND 0x3F) OR 0x80]"

lemma length_hex_encode: "length (hex_encode ws) = 2 * length ws"
  by (induction ws) (auto simp: hex_encode_def)

lemma session_id_versioned:
  "session_id rnd = (let h = hex_encode (versioned rnd) in take 8 h @ ''-'' @ take 4 (drop 8 h) @ ''-'' @
     take 4 (drop 12 h) @ ''-'' @ take 4 (drop 16 h) @ ''-'' @ drop 20 h)"
  by (simp add: session_id_def versioned_def Let_def)

lemma hex_encode_nth:
  "i < length ws \<Longrightarrow> hex_encode ws ! (2 * i) = hexdigit (unat (drop_bit 4 (ws ! i)))"
proof (induction ws arbitrary: i)
  case (Cons w ws)
  then show ?case by (cases i) (simp_all add: hex_encode_def hex_byte_def)
qed simp

lemma dashes_split:
  assumes "length h = 32" "length h' = 32"
    and "take 8 h @ ''-'' @ take 4 (drop 8 h) @ ''-'' @ take 4 (drop 12 h) @ ''-'' @ take 4 (drop 16 h) @ ''-'' @ drop 20 h =
      take 8 h' @ ''-'' @ take 4 (drop 8 h') @ ''-'' @ take 4 (drop 12 h') @ ''-'' @ take 4 (drop 16 h') @ ''-'' @ drop 20 h'"
  shows "h = h'"
proof -
  have parts: "h = take 8 h @ take 4 (drop 8 h) @ take 4 (drop 12 h) @ take 4 (drop 16 h) @ drop 20 h" for h :: string
  proof -
    have "drop 8 h = take 4 (drop 8 h) @ drop 12 h" "drop 12 h = take 4 (drop 12 h) @ drop 16 h"
      "drop 16 h = take 4 (drop 16 h) @ drop 20 h"
      using append_take_drop_id [of 4 "drop 8 h"] append_take_drop_id [of 4 "drop 12 h"] append_take_drop_id [of 4 "drop 16 h"]
      by (simp_all add: drop_drop)
    then show ?thesis by (metis append_take_drop_id)
  qed
  have "take 8 h = take 8 h'" "take 4 (drop 8 h) = take 4 (drop 8 h')" "take 4 (drop 12 h) = take 4 (drop 12 h')"
    "take 4 (drop 16 h) = take 4 (drop 16 h')" "drop 20 h = drop 20 h'"
    using assms by simp_all
  then show ?thesis using parts [of h] parts [of h'] by metis
qed

text \<open>
  The session id of a probe is a version 4 UUID in its usual form: 36 characters, dashes at
  8, 13, 18 and 23, the version digit 4 at 14, a variant digit 8, 9, a or b at 19, and lower-case
  hexadecimal digits elsewhere. Two sources of randomness give the same id only if they agree in
  every bit but the six that the format fixes.
\<close>

theorem session_id_form:
  assumes "length rnd = 16" and "length rnd' = 16"
  shows "length (session_id rnd) = 36 \<and>
    (\<forall>i < 36. if i \<in> {8, 13, 18, 23} then session_id rnd ! i = CHR ''-'' else session_id rnd ! i \<in> set hex_digits) \<and>
    session_id rnd ! 14 = CHR ''4'' \<and> session_id rnd ! 19 \<in> set ''89ab'' \<and>
    (session_id rnd = session_id rnd' \<longrightarrow>
      (\<forall>i < 16. if i = 6 then rnd ! 6 AND 0x0F = rnd' ! 6 AND 0x0F
                else if i = 8 then rnd ! 8 AND 0x3F = rnd' ! 8 AND 0x3F else rnd ! i = rnd' ! i))"
proof -
  define h where "h = hex_encode (versioned rnd)"
  have len: "length h = 32" "length (hex_encode (versioned rnd')) = 32"
    using assms by (simp_all add: h_def length_hex_encode versioned_def)
  have sid: "session_id rnd = take 8 h @ ''-'' @ take 4 (drop 8 h) @ ''-'' @ take 4 (drop 12 h) @ ''-'' @
      take 4 (drop 16 h) @ ''-'' @ drop 20 h"
    by (simp add: session_id_versioned h_def Let_def)
  have dig: "h ! i \<in> set hex_digits" if "i < 32" for i
    using that len hex_encode_digits [of "versioned rnd"] by (auto simp: h_def)
  have nth: "session_id rnd ! i = (if i < 8 then h ! i else if i = 8 then CHR ''-'' else if i < 13 then h ! (i - 1)
      else if i = 13 then CHR ''-'' else if i < 18 then h ! (i - 2) else if i = 18 then CHR ''-''
      else if i < 23 then h ! (i - 3) else if i = 23 then CHR ''-'' else h ! (i - 4))" if "i < 36" for i
    using that len by (auto simp: sid nth_append nth_Cons')
  have v6: "h ! 12 = CHR ''4''" and v8: "h ! 16 \<in> set ''89ab''"
  proof -
    have four: "hexdigit 4 = CHR ''4''" and variant: "\<forall>x \<in> {8, 9, 10, 11 :: 8 word}. hexdigit (unat x) \<in> set ''89ab''" by code_simp+
    from four show "h ! 12 = CHR ''4''"
      using hex_encode_nth [of 6 "versioned rnd"] assms byte_facts(4) by (simp add: h_def versioned_def)
    have "h ! 16 = hexdigit (unat (drop_bit 4 ((rnd ! 8 AND 0x3F) OR 0x80)))"
      using hex_encode_nth [of 8 "versioned rnd"] assms by (simp add: h_def versioned_def)
    with variant byte_facts(5) [of "rnd ! 8"] show "h ! 16 \<in> set ''89ab''" by (simp only: Ball_def)
  qed
  have same: "versioned rnd = versioned rnd'" if "session_id rnd = session_id rnd'"
  proof -
    have "h = hex_encode (versioned rnd')"
      using dashes_split [OF len] that unfolding session_id_versioned Let_def h_def by blast
    then show ?thesis by (simp add: h_def hex_encode_inj)
  qed
  have bits: "if i = 6 then rnd ! 6 AND 0x0F = rnd' ! 6 AND 0x0F
      else if i = 8 then rnd ! 8 AND 0x3F = rnd' ! 8 AND 0x3F else rnd ! i = rnd' ! i"
    if eq: "session_id rnd = session_id rnd'" and "i < 16" for i
  proof -
    have "versioned rnd ! i = versioned rnd' ! i" using same [OF eq] by simp
    then show ?thesis
      using that assms byte_facts(6,7) by (auto simp: versioned_def nth_list_update split: if_splits) metis+
  qed
  have "length (session_id rnd) = 36" using len by (simp add: sid)
  moreover have "\<forall>i < 36. if i \<in> {8, 13, 18, 23} then session_id rnd ! i = CHR ''-'' else session_id rnd ! i \<in> set hex_digits"
    using nth dig by auto
  moreover have "session_id rnd ! 14 = CHR ''4''" "session_id rnd ! 19 \<in> set ''89ab''"
    using nth [of 14] nth [of 19] v6 v8 by simp_all
  ultimately show ?thesis using bits by blast
qed

theorem session_id_form_witness:
  "session_id (replicate 16 0) = ''00000000-0000-4000-8000-000000000000'' \<and> session_id (replicate 16 0) ! 14 = CHR ''4''"
proof -
  have "session_id (replicate 16 0) = ''00000000-0000-4000-8000-000000000000''" by code_simp
  moreover have "session_id (replicate 16 0) ! 14 = CHR ''4''"
    using session_id_form [of "replicate 16 0" "replicate 16 0"] by simp
  ultimately show ?thesis by blast
qed

end
