(* ===== verification/Probe_Spec.thy ===== *)
theory Probe_Spec
  imports Probe_Client Collect Discovery_Spec
begin

text \<open>
  What the probe client promises: which requests it sends, what a scope stands for, and how its
  results meet the engine that uses it.
\<close>

section \<open>Headers\<close>

lemma canonical_names:
  "CanonicalHeaderKey ''Authorization'' = ''Authorization''"
  "CanonicalHeaderKey ''Proxy-Authorization'' = ''Proxy-Authorization''"
  "CanonicalHeaderKey ''X-Codex-Turn-State'' = ''X-Codex-Turn-State''"
  "CanonicalHeaderKey ''Chatgpt-Account-Id'' = ''Chatgpt-Account-Id''"
  "CanonicalHeaderKey ''Host'' = ''Host''"
  "CanonicalHeaderKey ''Content-Length'' = ''Content-Length''"
  "CanonicalHeaderKey ''Transfer-Encoding'' = ''Transfer-Encoding''"
  "CanonicalHeaderKey ''Connection'' = ''Connection''"
  "CanonicalHeaderKey ''Content-Type'' = ''Content-Type''"
  "CanonicalHeaderKey ''Accept'' = ''Accept''"
  "CanonicalHeaderKey ''Accept-Encoding'' = ''Accept-Encoding''"
  "CanonicalHeaderKey ''OpenAI-Beta'' = ''Openai-Beta''"
  "CanonicalHeaderKey ''Version'' = ''Version''"
  "CanonicalHeaderKey ''Session-Id'' = ''Session-Id''"
  "CanonicalHeaderKey ''User-Agent'' = ''User-Agent''"
  "CanonicalHeaderKey ''Originator'' = ''Originator''"
  "CanonicalHeaderKey ''X-Codex-Plan-Type'' = ''X-Codex-Plan-Type''"
  by code_simp+

lemma header_values_set: "header_values k (hdr_set k' v h) =
  (if CanonicalHeaderKey k = CanonicalHeaderKey k' then [v] else header_values k h)"
  by (simp add: header_values_def hdr_set_def gm_get0_def)

lemma header_values_del: "header_values k (hdr_del k' h) =
  (if CanonicalHeaderKey k = CanonicalHeaderKey k' then [] else header_values k h)"
  by (simp add: header_values_def hdr_del_def gm_get0_def)

text \<open>Header maps the client builds: distinct names, one value each.\<close>

definition single_valued :: "header \<Rightarrow> bool" where
  "single_valued h \<longleftrightarrow> gm_wf h \<and> (\<forall>(k, vs) \<in> set h. length vs = 1)"

lemma single_valued_Nil [simp]: "single_valued []"
  by (simp add: single_valued_def)

lemma single_valued_set [simp]: "single_valued h \<Longrightarrow> single_valued (hdr_set k v h)"
  using gm_put_in by (fastforce simp: single_valued_def hdr_set_def)

lemma single_valued_del [simp]: "single_valued h \<Longrightarrow> single_valued (hdr_del k h)"
  by (auto simp: single_valued_def hdr_del_def gm_del_in)

lemma single_valued_auth: "auth_headers kvs h = Some h' \<Longrightarrow> single_valued h \<Longrightarrow> single_valued h'"
  by (induction kvs h rule: auth_headers.induct) (auto split: if_splits)

lemma single_valued_owned: "single_valued h \<Longrightarrow> single_valued (fold hdr_del ns h)"
  by (induction ns arbitrary: h) auto

lemma probe_headers_single: "probe_headers visit auth cfg = Some h \<Longrightarrow> single_valued h"
  using single_valued_auth
  by (auto simp: probe_headers_def Let_def cloak_def intro!: single_valued_owned split: option.splits if_splits)

lemma header_values_owned:
  "header_values k (fold hdr_del ns h) =
     (if CanonicalHeaderKey k \<in> CanonicalHeaderKey ` set ns then [] else header_values k h)"
  by (induction ns arbitrary: h) (auto simp: header_values_del)

lemma probe_headers_owned:
  assumes "probe_headers visit auth cfg = Some h" and "n \<in> set owned_headers"
  shows "header_values n h = []"
  using assms by (auto simp: probe_headers_def Let_def header_values_owned split: option.splits)

section \<open>Resolved accounts\<close>

lemma resolve_authE:
  assumes "resolve_auth lib w authID auth cfg = Inr s"
  obtains "probe_headers (wd_visit w) auth cfg = Some (sn_headers s)" "sn_token s = cr_Token auth"
    "newTransport (lb_BuildDialer lib) (sn_route s) = None" "sn_route s = formal_route auth cfg"
    "sn_accountID s = jc_AccountID (identity auth)" "sn_accountID s \<noteq> []" "sn_plan s = jc_Plan (identity auth)"
    "sn_email s = jc_Email (identity auth)"
    "sn_scope s = hex_encode (lb_sha256 lib
       (scope_payload authID (sn_accountID s) (sn_plan s) (sn_route s) (sn_headers s)))"
  using assms by (auto simp: resolve_auth_def Let_def split: if_splits option.splits)

text \<open>What an account must be for its snapshot to be resolved.\<close>

lemma resolve_atE:
  assumes "resolve_at lib w authID index = Inr s"
  obtains a f auth cfg where "wd_runtime w index = Some a" "enabled_account a authID index"
    "official_upstream (ha_BaseURL a)" "wd_get w index = Some f" "hg_AuthIndex f = index"
    "unmarshal_credentials (hg_JSON f) = Some auth" "cr_Type auth = ''codex''" "\<not> cr_Disabled auth"
    "cr_Token auth \<noteq> []" "official_upstream (cr_BaseURL auth)" "readConfig lib w = Inr cfg"
    "resolve_auth lib w authID auth cfg = Inr s"
  using assms by (auto simp: resolve_at_def split: if_splits option.splits sum.splits)

lemma resolveE:
  assumes "resolve lib w authID c = (Inr s, c')"
  obtains index where "wd_ctx w = None" "authIndex w authID c = (Inr index, c')" "index \<noteq> []"
    "resolve_at lib w authID index = Inr s"
  using assms
  by (auto simp: resolve_def authIndex_def Let_def split: option.splits sum.splits prod.splits if_splits)

lemma resolved_headers:
  assumes "resolve lib w authID c = (Inr s, c')"
  shows "single_valued (sn_headers s)" "n \<in> set owned_headers \<Longrightarrow> header_values n (sn_headers s) = []"
  using assms by (auto elim!: resolveE resolve_atE resolve_authE intro: probe_headers_single probe_headers_owned)

lemma resolved_route: "resolve lib w authID c = (Inr s, c') \<Longrightarrow> newTransport (lb_BuildDialer lib) (sn_route s) = None"
  by (auto elim!: resolveE resolve_atE resolve_authE)

section \<open>What is sent\<close>

lemma probe_request_headers:
  "header_values ''Authorization'' (hq_Header (probe_request s r sid)) = [''Bearer '' @ sn_token s]"
  "header_values ''Chatgpt-Account-Id'' (hq_Header (probe_request s r sid)) = [sn_accountID s]"
  "header_values ''Session-Id'' (hq_Header (probe_request s r sid)) = [sid]"
  "header_values StateHeader (hq_Header (probe_request s r sid)) =
     (if rq_State r \<noteq> [] then [rq_State r] else header_values StateHeader (sn_headers s))"
  by (simp_all add: probe_request_def header_values_set canonical_names StateHeader_def Let_def)

text \<open>The three outcomes of \<open>Probe\<close>: nothing sent, sent and failed, sent and answered.\<close>

lemma ProbeE:
  assumes "Probe lib pw r c = (res, sent, c')"
  obtains (quiet) e where "res = Inl e" "sent = None"
  | (failed) e s c1 route random where "res = Inl e" "resolve lib (pw_before pw) (rq_AuthID r) c = (Inr s, c1)"
      "sn_scope s = rq_ExpectedScope r" "rq_ExpectedScope r \<noteq> []" "probe_route s r = Inr route"
      "newTransport (lb_BuildDialer lib) route = None" "pw_random pw = Some random"
      "sent = Some (route, probe_request s r (session_id random))"
  | (answered) s c1 route random reply result after where "res = Inr result"
      "resolve lib (pw_before pw) (rq_AuthID r) c = (Inr s, c1)"
      "sn_scope s = rq_ExpectedScope r" "rq_ExpectedScope r \<noteq> []" "probe_route s r = Inr route"
      "newTransport (lb_BuildDialer lib) route = None" "pw_random pw = Some random"
      "sent = Some (route, probe_request s r (session_id random))"
      "pw_send pw route (probe_request s r (session_id random)) = Some reply"
      "read_reply (pw_ctx_read pw) s r reply = Inr result"
      "resolve lib (pw_after pw) (rq_AuthID r) c1 = (Inr after, c')" "sn_scope after = sn_scope s"
  using assms
  by (auto simp: Probe_def Let_def split: if_splits prod.splits sum.splits option.splits
      dest!: sym [of "Inl _" "read_reply _ _ _ _"] sym [of "Inr _" "read_reply _ _ _ _"])

lemma read_reply_scope: "read_reply ctx s r reply = Inr x \<Longrightarrow> rs_Scope x = sn_scope s"
  by (auto simp: read_reply_def Let_def split: if_splits)

definition sent_for :: "ProbeRequest \<Rightarrow> snapshot \<Rightarrow> string \<Rightarrow> http_request \<Rightarrow> bool" where
  "sent_for r s route q \<longleftrightarrow> sn_scope s = rq_ExpectedScope r \<and> hq_Method q = ''POST'' \<and> hq_URL q = endpoint \<and>
     header_values ''Authorization'' (hq_Header q) = [''Bearer '' @ sn_token s] \<and>
     header_values ''Chatgpt-Account-Id'' (hq_Header q) = [sn_accountID s] \<and>
     header_values StateHeader (hq_Header q) = (if rq_State r = [] then [] else [rq_State r]) \<and>
     (case rq_ProxyOverride r of None \<Rightarrow> route = sn_route s
      | Some p \<Rightarrow> route = p \<and> HasPrefix p ''socks5h://'')"

lemma probe_request_sent_for:
  assumes "resolve lib w a c = (Inr s, c1)" and "sn_scope s = rq_ExpectedScope r" and "probe_route s r = Inr route"
  shows "sent_for r s route (probe_request s r sid)"
proof -
  have "header_values StateHeader (sn_headers s) = []"
    using resolved_headers(2) [OF assms(1)] by (simp add: owned_headers_def StateHeader_def)
  moreover have "case rq_ProxyOverride r of None \<Rightarrow> route = sn_route s | Some p \<Rightarrow> route = p \<and> HasPrefix p ''socks5h://''"
    using assms(3) by (auto simp: probe_route_def split: option.splits if_splits)
  moreover have "hq_Method (probe_request s r sid) = ''POST''" "hq_URL (probe_request s r sid) = endpoint"
    by (simp_all add: probe_request_def Let_def)
  ultimately show ?thesis
    using assms(2) probe_request_headers by (auto simp: sent_for_def)
qed

lemma Probe_sent:
  assumes "Probe lib pw r c = (res, Some (route, q), c')"
  obtains s c1 where "resolve lib (pw_before pw) (rq_AuthID r) c = (Inr s, c1)" "sent_for r s route q"
    "newTransport (lb_BuildDialer lib) route = None"
  using assms by (cases rule: ProbeE) (auto intro: probe_request_sent_for)

lemma Probe_answered:
  assumes "Probe lib pw r c = (Inr result, sent, c')"
  obtains s c1 route random reply after where "resolve lib (pw_before pw) (rq_AuthID r) c = (Inr s, c1)"
    "sent = Some (route, probe_request s r (session_id random))" "rq_ExpectedScope r \<noteq> []"
    "read_reply (pw_ctx_read pw) s r reply = Inr result" "rs_Scope result = rq_ExpectedScope r"
    "resolve lib (pw_after pw) (rq_AuthID r) c1 = (Inr after, c')" "sn_scope after = rs_Scope result"
  using assms
proof (cases rule: ProbeE)
  case (answered s c1 route random reply x after)
  then show ?thesis using that [of s c1 route random reply after] read_reply_scope by force
qed auto

text \<open>
  C7. A request is only ever sent when the account resolves to exactly the scope the engine asked
  for. It goes to the one endpoint, with that account's token and id, carries the state the
  engine asked to verify or no state at all (never one from the account's configured
  headers), and takes the given SOCKS5H proxy, or the account's own route if none is given. A
  probe that succeeds has sent a request, its result names the expected scope, and the
  account still has that scope afterwards.
\<close>

theorem probe_request_pinned:
  assumes "Probe lib pw r c = (res, sent, c')"
  shows "(sent = Some (route, q) \<longrightarrow>
      (\<exists>s c1. resolve lib (pw_before pw) (rq_AuthID r) c = (Inr s, c1) \<and> sn_scope s = rq_ExpectedScope r \<and>
        hq_Method q = ''POST'' \<and> hq_URL q = endpoint \<and>
        header_values ''Authorization'' (hq_Header q) = [''Bearer '' @ sn_token s] \<and>
        header_values ''Chatgpt-Account-Id'' (hq_Header q) = [sn_accountID s] \<and>
        header_values StateHeader (hq_Header q) = (if rq_State r = [] then [] else [rq_State r]) \<and>
        (case rq_ProxyOverride r of None \<Rightarrow> route = sn_route s
         | Some p \<Rightarrow> route = p \<and> HasPrefix p ''socks5h://'') \<and>
        newTransport (lb_BuildDialer lib) route = None)) \<and>
    (res = Inr result \<longrightarrow> sent \<noteq> None \<and> rs_Scope result = rq_ExpectedScope r \<and> rs_Scope result \<noteq> [] \<and>
      (\<exists>after c1. resolve lib (pw_after pw) (rq_AuthID r) c1 = (Inr after, c') \<and> sn_scope after = rs_Scope result))"
  using assms by (auto elim!: Probe_sent Probe_answered simp: sent_for_def)

section \<open>A sample account\<close>

definition sample_entry :: HostAuthFileEntry where
  "sample_entry = \<lparr>ha_ID = ''u1'', ha_AuthIndex = ''i1'', ha_Type = ''codex'', ha_Provider = [], ha_Email = [],
     ha_Status = [], ha_Disabled = False, ha_RuntimeOnly = False, ha_BaseURL = []\<rparr>"

definition sample_credentials :: string where
  "sample_credentials = marshal (JObj [(''type'', JStr ''codex''), (''access_token'', JStr ''tok''),
     (''account_id'', JStr ''acc''), (''plan_type'', JStr ''pro''),
     (''headers'', JObj [(''x-a'', JStr ''1''), (''X-A'', JStr ''2''), (''x-codex-turn-state'', JStr ''old'')])])"

definition sample_world :: world where
  "sample_world = \<lparr>wd_ctx = None, wd_list = Some [sample_entry], wd_runtime = (\<lambda>_. Some sample_entry),
     wd_get = (\<lambda>_. Some \<lparr>hg_AuthIndex = ''i1'', hg_JSON = sample_credentials\<rparr>), wd_guard = None,
     wd_file = Some \<lparr>fv_before = Some (1, 0), fv_bytes = ''x'', fv_read_ok = True, fv_after = Some (1, 0)\<rparr>,
     wd_visit = (\<lambda>m. m), wd_ctx_end = None\<rparr>"

definition sample_library :: library where
  "sample_library = \<lparr>lb_yaml = (\<lambda>_. Some ([MappingNode], Some \<lparr>hc_Proxy = [], hc_UserAgent = [],
       hc_DisableCloaking = True\<rparr>)),
     lb_BuildDialer = (\<lambda>_. Some (Some True)), lb_sha256 = (\<lambda>_. [0x61, 0x62])\<rparr>"

definition sample_ask :: "string option \<Rightarrow> string \<Rightarrow> ProbeRequest" where
  "sample_ask proxy state = \<lparr>rq_AuthID = ''u1'', rq_Model = ''gpt-5'', rq_ProxyOverride = proxy, rq_State = state,
     rq_ExpectedScope = ''6162'', rq_TimeoutSeconds = 20\<rparr>"

definition sample_probe_world :: probe_world where
  "sample_probe_world = \<lparr>pw_before = sample_world, pw_random = Some (replicate 16 0xFF),
     pw_send = (\<lambda>_ _. Some \<lparr>hs_StatusCode = 429, hs_Header = [], hs_Body = [], hs_read_ok = True\<rparr>),
     pw_ctx_read = None, pw_after = sample_world\<rparr>"

definition no_client :: Client where "no_client = \<lparr>cl_indices = []\<rparr>"

theorem probe_request_pinned_witness:
  "\<exists>q. fst (snd (Probe sample_library sample_probe_world (sample_ask (Some ''socks5h://p'') ''s'') no_client)) =
         Some (''socks5h://p'', q) \<and>
     header_values StateHeader (hq_Header q) = [''s'']"
proof -
  obtain route q where q: "fst (snd (Probe sample_library sample_probe_world (sample_ask (Some ''socks5h://p'') ''s'') no_client)) =
      Some (route, q)"
  proof -
    have "fst (snd (Probe sample_library sample_probe_world (sample_ask (Some ''socks5h://p'') ''s'') no_client)) \<noteq> None"
      by code_simp
    then show ?thesis using that by auto
  qed
  obtain res c' where "Probe sample_library sample_probe_world (sample_ask (Some ''socks5h://p'') ''s'') no_client =
      (res, Some (route, q), c')"
    using q by (metis prod.collapse)
  from probe_request_pinned [OF this, of route q undefined] show ?thesis
    using q by (auto simp: sample_ask_def)
qed

end
