(* ===== verification/Scope_Spec.thy ===== *)
theory Scope_Spec
  imports Probe_Spec Session_Spec "HOL-Library.Multiset"
begin

text \<open>
  What a scope stands for. The scope of a snapshot is a digest of the account and everything
  that decides how its requests look upstream, written as one JSON text. The text determines
  all of it, so unless the digests collide equal scopes mean the same account on the same
  route with the same headers. The token and the email are not part of it.
\<close>

section \<open>The text of a scope\<close>

definition entry_text :: "string \<times> string list \<Rightarrow> string" where
  "entry_text kv = json_quote (fst kv) @ '':'' @ marshal (JArr (map JStr (snd kv)))"

definition pair_text :: "string \<times> string list \<Rightarrow> string \<times> string" where
  "pair_text kv = (fst kv, entry_text kv)"

lemma sort_pair_text: "sort_key fst (map pair_text h) = map pair_text (sort_key fst h)"
proof -
  have "insort_key fst (pair_text x) (map pair_text h) = map pair_text (insort_key fst x h)" for x h
    by (induction h) (auto simp: pair_text_def)
  then show ?thesis by (induction h) simp_all
qed

lemma scope_payload_text:
  "scope_payload a acc plan route h =
     ''['' @ json_quote ''plugin-probe-v1'' @ '','' @ json_quote a @ '','' @ json_quote acc @ '','' @ json_quote plan @
     '','' @ json_quote route @ '','' @ ''{'' @ commas (map entry_text (sort_key fst h)) @ ''}'' @ '']''"
proof -
  have "map (\<lambda>kv. (fst kv, json_quote (fst kv) @ '':'' @ marshal (snd kv)))
      (map (\<lambda>kv. (fst kv, JArr (map JStr (snd kv)))) h) = map pair_text h"
    by (simp add: pair_text_def entry_text_def)
  moreover have "map snd (map pair_text hs) = map entry_text hs" for hs
    by (simp add: pair_text_def)
  ultimately have "marshal (JObj (map (\<lambda>kv. (fst kv, JArr (map JStr (snd kv)))) h)) =
      ''{'' @ commas (map entry_text (sort_key fst h)) @ ''}''"
    by (simp only: marshal.simps sort_pair_text)
  then show ?thesis
    unfolding scope_payload_def marshal.simps(5) list.map by (simp add: json_quote_def)
qed

definition entry_ok :: "string \<times> string list \<Rightarrow> bool" where
  "entry_ok kv \<longleftrightarrow> (\<exists>v. snd kv = [v] \<and> valid_utf8 v) \<and> valid_utf8 (fst kv)"

lemma entry_text_split:
  assumes "entry_text x @ r = entry_text y @ r'" and "entry_ok x" and "entry_ok y"
  shows "x = y \<and> r = r'"
proof -
  obtain k v k' v' where x: "x = (k, [v])" "y = (k', [v'])" and ok: "valid_utf8 k" "valid_utf8 v" "valid_utf8 k'" "valid_utf8 v'"
    using assms(2,3) by (cases x; cases y) (auto simp: entry_ok_def)
  have "json_quote k @ ('':['' @ json_quote v @ '']'' @ r) = json_quote k' @ ('':['' @ json_quote v' @ '']'' @ r')"
    using assms(1) by (simp add: x entry_text_def)
  from json_quote_split [OF this ok(1,3)] have "k = k'" and "json_quote v @ ('']'' @ r) = json_quote v' @ ('']'' @ r')"
    by simp_all
  with json_quote_split [OF this(2) ok(2,4)] show ?thesis by (simp add: x)
qed

lemma commas_Cons: "commas (s # ss) = s @ (if ss = [] then [] else '','' @ commas ss)"
  by (cases ss) simp_all

lemma entries_split:
  assumes "commas (map entry_text xs) @ ''}'' @ r = commas (map entry_text ys) @ ''}'' @ r'"
    and "list_all entry_ok xs" and "list_all entry_ok ys"
  shows "xs = ys"
  using assms
proof (induction xs arbitrary: ys)
  case Nil
  then show ?case
    by (cases ys) (auto simp: commas_Cons entry_text_def json_quote_def)
next
  case (Cons x xs)
  then obtain y ys' where ys: "ys = y # ys'"
    by (cases ys) (auto simp: commas_Cons entry_text_def json_quote_def)
  define tail where "tail zs q = (if zs = [] then [] else '','' @ commas (map entry_text zs)) @ ''}'' @ q" for zs q
  have "entry_text x @ tail xs r = entry_text y @ tail ys' r'"
    using Cons.prems(1) by (simp add: ys commas_Cons tail_def)
  then have "x = y" "tail xs r = tail ys' r'"
    using entry_text_split Cons.prems ys by auto
  moreover from this(2) have "xs = ys'"
    using Cons.IH [of ys'] Cons.prems ys by (auto simp: tail_def split: if_splits)
  ultimately show ?case by (simp add: ys)
qed

lemma scope_payload_inj:
  assumes "scope_payload a acc plan route h = scope_payload a' acc' plan' route' h'"
    and "list_all valid_utf8 [a, acc, plan, route]" and "list_all valid_utf8 [a', acc', plan', route']"
    and "list_all entry_ok h" and "list_all entry_ok h'"
  shows "a = a' \<and> acc = acc' \<and> plan = plan' \<and> route = route' \<and> sort_key fst h = sort_key fst h'"
proof -
  have ok: "list_all entry_ok (sort_key fst h)" "list_all entry_ok (sort_key fst h')"
    using assms(4,5) by (simp_all add: list_all_iff)
  let ?t = "\<lambda>h. ''{'' @ commas (map entry_text (sort_key fst h)) @ ''}'' @ '']''"
  have "json_quote a @ ('','' @ json_quote acc @ '','' @ json_quote plan @ '','' @ json_quote route @ '','' @ ?t h) =
      json_quote a' @ ('','' @ json_quote acc' @ '','' @ json_quote plan' @ '','' @ json_quote route' @ '','' @ ?t h')"
    using assms(1) by (simp add: scope_payload_text)
  from json_quote_split [OF this] have a: "a = a'"
    and "json_quote acc @ ('','' @ json_quote plan @ '','' @ json_quote route @ '','' @ ?t h) =
      json_quote acc' @ ('','' @ json_quote plan' @ '','' @ json_quote route' @ '','' @ ?t h')"
    using assms(2,3) by auto
  from json_quote_split [OF this(2)] have acc: "acc = acc'"
    and "json_quote plan @ ('','' @ json_quote route @ '','' @ ?t h) = json_quote plan' @ ('','' @ json_quote route' @ '','' @ ?t h')"
    using assms(2,3) by auto
  from json_quote_split [OF this(2)] have plan: "plan = plan'"
    and "json_quote route @ ('','' @ ?t h) = json_quote route' @ ('','' @ ?t h')"
    using assms(2,3) by auto
  from json_quote_split [OF this(2)] have route: "route = route'" and "?t h = ?t h'"
    using assms(2,3) by auto
  then show ?thesis
    using a acc plan entries_split [of "sort_key fst h" "'']''" "sort_key fst h'" "'']''"] ok by simp
qed

section \<open>Header maps as sets of entries\<close>

lemma sorted_headers_eq_iff:
  assumes "gm_wf h" and "gm_wf h'"
  shows "sort_key fst h = sort_key fst h' \<longleftrightarrow> (\<forall>n. gm_get h n = gm_get h' n)"
proof
  assume "sort_key fst h = sort_key fst h'"
  then have "set (sort_key fst h) = set (sort_key fst h')" by (rule arg_cong)
  then have "set h = set h'" by simp
  then show "\<forall>n. gm_get h n = gm_get h' n" using gm_get_wf_set_eq [OF assms] by simp
next
  assume "\<forall>n. gm_get h n = gm_get h' n"
  then have "set h = set h'" using gm_get_iff [OF assms(1)] gm_get_iff [OF assms(2)] by auto
  moreover have "distinct (map fst (sort_key fst h))" "distinct (map fst (sort_key fst h'))"
    using assms by (simp_all add: gm_wf_def distinct_map)
  moreover have "inj_on fst (set h)" using assms(1) by (simp add: gm_wf_def distinct_map)
  ultimately show "sort_key fst h = sort_key fst h'"
    by (intro map_sorted_distinct_set_unique [where f = fst]) simp_all
qed

text \<open>The texts of a snapshot are valid UTF-8, as everything decoded from JSON or YAML is.\<close>

definition snapshot_text :: "string \<Rightarrow> snapshot \<Rightarrow> bool" where
  "snapshot_text authID s \<longleftrightarrow> list_all valid_utf8 [authID, sn_accountID s, sn_plan s, sn_route s] \<and>
     list_all (\<lambda>kv. valid_utf8 (fst kv) \<and> list_all valid_utf8 (snd kv)) (sn_headers s)"

lemma snapshot_entries:
  assumes "snapshot_text authID s" and "single_valued (sn_headers s)"
  shows "list_all entry_ok (sn_headers s)"
  using assms by (fastforce simp: snapshot_text_def single_valued_def entry_ok_def list_all_iff length_Suc_conv)

definition scope_text :: "string \<Rightarrow> snapshot \<Rightarrow> string" where
  "scope_text a s = scope_payload a (sn_accountID s) (sn_plan s) (sn_route s) (sn_headers s)"

text \<open>
  C11. Unless the digests of the two texts collide, two snapshots have the same scope exactly when they are
  of the same account, with the same account id, plan, formal route and request headers. So a
  refreshed token or a changed email keeps the scope, and nothing else that a probe uses can
  change without changing it.
\<close>

theorem scope_pins_identity:
  assumes "resolve_auth lib w a auth cfg = Inr s" and "resolve_auth lib w' a' auth' cfg' = Inr s'"
    and "snapshot_text a s" and "snapshot_text a' s'" and "inj_on (lb_sha256 lib) {scope_text a s, scope_text a' s'}"
  shows "sn_scope s = sn_scope s' \<longleftrightarrow>
    a = a' \<and> sn_accountID s = sn_accountID s' \<and> sn_plan s = sn_plan s' \<and> sn_route s = sn_route s' \<and>
    (\<forall>n. gm_get (sn_headers s) n = gm_get (sn_headers s') n)"
proof -
  have single: "single_valued (sn_headers s)" "single_valued (sn_headers s')"
    using assms(1,2) by (auto elim!: resolve_authE intro: probe_headers_single)
  have "sn_scope s = sn_scope s' \<longleftrightarrow> lb_sha256 lib (scope_text a s) = lb_sha256 lib (scope_text a' s')"
    using assms(1,2) by (auto elim!: resolve_authE simp: hex_encode_inj scope_text_def)
  also have "\<dots> \<longleftrightarrow> scope_text a s = scope_text a' s'"
    using inj_on_eq_iff [OF assms(5)] by simp
  finally have scope: "sn_scope s = sn_scope s' \<longleftrightarrow>
      scope_payload a (sn_accountID s) (sn_plan s) (sn_route s) (sn_headers s) =
      scope_payload a' (sn_accountID s') (sn_plan s') (sn_route s') (sn_headers s')"
    by (simp add: scope_text_def)
  have sorted: "sort_key fst (sn_headers s) = sort_key fst (sn_headers s') \<longleftrightarrow>
      (\<forall>n. gm_get (sn_headers s) n = gm_get (sn_headers s') n)"
    using single by (intro sorted_headers_eq_iff) (simp_all add: single_valued_def)
  show ?thesis
    using scope_payload_inj [of a "sn_accountID s" "sn_plan s" "sn_route s" "sn_headers s" a' "sn_accountID s'" "sn_plan s'"
        "sn_route s'" "sn_headers s'"] assms(3,4) snapshot_entries [OF _ single(1)] snapshot_entries [OF _ single(2)]
    unfolding scope sorted [symmetric] by (auto simp: snapshot_text_def scope_payload_text)
qed

section \<open>The order of the configured headers\<close>

definition broken_header :: "string \<times> string \<Rightarrow> bool" where
  "broken_header kv \<longleftrightarrow> CHR 0x0D \<in> set (fst kv @ snd kv) \<or> CHR 0x0A \<in> set (fst kv @ snd kv)"

lemma auth_headers_None: "auth_headers kvs h = None \<longleftrightarrow> list_ex broken_header kvs"
  by (induction kvs h rule: auth_headers.induct) (auto simp: broken_header_def)

lemma auth_headers_get:
  assumes "auth_headers kvs h = Some h'" and "distinct (map (\<lambda>kv. CanonicalHeaderKey (fst kv)) kvs)"
  shows "gm_get h' n =
    (case find (\<lambda>kv. CanonicalHeaderKey (fst kv) = n) kvs of None \<Rightarrow> gm_get h n | Some kv \<Rightarrow> Some [snd kv])"
  using assms
proof (induction kvs h rule: auth_headers.induct)
  case (2 k v kvs h)
  have "find (\<lambda>kv. CanonicalHeaderKey (fst kv) = CanonicalHeaderKey k) kvs = None"
    using 2(3) by (force simp: find_None_iff)
  with 2 show ?case by (auto simp: hdr_set_def split: option.splits if_splits)
qed simp

lemma find_unique:
  assumes "distinct (map f xs)" and "set xs = set ys" and "distinct (map f ys)"
  shows "find (\<lambda>x. f x = n) xs = find (\<lambda>x. f x = n) ys"
proof (cases "find (\<lambda>x. f x = n) xs")
  case None
  with assms(2) have "find (\<lambda>x. f x = n) ys = None" by (simp add: find_None_iff)
  with None show ?thesis by simp
next
  case (Some x)
  then have x: "x \<in> set ys" "f x = n" using find_SomeD assms(2) by fastforce+
  then obtain y where y: "find (\<lambda>x. f x = n) ys = Some y"
    by (metis (mono_tags, lifting) find_None_iff not_Some_eq)
  then have "y \<in> set ys" "f y = n" using find_SomeD by fastforce+
  with x assms(3) have "y = x" by (metis distinct_map inj_onD)
  with Some y show ?thesis by simp
qed

lemma gm_get_owned: "gm_get (fold hdr_del ns h) n = (if n \<in> CanonicalHeaderKey ` set ns then None else gm_get h n)"
  by (induction ns arbitrary: h) (auto simp: hdr_del_def)

lemma gm_get_cloak:
  "gm_get (cloak h) n = (if n = ''Originator'' then Some [''codex_cli_rs'']
     else if n = ''User-Agent'' then Some [defaultUA] else gm_get h n)"
  by (simp add: cloak_def hdr_set_def canonical_names)

lemma probe_headers_visit:
  assumes "mset (visit (cr_Headers auth)) = mset (visit' (cr_Headers auth))"
    and "distinct (map (\<lambda>kv. CanonicalHeaderKey (fst kv)) (visit (cr_Headers auth)))"
  shows "rel_option (\<lambda>h h'. \<forall>n. gm_get h n = gm_get h' n) (probe_headers visit auth cfg) (probe_headers visit' auth cfg)"
proof -
  have sets: "set (visit (cr_Headers auth)) = set (visit' (cr_Headers auth))"
    using assms(1) by (rule mset_eq_setD)
  have dist: "distinct (map (\<lambda>kv. CanonicalHeaderKey (fst kv)) (visit' (cr_Headers auth)))"
    using assms by (metis mset_eq_imp_distinct_iff mset_map)
  have none: "auth_headers (visit (cr_Headers auth)) h = None \<longleftrightarrow> auth_headers (visit' (cr_Headers auth)) h = None" for h
    using sets by (simp add: auth_headers_None list_ex_iff)
  have same: "gm_get h1 n = gm_get h2 n"
    if "auth_headers (visit (cr_Headers auth)) h = Some h1" "auth_headers (visit' (cr_Headers auth)) h = Some h2" for h h1 h2 n
    using auth_headers_get [OF that(1) assms(2), of n] auth_headers_get [OF that(2) dist, of n]
      find_unique [OF assms(2) sets dist, of n] by simp
  let ?h = "if hc_UserAgent cfg \<noteq> [] then hdr_set ''User-Agent'' (hc_UserAgent cfg) (cloak []) else cloak []"
  show ?thesis
  proof (cases "auth_headers (visit (cr_Headers auth)) ?h")
    case None
    with none have "auth_headers (visit' (cr_Headers auth)) ?h = None" by simp
    with None show ?thesis by (simp add: probe_headers_def Let_def)
  next
    case (Some h1)
    with none obtain h2 where h2: "auth_headers (visit' (cr_Headers auth)) ?h = Some h2" by (metis not_Some_eq)
    with Some same [OF Some h2] show ?thesis
      by (simp add: probe_headers_def Let_def gm_get_owned gm_get_cloak)
  qed
qed

text \<open>
  When no two configured header names differ only in case, the order in which Go visits the
  account's header map does not matter: the outcome is an error in both orders, or a snapshot
  with the same scope.
\<close>

theorem scope_order_free:
  assumes "mset (visit (cr_Headers auth)) = mset (visit' (cr_Headers auth))"
    and "distinct (map (\<lambda>kv. CanonicalHeaderKey (fst kv)) (visit (cr_Headers auth)))"
  shows "rel_sum (=) (\<lambda>s s'. sn_scope s = sn_scope s' \<and> sn_route s = sn_route s' \<and> sn_plan s = sn_plan s' \<and>
      (\<forall>n. gm_get (sn_headers s) n = gm_get (sn_headers s') n))
    (resolve_auth lib (w\<lparr>wd_visit := visit\<rparr>) a auth cfg) (resolve_auth lib (w\<lparr>wd_visit := visit'\<rparr>) a auth cfg)"
proof (cases "probe_headers visit auth cfg")
  case None
  with probe_headers_visit [of visit auth visit' cfg] assms have "probe_headers visit' auth cfg = None" by simp
  with None show ?thesis by (simp add: resolve_auth_def Let_def split: option.split)
next
  case (Some h)
  with probe_headers_visit [of visit auth visit' cfg] assms obtain h' where h': "probe_headers visit' auth cfg = Some h'"
    and same: "\<forall>n. gm_get h n = gm_get h' n" by (auto simp: rel_option_iff split: option.splits)
  have "gm_wf h" "gm_wf h'"
    using probe_headers_single Some h' by (auto simp: single_valued_def)
  then have "sort_key fst h = sort_key fst h'" using same sorted_headers_eq_iff by blast
  then have "scope_payload a acc plan route h = scope_payload a acc plan route h'" for acc plan route
    by (simp add: scope_payload_text)
  with Some h' same show ?thesis by (auto simp: resolve_auth_def Let_def split: option.split)
qed

text \<open>
  Without that condition the order matters: for an account whose header map has both \<open>x-a\<close> and
  \<open>X-A\<close>, two visits of the same map give two scopes, so a probe of an unchanged account can
  fail with a changed scope.
\<close>

definition text_digest :: "string \<Rightarrow> 8 word list" where
  "text_digest s = map (\<lambda>c. word_of_nat (byte c)) s"

definition sample_auth :: credentials where
  "sample_auth = no_credentials\<lparr>cr_Type := ''codex'', cr_Token := ''tok'', cr_AccountID := ''acc'', cr_Plan := ''pro'',
     cr_Headers := [(''x-a'', ''1''), (''X-A'', ''2'')]\<rparr>"

definition sample_host_config :: hostConfig where
  "sample_host_config = \<lparr>hc_Proxy = [], hc_UserAgent = [], hc_DisableCloaking = False\<rparr>"

definition sample_digest_library :: library where
  "sample_digest_library = sample_library\<lparr>lb_sha256 := text_digest\<rparr>"

lemma text_digest_inj: "inj text_digest"
proof -
  have "inj (\<lambda>c. word_of_nat (byte c) :: 8 word)"
  proof (rule injI)
    fix c d assume "(word_of_nat (byte c) :: 8 word) = word_of_nat (byte d)"
    then have "take_bit 8 (byte c) = take_bit 8 (byte d)"
      by (simp add: word_of_nat_eq_iff)
    with byte_bound have "byte c = byte d" by (simp add: take_bit_eq_mod)
    then show "c = d" by (metis char_of_byte)
  qed
  then show ?thesis unfolding text_digest_def by (rule inj_mapI [unfolded comp_def])
qed

lemma scope_depends_on_map_order:
  "\<exists>lib s s'. resolve_auth lib (sample_world\<lparr>wd_visit := \<lambda>m. m\<rparr>) ''u1'' sample_auth sample_host_config = Inr s \<and>
     resolve_auth lib (sample_world\<lparr>wd_visit := rev\<rparr>) ''u1'' sample_auth sample_host_config = Inr s' \<and>
     sn_scope s \<noteq> sn_scope s'"
proof -
  let ?lib = "sample_library\<lparr>lb_sha256 := \<lambda>t. if CHR ''2'' \<in> set t then [1] else [0]\<rparr>"
  let ?r = "\<lambda>v. resolve_auth ?lib (sample_world\<lparr>wd_visit := v\<rparr>) ''u1'' sample_auth sample_host_config"
  have "isl (?r (\<lambda>m. m)) = False" "isl (?r rev) = False" "sn_scope (projr (?r (\<lambda>m. m))) \<noteq> sn_scope (projr (?r rev))"
    by code_simp+
  then show ?thesis by (metis sum.collapse(2))
qed

theorem scope_order_free_witness:
  "rel_sum (=) (\<lambda>s s'. sn_scope s = sn_scope s' \<and> sn_route s = sn_route s' \<and> sn_plan s = sn_plan s' \<and>
      (\<forall>n. gm_get (sn_headers s) n = gm_get (sn_headers s') n))
    (resolve_auth sample_digest_library (sample_world\<lparr>wd_visit := \<lambda>m. m\<rparr>) ''u1''
      (sample_auth\<lparr>cr_Headers := [(''x-a'', ''1''), (''X-B'', ''2'')]\<rparr>) sample_host_config)
    (resolve_auth sample_digest_library (sample_world\<lparr>wd_visit := rev\<rparr>) ''u1''
      (sample_auth\<lparr>cr_Headers := [(''x-a'', ''1''), (''X-B'', ''2'')]\<rparr>) sample_host_config)"
proof -
  have "distinct (map (\<lambda>kv. CanonicalHeaderKey (fst kv)) [(''x-a'', ''1''), (''X-B'', ''2'')])" by code_simp
  then show ?thesis by (intro scope_order_free) simp_all
qed

definition sample_auth_headers :: header where
  "sample_auth_headers = [(''User-Agent'', [defaultUA]), (''Originator'', [''codex_cli_rs'']), (''X-A'', [''2''])]"

lemma resolve_sample_auth:
  assumes "identity auth = \<lparr>jc_Email = em, jc_AccountID = ''acc'', jc_Plan = ''pro''\<rparr>" and "formal_route auth sample_host_config = ''direct''"
    and "probe_headers (wd_visit sample_world) auth sample_host_config = Some sample_auth_headers"
  shows "resolve_auth sample_digest_library sample_world ''u1'' auth sample_host_config = Inr
    \<lparr>sn_scope = hex_encode (text_digest (scope_payload ''u1'' ''acc'' ''pro'' ''direct'' sample_auth_headers)), sn_plan = ''pro'',
     sn_token = cr_Token auth, sn_accountID = ''acc'', sn_route = ''direct'', sn_email = em, sn_headers = sample_auth_headers\<rparr>"
proof -
  have "wd_ctx_end sample_world = None" "newTransport (lb_BuildDialer sample_digest_library) ''direct'' = None"
    by code_simp+
  with assms show ?thesis by (simp add: resolve_auth_def Let_def sample_digest_library_def)
qed

theorem scope_pins_identity_witness:
  "\<exists>s s'. resolve_auth sample_digest_library sample_world ''u1'' sample_auth sample_host_config = Inr s \<and>
     resolve_auth sample_digest_library sample_world ''u1'' (sample_auth\<lparr>cr_Token := ''new'', cr_Email := ''e''\<rparr>)
       sample_host_config = Inr s' \<and> sn_token s \<noteq> sn_token s' \<and> sn_scope s = sn_scope s'"
proof -
  let ?new = "sample_auth\<lparr>cr_Token := ''new'', cr_Email := ''e''\<rparr>"
  let ?s = "\<lambda>tok em. \<lparr>sn_scope = hex_encode (text_digest (scope_payload ''u1'' ''acc'' ''pro'' ''direct'' sample_auth_headers)),
     sn_plan = ''pro'', sn_token = tok, sn_accountID = ''acc'', sn_route = ''direct'', sn_email = em, sn_headers = sample_auth_headers\<rparr>"
  have "identity sample_auth = \<lparr>jc_Email = [], jc_AccountID = ''acc'', jc_Plan = ''pro''\<rparr>"
    "formal_route sample_auth sample_host_config = ''direct''"
    "probe_headers (wd_visit sample_world) sample_auth sample_host_config = Some sample_auth_headers"
    "identity ?new = \<lparr>jc_Email = ''e'', jc_AccountID = ''acc'', jc_Plan = ''pro''\<rparr>"
    "formal_route ?new sample_host_config = ''direct''"
    "probe_headers (wd_visit sample_world) ?new sample_host_config = Some sample_auth_headers"
    "cr_Token sample_auth = ''tok''" "cr_Token ?new = ''new''"
    by code_simp+
  then have one: "resolve_auth sample_digest_library sample_world ''u1'' sample_auth sample_host_config = Inr (?s ''tok'' [])"
    and two: "resolve_auth sample_digest_library sample_world ''u1'' ?new sample_host_config = Inr (?s ''new'' ''e'')"
    using resolve_sample_auth [of sample_auth "[]"] resolve_sample_auth [of ?new "''e''"] by simp_all
  have valid: "snapshot_text ''u1'' (?s tok em)" for tok em
  proof -
    have "list_all valid_utf8 [''u1'', ''acc'', ''pro'', ''direct'']"
      "list_all (\<lambda>kv. valid_utf8 (fst kv) \<and> list_all valid_utf8 (snd kv)) sample_auth_headers" by code_simp+
    then show ?thesis by (simp add: snapshot_text_def)
  qed
  have inj: "inj_on (lb_sha256 sample_digest_library) X" for X
    using inj_on_subset [OF text_digest_inj subset_UNIV] by (simp add: sample_digest_library_def)
  have "sn_scope (?s ''tok'' []) = sn_scope (?s ''new'' ''e'')"
    using scope_pins_identity [OF one two valid valid inj] by simp
  with one two show ?thesis by auto
qed

end
