(* ===== verification/Host_Spec.thy ===== *)
theory Host_Spec
  imports Probe_Spec
begin

text \<open>
  Where the engine meets its host. \<open>probe_host\<close> is what the engine's two verification steps
  rely on when they judge a reply; the probe client keeps it. The second part is the account
  directory: what a discovery run returns, and when the engine takes it.
\<close>

section \<open>The interface of a prober\<close>

locale probe_host =
  fixes probe :: "'w \<Rightarrow> ProbeRequest \<Rightarrow> ProbeResult option"
  assumes scope_echoed: "probe w r = Some res \<Longrightarrow> rs_Scope res = rq_ExpectedScope r"
    and body_bounded: "probe w r = Some res \<Longrightarrow> int (length (rs_Body res)) \<le> MaxProbeBytes"
    and empty_unless_ok: "probe w r = Some res \<Longrightarrow> rs_Status res \<noteq> 200 \<Longrightarrow>
      rs_State res = [] \<and> rs_ActualModel res = []"
begin

lemma harvest_verdict:
  assumes "probe w (harvest_request c a) = Some res"
  shows "harvest_ok a res \<longleftrightarrow> rs_Status res = 200 \<and> fst (EvaluateProbeBody (rs_Body res) (at_model a)) \<and>
    PlanMatches (rs_Plan res) (at_plan a) \<and> ValidState (rs_State res) (at_plan a)"
  using scope_echoed [OF assms] body_bounded [OF assms]
  by (auto simp: harvest_ok_def SuccessfulProbe_def harvest_request_def)

lemma formal_verdict:
  assumes "probe w (formal_request c a candidate fixd) = Some res"
  shows "formal_ok a fixd res \<longleftrightarrow> rs_Status res = 200 \<and> fst (EvaluateProbeBody (rs_Body res) (at_model a)) \<and>
    PlanMatches (rs_Plan res) (at_plan a) \<and> length (rs_State res) \<noteq> 312"
  using scope_echoed [OF assms] body_bounded [OF assms]
  by (auto simp: formal_ok_def SuccessfulProbe_def formal_request_def)

lemma mismatch_needs_answer:
  assumes "probe w r = Some res" and "rs_Status res \<noteq> 200"
  shows "failure_reason plain mismatch a res = plain"
  using empty_unless_ok [OF assms] by (simp add: failure_reason_def)

end

section \<open>The probe client is a prober\<close>

lemma limit_read_length: "0 \<le> n \<Longrightarrow> int (length (limit_read n s)) \<le> n"
  by (simp add: limit_read_take)

lemma read_reply_facts:
  assumes "read_reply ctx s r reply = Inr x"
  shows "int (length (rs_Body x)) \<le> MaxProbeBytes" "rs_Status x \<noteq> 200 \<Longrightarrow> rs_State x = [] \<and> rs_ActualModel x = []"
  using assms by (auto simp: read_reply_def Let_def MaxProbeBytes_def split: if_splits)

definition client_probe :: "library \<times> probe_world \<times> Client \<Rightarrow> ProbeRequest \<Rightarrow> ProbeResult option" where
  "client_probe w r =
     (case w of (lib, pw, c) \<Rightarrow> (case fst (Probe lib pw r c) of Inr res \<Rightarrow> Some res | Inl _ \<Rightarrow> None))"

lemma client_probeE:
  assumes "client_probe (lib, pw, c) r = Some res"
  obtains sent c' where "Probe lib pw r c = (Inr res, sent, c')"
  using assms by (auto simp: client_probe_def split: sum.splits) (metis prod.collapse)

interpretation client: probe_host client_probe
proof
  fix w :: "library \<times> probe_world \<times> Client" and r res
  assume *: "client_probe w r = Some res"
  obtain lib pw c where w: "w = (lib, pw, c)" by (cases w)
  obtain sent c' where "Probe lib pw r c = (Inr res, sent, c')"
    using * client_probeE unfolding w by blast
  then obtain s reply where "read_reply (pw_ctx_read pw) s r reply = Inr res" "rs_Scope res = rq_ExpectedScope r"
    by (rule Probe_answered) blast
  then show "rs_Scope res = rq_ExpectedScope r" "int (length (rs_Body res)) \<le> MaxProbeBytes"
    "rs_Status res \<noteq> 200 \<Longrightarrow> rs_State res = [] \<and> rs_ActualModel res = []"
    using read_reply_facts by blast+
qed

text \<open>
  C15. The engine on top of the probe client. An acquisition is sent over the engine's harvest
  proxy, which is a SOCKS5H one, and without any state; a verification is sent over the account's
  own route, with the candidate state. A reply the client returns is then judged on its
  status, its body, its plan and its state alone: scope and size checks of the engine hold for
  every reply of the client.
\<close>

theorem engine_probes_through_client:
  "(fst (Probe lib pw (harvest_request cfg a) c) = Inr res \<longrightarrow>
      (\<exists>q. fst (snd (Probe lib pw (harvest_request cfg a) c)) = Some (at_proxy a, q) \<and>
        HasPrefix (at_proxy a) ''socks5h://'' \<and> header_values StateHeader (hq_Header q) = []) \<and>
      (harvest_ok a res \<longleftrightarrow> rs_Status res = 200 \<and> fst (EvaluateProbeBody (rs_Body res) (at_model a)) \<and>
        PlanMatches (rs_Plan res) (at_plan a) \<and> ValidState (rs_State res) (at_plan a))) \<and>
   (fst (Probe lib pw (formal_request cfg a candidate fixd) c) = Inr res \<longrightarrow> rs_State candidate \<noteq> [] \<longrightarrow>
      (\<exists>q s c1. resolve lib (pw_before pw) (key_AuthID (jb_key (at_job a))) c = (Inr s, c1) \<and>
        fst (snd (Probe lib pw (formal_request cfg a candidate fixd) c)) = Some (sn_route s, q) \<and>
        header_values StateHeader (hq_Header q) = [rs_State candidate]) \<and>
      (formal_ok a fixd res \<longleftrightarrow> rs_Status res = 200 \<and> fst (EvaluateProbeBody (rs_Body res) (at_model a)) \<and>
        PlanMatches (rs_Plan res) (at_plan a) \<and> length (rs_State res) \<noteq> 312))"
proof -
  have sent: "\<exists>route q s c1. fst (snd (Probe lib pw r c)) = Some (route, q) \<and>
      resolve lib (pw_before pw) (rq_AuthID r) c = (Inr s, c1) \<and> sent_for r s route q \<and>
      client_probe (lib, pw, c) r = Some res"
    if ok: "fst (Probe lib pw r c) = Inr res" for r
  proof -
    obtain s1 c' where p: "Probe lib pw r c = (Inr res, s1, c')"
      using ok by (metis prod.collapse)
    then obtain route q where "s1 = Some (route, q)" by (rule Probe_answered) blast
    with p obtain s c1 where "resolve lib (pw_before pw) (rq_AuthID r) c = (Inr s, c1)" "sent_for r s route q"
      using Probe_sent by metis
    with p \<open>s1 = Some (route, q)\<close> show ?thesis by (auto simp: client_probe_def)
  qed
  show ?thesis
    using sent [of "harvest_request cfg a"] client.harvest_verdict [of "(lib, pw, c)" cfg a res]
      sent [of "formal_request cfg a candidate fixd"] client.formal_verdict [of "(lib, pw, c)" cfg a candidate fixd res]
    by (auto simp: sent_for_def harvest_request_def formal_request_def)
qed

definition sample_probing :: attempt where
  "sample_probing = \<lparr>at_job = \<lparr>jb_key = Key ''u1'' ''gpt-5'', jb_epoch = 1, jb_proxyIndex = 0\<rparr>, at_plan = ''pro'',
     at_no = 0, at_id = \<lparr>id_Scope = ''6162'', id_Plan = ''pro''\<rparr>, at_proxyIndex = 0, at_proxy = ''socks5h://p'', at_captured = 0\<rparr>"

definition sample_limited :: ProbeResult where
  "sample_limited = \<lparr>rs_Scope = ''6162'', rs_Status = 429, rs_State = [], rs_ActualModel = [], rs_Plan = ''pro'', rs_Body = []\<rparr>"

definition sample_timeout_cfg :: Config where
  "sample_timeout_cfg = Defaults \<lparr>Enabled = True, Models = [''gpt-5''], MaxProbesPerHour = 0, Proxies = [], ProxyFile = [],
     HostConfigFile = [], Accounts = [], Workers = 0, MaxAttempts = 0, AttemptIntervalSeconds = 0, CooldownSeconds = 0,
     TTLSeconds = 0, RefreshBeforeSeconds = 0, ProbeTimeoutSeconds = 0, MaxPending = 0\<rparr>"

theorem engine_probes_through_client_witness:
  "\<not> harvest_ok sample_probing sample_limited \<and>
   (\<exists>q. fst (snd (Probe sample_library sample_probe_world (harvest_request sample_timeout_cfg sample_probing) no_client)) =
      Some (''socks5h://p'', q) \<and> header_values StateHeader (hq_Header q) = [])"
proof -
  have "fst (Probe sample_library sample_probe_world (harvest_request sample_timeout_cfg sample_probing) no_client) = Inr sample_limited"
    "at_proxy sample_probing = ''socks5h://p''" "rs_Status sample_limited \<noteq> 200"
    by code_simp+
  with engine_probes_through_client [of sample_library sample_probe_world sample_timeout_cfg sample_probing no_client sample_limited]
  show ?thesis by auto
qed

section \<open>The account directory\<close>

fun fresh_ids :: "string list \<Rightarrow> HostAuthFileEntry list \<Rightarrow> string list" where
  "fresh_ids seen [] = []"
| "fresh_ids seen (a # as) =
     (if \<not> listed a \<or> ha_ID a \<in> set seen then fresh_ids seen as else ha_ID a # fresh_ids (ha_ID a # seen) as)"

lemma fresh_ids_set: "set (fresh_ids seen as) = {ha_ID a | a. a \<in> set as \<and> listed a} - set seen"
  by (induction seen as rule: fresh_ids.induct) auto

lemma fresh_ids_distinct: "distinct (fresh_ids seen as)"
  by (induction seen as rule: fresh_ids.induct) (auto simp: fresh_ids_set)

lemma fresh_ids_sorted: "sorted (map ha_ID as) \<Longrightarrow> sorted (fresh_ids seen as)"
  by (induction seen as rule: fresh_ids.induct) (auto simp: fresh_ids_set)

text \<open>How an account with a plan came about.\<close>

definition explained :: "library \<Rightarrow> (string \<Rightarrow> world) \<Rightarrow> HostAuthFileEntry list \<Rightarrow> Account \<Rightarrow> bool" where
  "explained lib ws files x \<longleftrightarrow> ac_Models x = [] \<and> ac_Plan x \<in> {[], ''pro'', ''team''} \<and>
     (ac_Plan x \<noteq> [] \<longrightarrow>
       (\<exists>a \<in> set files. ha_ID a = ac_AuthID x \<and> \<not> ha_Disabled a \<and> ha_Status a \<noteq> ''disabled'' \<and> \<not> ha_RuntimeOnly a) \<and>
       (\<exists>c s c'. resolve lib (ws (ac_AuthID x)) (ac_AuthID x) c = (Inr s, c') \<and> ac_Plan x = CanonicalPlan (sn_plan s)))"

lemma discovered_explained:
  assumes "discovered lib ws a c = (x, c')" and "a \<in> set files"
  shows "ac_AuthID x = ha_ID a" "explained lib ws files x"
proof -
  show "ac_AuthID x = ha_ID a"
    using assms by (auto simp: discovered_def Let_def split: if_splits prod.splits sum.splits)
  show "explained lib ws files x"
  proof (cases "\<not> ha_Disabled a \<and> ha_Status a \<noteq> ''disabled'' \<and> \<not> ha_RuntimeOnly a")
    case True
    obtain r c1 where r: "resolve lib (ws (ha_ID a)) (ha_ID a) c = (r, c1)" by fastforce
    show ?thesis
    proof (cases r)
      case (Inl e)
      with True r assms show ?thesis by (auto simp: discovered_def explained_def Let_def)
    next
      case (Inr s)
      with True r assms have x: "ac_AuthID x = ha_ID a" "ac_Models x = []" "ac_Plan x = CanonicalPlan (sn_plan s)"
        by (auto simp: discovered_def Let_def)
      moreover have "resolve lib (ws (ac_AuthID x)) (ac_AuthID x) c = (Inr s, c1)" using r Inr x by simp
      ultimately show ?thesis
        using True assms(2) CanonicalPlan_range [of "sn_plan s"] unfolding explained_def by metis
    qed
  next
    case False
    with assms show ?thesis by (auto simp: discovered_def explained_def Let_def split: if_splits)
  qed
qed

lemma explained_mono: "explained lib ws files x \<Longrightarrow> set files \<subseteq> set files' \<Longrightarrow> explained lib ws files' x"
  by (auto simp: explained_def)

lemma discover_loop_facts:
  assumes "discover_loop lib ws ctx n seen result as c = (Inr accounts, c')" and "set as \<subseteq> set files"
    and "length result \<le> 1000"
  shows "map ac_AuthID accounts = map ac_AuthID result @ fresh_ids seen as \<and> length accounts \<le> 1000 \<and>
    (list_all (explained lib ws files) result \<longrightarrow> list_all (explained lib ws files) accounts)"
  using assms
proof (induction lib ws ctx n seen result as c rule: discover_loop.induct)
  case (1 lib ws ctx n seen result c)
  then show ?case by (auto split: option.splits)
next
  case (2 lib ws ctx n seen result a as c)
  obtain x c1 where x: "discovered lib ws a c = (x, c1)" by (cases "discovered lib ws a c")
  have ctx: "ctx n = None" using "2.prems" by (auto split: option.splits)
  have listed: "listed a \<longleftrightarrow> \<not> (ha_ID a = [] \<or> ha_AuthIndex a = [] \<or> (ha_Type a \<noteq> ''codex'' \<and> ha_Provider a \<noteq> ''codex''))"
    by (auto simp: listed_def is_codex_def)
  show ?case
  proof (cases "listed a \<and> ha_ID a \<notin> set seen")
    case False
    with 2 ctx listed show ?thesis by (auto split: if_splits)
  next
    case True
    with "2.prems" ctx listed x have short: "length (result @ [x]) \<le> 1000"
      and rest: "discover_loop lib ws ctx (n + 1) (ha_ID a # seen) (result @ [x]) as c1 = (Inr accounts, c')"
      by (auto simp: Let_def split: if_splits)
    have "ac_AuthID x = ha_ID a" "explained lib ws files x"
      using discovered_explained [OF x] "2.prems"(2) by auto
    with "2.IH"(3) True ctx listed x short rest "2.prems"(2) show ?thesis by (auto simp: Let_def)
  qed
qed

text \<open>
  C19. A discovery run that succeeds returns every Codex account of the host's list once, in the
  order of the IDs, at most 1000 of them. An account has a plan only if it is enabled,
  file-backed and resolves, and then the family of its resolved plan; the others are listed
  without a plan. The engine accepts the run exactly when every ID is a valid one.
\<close>

theorem discovery_snapshot:
  assumes "DiscoverAccounts lib sort_ID w ws ctx c = (Inr accounts, c')"
    and "\<And>as. set (sort_ID as) = set as \<and> sorted (map ha_ID (sort_ID as))"
  shows "\<exists>files. wd_list w = Some files \<and>
    sorted (map ac_AuthID accounts) \<and> distinct (map ac_AuthID accounts) \<and> length accounts \<le> 1000 \<and>
    ac_AuthID ` set accounts = {ha_ID a | a. a \<in> set files \<and> listed a} \<and>
    (\<forall>x \<in> set accounts. explained lib ws files x) \<and>
    (fst (applyAccounts ordS ordP ordD accounts e) = None \<longleftrightarrow> (\<forall>x \<in> set accounts. validAuthID (ac_AuthID x)))"
proof -
  obtain files c1 where files: "wd_list w = Some files"
    and loop: "discover_loop lib ws ctx 0 [] [] (sort_ID files) c1 = (Inr accounts, c')"
    using assms(1) by (auto simp: DiscoverAccounts_def readDirectory_def Let_def split: sum.splits option.splits)
  have ids: "map ac_AuthID accounts = fresh_ids [] (sort_ID files)" and len: "length accounts \<le> 1000"
    and expl: "list_all (explained lib ws files) accounts"
    using discover_loop_facts [OF loop, of files] assms(2) by simp_all
  have srt: "sorted (map ac_AuthID accounts)" and dist: "distinct (map ac_AuthID accounts)"
    using ids fresh_ids_sorted fresh_ids_distinct assms(2) by simp_all
  have all: "ac_AuthID ` set accounts = {ha_ID a | a. a \<in> set files \<and> listed a}"
    using arg_cong [OF ids, of set] assms(2) by (simp add: fresh_ids_set)
  have "snapshot_ok accounts \<longleftrightarrow> (\<forall>x \<in> set accounts. validAuthID (ac_AuthID x))"
    using dist expl by (auto simp: snapshot_ok_def list_all_iff explained_def)
  with len have "fst (applyAccounts ordS ordP ordD accounts e) = None \<longleftrightarrow> (\<forall>x \<in> set accounts. validAuthID (ac_AuthID x))"
    by (simp add: applyAccounts_error)
  with files srt dist len all expl show ?thesis by (auto simp: list_all_iff)
qed

theorem discovery_snapshot_witness:
  "\<exists>accounts. fst (DiscoverAccounts sample_library (sort_key ha_ID) sample_world (\<lambda>_. sample_world) (\<lambda>_. None) no_client) =
      Inr accounts \<and> map ac_Plan accounts = [''pro''] \<and> sorted (map ac_AuthID accounts) \<and>
      fst (applyAccounts [] [] [] accounts sample_ready) = None"
proof -
  let ?d = "DiscoverAccounts sample_library (sort_key ha_ID) sample_world (\<lambda>_. sample_world) (\<lambda>_. None) no_client"
  let ?x = "\<lparr>ac_Email = [], ac_AuthID = ''u1'', ac_Plan = ''pro'', ac_Models = []\<rparr>"
  have d: "fst ?d = Inr [?x]" and ok: "validAuthID ''u1''" by code_simp+
  then have "?d = (Inr [?x], snd ?d)" by (metis prod.collapse)
  from discovery_snapshot [OF this, of "[]" "[]" "[]" sample_ready] ok
  have "sorted (map ac_AuthID [?x])" "fst (applyAccounts [] [] [] [?x] sample_ready) = None" by auto
  with d show ?thesis by auto
qed

end
