(* ===== verification/Host_Path.thy ===== *)
theory Host_Path
  imports Go_Text
begin

text \<open>
  Where the host keeps its configuration, \<open>internal/probe/config_path.go\<close>: the start-up flags
  of the host, the backends that are refused, and the path that results. \<open>getenv\<close> is \<open>None\<close>
  when the caller passes a nil function. Paths are those of a Unix system, where \<open>IsAbs\<close> asks
  for a leading slash; \<open>Clean\<close> works on the components between slashes, as
  \<open>path/filepath\<close> documents it. An error is its message.
\<close>

section \<open>Paths\<close>

definition IsAbs :: "string \<Rightarrow> bool" where
  "IsAbs path \<longleftrightarrow> HasPrefix path ''/''"

fun join_path :: "string list \<Rightarrow> string" where
  "join_path [] = []"
| "join_path [p] = p"
| "join_path (p # q # ps) = p @ ''/'' @ join_path (q # ps)"

text \<open>The components kept so far are on a stack, the last one first.\<close>

fun clean_loop :: "bool \<Rightarrow> string list \<Rightarrow> string list \<Rightarrow> string list" where
  "clean_loop rooted out [] = rev out"
| "clean_loop rooted out (c # cs) =
     (if c = [] \<or> c = ''.'' then clean_loop rooted out cs
      else if c = ''..'' then
        (case out of
           [] \<Rightarrow> clean_loop rooted (if rooted then [] else [c]) cs
         | p # ps \<Rightarrow> if p = ''..'' then clean_loop rooted (c # out) cs else clean_loop rooted ps cs)
      else clean_loop rooted (c # out) cs)"

definition Clean :: "string \<Rightarrow> string" where
  "Clean path =
     (let parts = clean_loop (IsAbs path) [] (split_on (CHR ''/'') path) in
      if IsAbs path then ''/'' @ join_path parts
      else if parts = [] then ''.'' else join_path parts)"

definition Join :: "string \<Rightarrow> string \<Rightarrow> string" where
  "Join a b =
     (if a \<noteq> [] then Clean (a @ ''/'' @ b) else if b \<noteq> [] then Clean b else [])"

section \<open>Flags of the host\<close>

fun Cut :: "string \<Rightarrow> char \<Rightarrow> string \<times> string \<times> bool" where
  "Cut [] d = ([], [], False)"
| "Cut (c # cs) d =
     (if c = d then ([], cs, True) else (case Cut cs d of (a, b, found) \<Rightarrow> (c # a, b, found)))"

definition TrimPrefix :: "string \<Rightarrow> string \<Rightarrow> string" where
  "TrimPrefix s p = (if HasPrefix s p then drop (length p) s else s)"

definition value_flags :: "string list" where
  "value_flags = [''config'', ''home-jwt'', ''oauth-callback-port'', ''discover-timeout'', ''discover-service-type'',
     ''discover-include'', ''discover-exclude'', ''vertex-import'', ''vertex-import-prefix'', ''password'']"

definition switch_flags :: "string list" where
  "switch_flags = [''codex-login'', ''codex-device-login'', ''claude-login'', ''no-browser'', ''antigravity-login'',
     ''kimi-login'', ''xai-login'', ''devin-login'', ''meta-login'', ''discover'', ''discover-json'',
     ''home-disable-cluster-discovery'', ''tui'', ''standalone'', ''local-model'']"

text \<open>
  Name, value and presence of a value of one argument; \<open>None\<close> where parsing stops.
\<close>

definition flag_of :: "string \<Rightarrow> (string \<times> string \<times> bool) option" where
  "flag_of arg =
     (if arg = ''--'' \<or> arg = ''-'' \<or> \<not> HasPrefix arg ''-'' then None
      else Some (Cut (TrimPrefix (TrimPrefix arg ''-'') ''-'') (CHR ''='')))"

text \<open>The effect of a flag that has its value.\<close>

definition flag_effect :: "string \<Rightarrow> string \<Rightarrow> string \<times> bool \<Rightarrow> string + string \<times> bool" where
  "flag_effect key val ch =
     (if key \<noteq> ''config'' \<and> key \<noteq> ''home-jwt'' then Inr ch
      else if key = ''home-jwt'' then Inr (fst ch, val \<noteq> [])
      else if TrimSpace val = [] then Inl ''empty Host configuration path''
      else Inr (val, snd ch))"

fun flags_loop :: "string list \<Rightarrow> string \<times> bool \<Rightarrow> string + string \<times> bool" where
  "flags_loop [] ch = Inr ch"
| "flags_loop (arg # rest) ch =
     (case flag_of arg of
        None \<Rightarrow> Inr ch
      | Some (key, val, equals) \<Rightarrow>
          let takesValue = key \<in> set value_flags in
          if \<not> takesValue \<and> key \<notin> set switch_flags \<and> \<not> equals
          then Inl ''unsupported Host startup flag; cannot infer file configuration safely''
          else if takesValue \<and> \<not> equals then
            (case rest of
               [] \<Rightarrow> Inl ''missing Host configuration flag value''
             | v # rest \<Rightarrow>
                 (case flag_effect key v ch of Inl e \<Rightarrow> Inl e | Inr ch \<Rightarrow> flags_loop rest ch))
          else (case flag_effect key val ch of Inl e \<Rightarrow> Inl e | Inr ch \<Rightarrow> flags_loop rest ch))"

definition hostFlags :: "string list \<Rightarrow> string + string \<times> bool" where
  "hostFlags args = flags_loop (drop 1 args) ([], False)"

section \<open>The file host\<close>

definition backend_keys :: "string list" where
  "backend_keys = [''HOME_JWT'', ''PGSTORE_DSN'', ''OBJECTSTORE_ENDPOINT'', ''GITSTORE_GIT_URL'']"

definition backend_set :: "(string \<Rightarrow> string) option \<Rightarrow> bool" where
  "backend_set getenv \<longleftrightarrow>
     (case getenv of
        None \<Rightarrow> False
      | Some env \<Rightarrow> list_ex (\<lambda>k. TrimSpace (env k) \<noteq> [] \<or> TrimSpace (env (ToLower k)) \<noteq> []) backend_keys)"

definition ValidateFileHost :: "string list \<Rightarrow> (string \<Rightarrow> string) option \<Rightarrow> string option" where
  "ValidateFileHost args getenv =
     (if backend_set getenv then Some ''automatic prewarming supports local-file CPA configuration only''
      else case hostFlags args of
             Inl e \<Rightarrow> Some e
           | Inr (_, home) \<Rightarrow>
               if home then Some ''prewarming does not support Home-managed configuration'' else None)"

definition ResolveHostConfigPath ::
  "string \<Rightarrow> string list \<Rightarrow> string \<Rightarrow> (string \<Rightarrow> string) option \<Rightarrow> string + string" where
  "ResolveHostConfigPath explicit args cwd getenv =
     (case ValidateFileHost args getenv of
        Some e \<Rightarrow> Inl e
      | None \<Rightarrow>
          (case (if explicit \<noteq> [] then Inr explicit
                 else case hostFlags args of
                        Inl e \<Rightarrow> Inl e
                      | Inr (path, _) \<Rightarrow> Inr (if path = [] then ''config.yaml'' else path)) of
             Inl e \<Rightarrow> Inl e
           | Inr path \<Rightarrow>
               if \<not> IsAbs path then
                 (if cwd = [] then Inl ''cannot locate Host configuration; set host_config_file explicitly''
                  else Inr (Clean (Join cwd path)))
               else Inr (Clean path)))"

section \<open>Clean paths\<close>

definition plain_part :: "string \<Rightarrow> bool" where
  "plain_part c \<longleftrightarrow> c \<notin> {[], ''.'', ''..''} \<and> CHR ''/'' \<notin> set c"

lemma split_on_parts: "c \<in> set (split_on d s) \<Longrightarrow> d \<notin> set c"
  by (induction d s arbitrary: c rule: split_on.induct) (auto split: if_splits list.splits)

lemma clean_loop_rooted:
  assumes "list_all plain_part out" and "\<forall>c \<in> set cs. CHR ''/'' \<notin> set c"
  shows "list_all plain_part (clean_loop True out cs)"
  using assms
proof (induction cs arbitrary: out)
  case Nil
  then show ?case by (simp add: list_all_iff)
next
  case (Cons c cs)
  consider "c = [] \<or> c = ''.''" | "c = ''..''" "out = []" | p ps where "c = ''..''" "out = p # ps" | "plain_part c"
    using Cons.prems(2) by (cases out) (auto simp: plain_part_def)
  then show ?case
  proof cases
    case 4
    then have "clean_loop True out (c # cs) = clean_loop True (c # out) cs" by (auto simp: plain_part_def)
    with 4 Cons show ?thesis by simp
  qed (use Cons in \<open>auto simp: plain_part_def\<close>)
qed

lemma clean_loop_plain: "list_all plain_part cs \<Longrightarrow> clean_loop rooted out cs = rev out @ cs"
  by (induction cs arbitrary: out) (auto simp: plain_part_def)

lemma split_on_free: "d \<notin> set s \<Longrightarrow> split_on d s = [s]"
  by (induction s) auto

lemma split_on_append: "d \<notin> set p \<Longrightarrow> split_on d (p @ d # s) = p # split_on d s"
  by (induction p) auto

lemma split_join: "list_all plain_part ps \<Longrightarrow> ps \<noteq> [] \<Longrightarrow> split_on (CHR ''/'') (join_path ps) = ps"
  by (induction ps rule: join_path.induct) (auto simp: plain_part_def split_on_free split_on_append)

lemma IsAbs_slash [simp]: "IsAbs (''/'' @ s)"
  by (simp add: IsAbs_def HasPrefix_def)

lemma IsAbs_append: "IsAbs a \<Longrightarrow> IsAbs (a @ s)"
  by (cases a) (simp_all add: IsAbs_def HasPrefix_def)

text \<open>The clean form of an absolute path: a slash before each of its parts.\<close>

definition clean_abs :: "string \<Rightarrow> bool" where
  "clean_abs p \<longleftrightarrow> (\<exists>parts. list_all plain_part parts \<and> p = ''/'' @ join_path parts)"

lemma Clean_abs: "IsAbs p \<Longrightarrow> clean_abs (Clean p)"
  unfolding clean_abs_def Clean_def Let_def
  using clean_loop_rooted [of "[]" "split_on (CHR ''/'') p"] split_on_parts by auto

lemma Clean_clean: "clean_abs p \<Longrightarrow> Clean p = p"
proof -
  assume "clean_abs p"
  then obtain parts where parts: "list_all plain_part parts" "p = ''/'' @ join_path parts"
    by (auto simp: clean_abs_def)
  have "split_on (CHR ''/'') p = (if parts = [] then [[], []] else [] # parts)"
    using parts split_join by auto
  then show ?thesis
    using parts clean_loop_plain [of parts True "[]"] by (auto simp: Clean_def Let_def simp del: append_Cons)
qed

section \<open>The reference for the flags\<close>

text \<open>
  A start-up flag as it can be written: with its value after \<open>=\<close>, with its value in the next
  argument, or as a switch. The first text is the dashes.
\<close>

datatype host_flag = WithValue string string string | NextValue string string string | Switch string string

fun flag_args :: "host_flag \<Rightarrow> string list" where
  "flag_args (WithValue d key v) = [d @ key @ ''='' @ v]"
| "flag_args (NextValue d key v) = [d @ key, v]"
| "flag_args (Switch d key) = [d @ key]"

fun flag_setting :: "host_flag \<Rightarrow> string \<times> string" where
  "flag_setting (WithValue d key v) = (key, v)"
| "flag_setting (NextValue d key v) = (key, v)"
| "flag_setting (Switch d key) = (key, [])"

text \<open>
  Which flags are accepted. Any name goes with \<open>=\<close>; a value in the next argument is only read for
  the names that take one, and only known switches stand alone. A configuration path is not blank.
\<close>

fun flag_ok :: "host_flag \<Rightarrow> bool" where
  "flag_ok (WithValue d key v) \<longleftrightarrow> (d = ''--'' \<or> d = ''-'' \<and> \<not> HasPrefix key ''-'') \<and> CHR ''='' \<notin> set key \<and>
     (key = ''config'' \<longrightarrow> TrimSpace v \<noteq> [])"
| "flag_ok (NextValue d key v) \<longleftrightarrow> d \<in> {''-'', ''--''} \<and> key \<in> set value_flags \<and> (key = ''config'' \<longrightarrow> TrimSpace v \<noteq> [])"
| "flag_ok (Switch d key) \<longleftrightarrow> d \<in> {''-'', ''--''} \<and> key \<in> set switch_flags"

text \<open>Where reading ends: at the end, at one of the two terminators, or at a positional argument.\<close>

definition flags_end :: "string list \<Rightarrow> bool" where
  "flags_end args \<longleftrightarrow> (case args of [] \<Rightarrow> True | a # _ \<Rightarrow> a = ''--'' \<or> a = ''-'' \<or> \<not> HasPrefix a ''-'')"

definition last_value :: "string \<Rightarrow> host_flag list \<Rightarrow> string option" where
  "last_value key fs = map_of (rev (map flag_setting fs)) key"

definition flags_read :: "string list \<Rightarrow> host_flag list \<Rightarrow> bool" where
  "flags_read args fs \<longleftrightarrow>
     (\<exists>rest. args = concat (map flag_args fs) @ rest \<and> flags_end rest \<and> (\<forall>f \<in> set fs. flag_ok f))"

lemma Cut_append: "d \<notin> set s \<Longrightarrow> Cut (s @ d # v) d = (s, v, True)"
  by (induction s) auto

lemma Cut_free: "d \<notin> set s \<Longrightarrow> Cut s d = (s, [], False)"
  by (induction s) auto

lemma CutD: "Cut s d = (a, b, found) \<Longrightarrow> d \<notin> set a \<and> (if found then s = a @ d # b else s = a \<and> b = [])"
  by (induction s arbitrary: a b found) (auto split: if_splits prod.splits)

lemma TrimPrefix_simps [simp]:
  "TrimPrefix (p @ s) p = s" "\<not> HasPrefix s p \<Longrightarrow> TrimPrefix s p = s"
  by (simp_all add: TrimPrefix_def HasPrefix_def)

lemma TrimPrefix_dash [simp]: "TrimPrefix (CHR ''-'' # s) ''-'' = s"
  by (simp add: TrimPrefix_def HasPrefix_def)

lemma HasPrefix_dash [simp]: "HasPrefix (c # s) ''-'' \<longleftrightarrow> c = CHR ''-''" "\<not> HasPrefix [] ''-''"
  by (simp_all add: HasPrefix_def)

lemma known_key:
  assumes "key \<in> set value_flags \<or> key \<in> set switch_flags"
  shows "key \<noteq> []" "hd key \<noteq> CHR ''-''" "CHR ''='' \<notin> set key"
  using assms by (auto simp: value_flags_def switch_flags_def)

lemma flag_of_dashes:
  assumes "d = ''--'' \<or> d = ''-'' \<and> \<not> HasPrefix s ''-''" and "s \<noteq> []"
  shows "flag_of (d @ s) = Some (Cut s (CHR ''=''))"
  using assms by (cases s) (auto simp: flag_of_def)

lemma flag_of_iff:
  "flag_of arg = None \<longleftrightarrow> flags_end [arg]"
  by (simp add: flag_of_def flags_end_def)

lemma flag_ofD:
  assumes "flag_of arg = Some (key, v, equals)"
  obtains d where "d = ''--'' \<or> d = ''-'' \<and> \<not> HasPrefix key ''-''" "CHR ''='' \<notin> set key"
    "arg = d @ (if equals then key @ ''='' @ v else key)"
proof -
  from assms obtain s where arg: "arg = CHR ''-'' # s" "s \<noteq> []"
    by (cases arg) (auto simp: flag_of_def split: if_splits)
  define name where "name = TrimPrefix s ''-''"
  have cut: "Cut name (CHR ''='') = (key, v, equals)"
    using assms arg by (simp add: flag_of_def name_def split: if_splits)
  have key: "CHR ''='' \<notin> set key" "name = (if equals then key @ ''='' @ v else key)"
    using CutD [OF cut] by (auto split: if_splits)
  show thesis
  proof (cases "HasPrefix s ''-''")
    case True
    then obtain t where "s = CHR ''-'' # t" by (cases s) auto
    with arg key show thesis by (intro that [of "''--''"]) (auto simp: name_def)
  next
    case False
    then have "name = s" by (simp add: name_def)
    with False key(2) have "\<not> HasPrefix key ''-''" by (cases key) (auto split: if_splits)
    with arg key \<open>name = s\<close> show thesis by (intro that [of "''-''"]) auto
  qed
qed

definition set_flag :: "string \<times> string \<Rightarrow> string \<times> bool \<Rightarrow> string \<times> bool" where
  "set_flag kv ch = (if fst kv = ''config'' then snd kv else fst ch, if fst kv = ''home-jwt'' then snd kv \<noteq> [] else snd ch)"

lemma flag_effect_set:
  "flag_effect key v ch = Inr ch' \<longleftrightarrow> (key = ''config'' \<longrightarrow> TrimSpace v \<noteq> []) \<and> ch' = set_flag (key, v) ch"
  by (cases ch) (auto simp: flag_effect_def set_flag_def)

text \<open>An accepted flag is read as it is meant.\<close>

lemma read_flag:
  assumes "flag_ok f"
  shows "flags_loop (flag_args f @ rest) ch = flags_loop rest (set_flag (flag_setting f) ch)"
  using assms
proof (cases f)
  case (WithValue d key v)
  with assms have d: "d = ''--'' \<or> d = ''-'' \<and> \<not> HasPrefix (key @ ''='' @ v) ''-''"
    by (cases key) auto
  have "flag_effect key v ch = Inr (set_flag (key, v) ch)"
    using assms WithValue by (simp add: flag_effect_set)
  moreover have "flag_of (d @ key @ ''='' @ v) = Some (key, v, True)"
    using assms WithValue flag_of_dashes [OF d] by (simp add: Cut_append)
  ultimately show ?thesis using WithValue by simp
next
  case (NextValue d key v)
  with assms have k: "key \<in> set value_flags" and d: "d = ''--'' \<or> d = ''-'' \<and> \<not> HasPrefix key ''-''"
    using known_key [of key] by (cases key; auto)+
  have "flag_effect key v ch = Inr (set_flag (key, v) ch)"
    using assms NextValue by (simp add: flag_effect_set)
  moreover have "flag_of (d @ key) = Some (key, [], False)"
    using flag_of_dashes [OF d] known_key [of key] k by (simp add: Cut_free)
  ultimately show ?thesis using NextValue k by simp
next
  case (Switch d key)
  with assms have k: "key \<in> set switch_flags" and d: "d = ''--'' \<or> d = ''-'' \<and> \<not> HasPrefix key ''-''"
    using known_key [of key] by (cases key; auto)+
  then have "key \<notin> set value_flags" "key \<noteq> ''config''" by (auto simp: value_flags_def switch_flags_def)
  moreover from this have "flag_effect key [] ch = Inr (set_flag (key, []) ch)"
    by (simp add: flag_effect_set)
  moreover have "flag_of (d @ key) = Some (key, [], False)"
    using flag_of_dashes [OF d] known_key [of key] k by (simp add: Cut_free)
  ultimately show ?thesis using Switch k by simp
qed

lemma read_end: "flags_end rest \<Longrightarrow> flags_loop rest ch = Inr ch"
  by (cases rest) (simp_all add: flags_end_def flag_of_def)

lemma read_flags:
  "\<forall>f \<in> set fs. flag_ok f \<Longrightarrow> flags_end rest \<Longrightarrow>
   flags_loop (concat (map flag_args fs) @ rest) ch = Inr (fold set_flag (map flag_setting fs) ch)"
  by (induction fs arbitrary: ch) (simp_all add: read_flag read_end)

text \<open>And nothing else is accepted.\<close>

lemma flags_loop_read:
  "flags_loop args ch = Inr ch' \<Longrightarrow> \<exists>fs. flags_read args fs"
proof (induction args ch rule: flags_loop.induct)
  case (1 ch)
  have "flags_read [] []" by (simp add: flags_read_def flags_end_def)
  then show ?case by blast
next
  case (2 arg rest ch)
  have step: "\<exists>fs. flags_read (flag_args f @ args) fs" if "flag_ok f" "\<exists>fs. flags_read args fs" for f args
  proof -
    from that(2) obtain fs where "flags_read args fs" by blast
    with that(1) have "flags_read (flag_args f @ args) (f # fs)" by (auto simp: flags_read_def)
    then show ?thesis by blast
  qed
  show ?case
  proof (cases "flag_of arg")
    case None
    then have "flags_read (arg # rest) []"
      by (simp add: flags_read_def flag_of_iff) (simp add: flags_end_def)
    then show ?thesis by blast
  next
    case (Some x)
    obtain key v equals where x: "x = (key, v, equals)" by (cases x)
    from Some [unfolded x] obtain d where d: "d = ''--'' \<or> d = ''-'' \<and> \<not> HasPrefix key ''-''" "CHR ''='' \<notin> set key"
        "arg = d @ (if equals then key @ ''='' @ v else key)"
      by (rule flag_ofD)
    show ?thesis
    proof (cases "key \<in> set value_flags \<and> \<not> equals")
      case True
      with "2.prems" Some x obtain u rest' ch1 where u: "rest = u # rest'" "flag_effect key u ch = Inr ch1"
          "flags_loop rest' ch1 = Inr ch'"
        by (auto split: list.splits sum.splits)
      have "\<exists>fs. flags_read rest' fs"
        using "2.IH"(1) [OF Some x [symmetric] refl refl] True u by simp
      moreover have "flag_ok (NextValue d key u)" using d True u(2) by (auto simp: flag_effect_set)
      ultimately show ?thesis using step [of "NextValue d key u" rest'] d(3) True u(1) by simp
    next
      case False
      with "2.prems" Some x obtain ch1 where u: "flag_effect key v ch = Inr ch1" "flags_loop rest ch1 = Inr ch'"
          "equals \<or> key \<in> set switch_flags"
        by (auto split: sum.splits if_splits)
      have "\<exists>fs. flags_read rest fs"
        using "2.IH"(2) [OF Some x [symmetric] refl refl] False u by (cases ch1) auto
      moreover define f where "f = (if equals then WithValue d key v else Switch d key)"
      have "flag_ok f" using d u by (auto simp: f_def flag_effect_set)
      moreover have "flag_args f = [arg]" using d(3) by (simp add: f_def)
      ultimately show ?thesis using step [of f rest] by simp
    qed
  qed
qed

lemma fold_set_flag:
  "fold set_flag kvs ch =
     (case map_of (rev kvs) ''config'' of None \<Rightarrow> fst ch | Some v \<Rightarrow> v,
      case map_of (rev kvs) ''home-jwt'' of None \<Rightarrow> snd ch | Some v \<Rightarrow> v \<noteq> [])"
  by (induction kvs arbitrary: ch rule: rev_induct) (auto simp: set_flag_def)

lemma hostFlags_iff:
  "hostFlags args = Inr (config, home) \<longleftrightarrow>
     (\<exists>fs. flags_read (drop 1 args) fs \<and>
        config = (case last_value ''config'' fs of None \<Rightarrow> [] | Some v \<Rightarrow> v) \<and>
        home = (last_value ''home-jwt'' fs \<notin> {None, Some []}))"
proof -
  have read: "hostFlags args = Inr (case last_value ''config'' fs of None \<Rightarrow> [] | Some v \<Rightarrow> v,
      last_value ''home-jwt'' fs \<notin> {None, Some []})" if "flags_read (drop 1 args) fs" for fs
  proof -
    from that obtain rest where "drop 1 args = concat (map flag_args fs) @ rest" "flags_end rest" "\<forall>f \<in> set fs. flag_ok f"
      unfolding flags_read_def by blast
    then have "hostFlags args = Inr (fold set_flag (map flag_setting fs) ([], False))"
      using read_flags by (simp add: hostFlags_def)
    then show ?thesis by (auto simp: fold_set_flag last_value_def split: option.split)
  qed
  moreover have "\<exists>fs. flags_read (drop 1 args) fs" if "hostFlags args = Inr (config, home)"
    using that flags_loop_read unfolding hostFlags_def by blast
  ultimately show ?thesis by fastforce
qed

text \<open>The place a path from the root leads to: its components, one after the other.\<close>

definition walk :: "string list \<Rightarrow> string \<Rightarrow> string list" where
  "walk dirs c = (if c = [] \<or> c = ''.'' then dirs else if c = ''..'' then butlast dirs else dirs @ [c])"

lemma clean_loop_walk: "''..'' \<notin> set out \<Longrightarrow> clean_loop True out cs = foldl walk (rev out) cs"
proof (induction cs arbitrary: out)
  case (Cons c cs)
  then show ?case by (cases out) (auto simp: walk_def)
qed simp

lemma Clean_walk: "IsAbs p \<Longrightarrow> Clean p = ''/'' @ join_path (foldl walk [] (split_on (CHR ''/'') p))"
  using clean_loop_walk [of "[]" "split_on (CHR ''/'') p"] by (simp add: Clean_def)

definition file_only :: "(string \<Rightarrow> string) option \<Rightarrow> bool" where
  "file_only getenv \<longleftrightarrow>
     (\<forall>env. getenv = Some env \<longrightarrow>
        (\<forall>k \<in> {''HOME_JWT'', ''home_jwt'', ''PGSTORE_DSN'', ''pgstore_dsn'', ''OBJECTSTORE_ENDPOINT'', ''objectstore_endpoint'',
            ''GITSTORE_GIT_URL'', ''gitstore_git_url''}. TrimSpace (env k) = []))"

lemma backend_set_iff: "backend_set getenv \<longleftrightarrow> \<not> file_only getenv"
proof -
  have "map ToLower backend_keys = [''home_jwt'', ''pgstore_dsn'', ''objectstore_endpoint'', ''gitstore_git_url'']"
    by code_simp
  then show ?thesis by (auto simp: backend_set_def file_only_def backend_keys_def split: option.splits)
qed

lemma ValidateFileHost_iff:
  "ValidateFileHost args getenv = None \<longleftrightarrow> file_only getenv \<and> (\<exists>config. hostFlags args = Inr (config, False))"
proof (cases "hostFlags args")
  case (Inr ch)
  then show ?thesis by (cases ch) (simp add: ValidateFileHost_def backend_set_iff)
qed (simp add: ValidateFileHost_def)

text \<open>
  C38. Exactly when a path is resolved, and which: no other backend is configured in the environment,
  in either spelling; the arguments up to the first positional one or terminator are flags of the
  host in the forms above; and the last \<open>-home-jwt\<close>, if any, is empty. The path is the explicit
  setting, else the value of the last \<open>-config\<close> flag, else \<open>config.yaml\<close>; a relative path starts in
  the working directory, which is absolute. The result leads to the same place and is in clean form:
  no empty, \<open>.\<close> or \<open>..\<close> component is left, and cleaning it again changes nothing.
\<close>

theorem host_path_resolved:
  assumes "IsAbs cwd"
  shows "(ResolveHostConfigPath explicit args cwd getenv = Inr p \<longleftrightarrow>
      file_only getenv \<and>
      (\<exists>fs. flags_read (drop 1 args) fs \<and> last_value ''home-jwt'' fs \<in> {None, Some []} \<and>
        (let path = (if explicit \<noteq> [] then explicit
                     else case last_value ''config'' fs of None \<Rightarrow> ''config.yaml'' | Some v \<Rightarrow> v);
             full = (if IsAbs path then path else cwd @ ''/'' @ path)
         in p = ''/'' @ join_path (foldl walk [] (split_on (CHR ''/'') full))))) \<and>
    (ResolveHostConfigPath explicit args cwd getenv = Inr p \<longrightarrow> clean_abs p \<and> Clean p = p)"
proof -
  have cwd: "cwd \<noteq> []" using assms by (auto simp: IsAbs_def HasPrefix_def)
  have resolve: "ResolveHostConfigPath explicit args cwd getenv = Inr p \<longleftrightarrow>
      file_only getenv \<and> (\<exists>config. hostFlags args = Inr (config, False) \<and>
        (let path = (if explicit \<noteq> [] then explicit else if config = [] then ''config.yaml'' else config)
         in p = Clean (if IsAbs path then path else Clean (cwd @ ''/'' @ path))))"
  proof (cases "file_only getenv \<and> (\<exists>config. hostFlags args = Inr (config, False))")
    case False
    then have "ValidateFileHost args getenv \<noteq> None" using ValidateFileHost_iff by blast
    then obtain e where "ValidateFileHost args getenv = Some e" by blast
    then have "ResolveHostConfigPath explicit args cwd getenv \<noteq> Inr p"
      unfolding ResolveHostConfigPath_def by simp
    with False show ?thesis by blast
  next
    case True
    then obtain config where c: "hostFlags args = Inr (config, False)" by blast
    with True have v: "ValidateFileHost args getenv = None" by (simp add: ValidateFileHost_iff)
    define path where "path = (if explicit \<noteq> [] then explicit else if config = [] then ''config.yaml'' else config)"
    have "ResolveHostConfigPath explicit args cwd getenv = Inr (Clean (if IsAbs path then path else Clean (cwd @ ''/'' @ path)))"
      unfolding ResolveHostConfigPath_def v c path_def using cwd by (simp add: Join_def)
    then have "ResolveHostConfigPath explicit args cwd getenv = Inr p \<longleftrightarrow>
        p = Clean (if IsAbs path then path else Clean (cwd @ ''/'' @ path))" by auto
    moreover have "hostFlags args = Inr (config', False) \<longleftrightarrow> config' = config" for config'
      using c by auto
    moreover have "file_only getenv" using True by blast
    ultimately show ?thesis by (simp only: Let_def path_def simp_thms)
  qed
  have full: "Clean (if IsAbs path then path else Clean (cwd @ ''/'' @ path)) =
      ''/'' @ join_path (foldl walk [] (split_on (CHR ''/'') (if IsAbs path then path else cwd @ ''/'' @ path)))" for path
  proof (cases "IsAbs path")
    case False
    have abs: "IsAbs (cwd @ ''/'' @ path)" using assms by (rule IsAbs_append)
    then have "Clean (Clean (cwd @ ''/'' @ path)) = Clean (cwd @ ''/'' @ path)" by (intro Clean_clean Clean_abs)
    with False Clean_walk [OF abs] show ?thesis by (simp only: if_False)
  qed (simp only: Clean_walk if_True)
  have config: "(if (case last_value ''config'' fs of None \<Rightarrow> [] | Some v \<Rightarrow> v) = [] then ''config.yaml''
      else (case last_value ''config'' fs of None \<Rightarrow> [] | Some v \<Rightarrow> v)) =
      (case last_value ''config'' fs of None \<Rightarrow> ''config.yaml'' | Some v \<Rightarrow> v)" if "flags_read (drop 1 args) fs" for fs
  proof -
    have "v \<noteq> []" if "last_value ''config'' fs = Some v" for v
    proof -
      from that have "(''config'', v) \<in> set (map flag_setting fs)"
        unfolding last_value_def by (auto dest: map_of_SomeD)
      then obtain f where f: "f \<in> set fs" "flag_setting f = (''config'', v)" by auto
      with \<open>flags_read (drop 1 args) fs\<close> have "flag_ok f" by (auto simp: flags_read_def)
      with f(2) show ?thesis by (cases f) (auto simp: switch_flags_def)
    qed
    then show ?thesis by (auto split: option.split)
  qed
  define path where "path config = (if explicit \<noteq> [] then explicit else if config = [] then ''config.yaml'' else config)" for config
  define of_flags where "of_flags fs = (case last_value ''config'' fs of None \<Rightarrow> [] | Some v \<Rightarrow> v)" for fs
  define result where "result path = ''/'' @ join_path (foldl walk [] (split_on (CHR ''/'') (if IsAbs path then path else cwd @ ''/'' @ path)))" for path
  have "clean_abs (Clean (if IsAbs q then q else Clean (cwd @ ''/'' @ q)))" for q
    using Clean_abs IsAbs_append [OF assms, of "''/'' @ q"] Clean_clean by simp
  then have form: "clean_abs p \<and> Clean p = p" if "ResolveHostConfigPath explicit args cwd getenv = Inr p"
    using that Clean_clean unfolding resolve Let_def by blast
  have "ResolveHostConfigPath explicit args cwd getenv = Inr p \<longleftrightarrow> file_only getenv \<and>
      (\<exists>fs. flags_read (drop 1 args) fs \<and> last_value ''home-jwt'' fs \<in> {None, Some []} \<and> p = result (path (of_flags fs)))"
    unfolding resolve hostFlags_iff Let_def full path_def [symmetric] of_flags_def [symmetric] result_def [symmetric] by blast
  also have "\<dots> \<longleftrightarrow> file_only getenv \<and> (\<exists>fs. flags_read (drop 1 args) fs \<and> last_value ''home-jwt'' fs \<in> {None, Some []} \<and>
      p = result (if explicit \<noteq> [] then explicit else case last_value ''config'' fs of None \<Rightarrow> ''config.yaml'' | Some v \<Rightarrow> v))"
    using config unfolding path_def of_flags_def by (intro conj_cong refl arg_cong [where f = Ex] ext) auto
  finally show ?thesis using form unfolding Let_def result_def by blast
qed

theorem host_path_resolved_witness:
  "ResolveHostConfigPath [] [''cpa'', ''-config'', ''a.yaml'', ''--tui'', ''--config=../etc//./c.yaml'', ''x'', ''-config=b''] ''/opt/cpa'' None =
     Inr ''/opt/etc/c.yaml''"
proof -
  let ?fs = "[NextValue ''-'' ''config'' ''a.yaml'', Switch ''--'' ''tui'', WithValue ''--'' ''config'' ''../etc//./c.yaml'']"
  let ?args = "[''cpa'', ''-config'', ''a.yaml'', ''--tui'', ''--config=../etc//./c.yaml'', ''x'', ''-config=b'']"
  have "TrimSpace ''a.yaml'' \<noteq> []" "TrimSpace ''../etc//./c.yaml'' \<noteq> []" "IsAbs ''/opt/cpa''"
    "\<not> IsAbs ''../etc//./c.yaml''"
    "foldl walk [] (split_on (CHR ''/'') (''/opt/cpa'' @ ''/'' @ ''../etc//./c.yaml'')) = [''opt'', ''etc'', ''c.yaml'']"
    by code_simp+
  note facts = this
  have "flags_read (drop 1 ?args) ?fs"
    unfolding flags_read_def using facts(1,2)
    by (intro exI [of _ "[''x'', ''-config=b'']"]) (simp add: flags_end_def value_flags_def switch_flags_def)
  moreover have "last_value ''config'' ?fs = Some ''../etc//./c.yaml''" "last_value ''home-jwt'' ?fs = None"
    by (simp_all add: last_value_def)
  moreover have "file_only None" by (simp add: file_only_def)
  ultimately show ?thesis
    using host_path_resolved [OF facts(3), of "[]" ?args None "''/opt/etc/c.yaml''"] facts(4,5) by (auto simp: Let_def)
qed

section \<open>Forms of a flag\<close>

lemma flag_of_name:
  assumes "CHR ''='' \<notin> set key" and "key \<noteq> []" and "hd key \<noteq> CHR ''-''" and "dashes \<in> {''-'', ''--''}"
  shows "flag_of (dashes @ key) = Some (key, [], False)" "flag_of (dashes @ key @ ''='' @ v) = Some (key, v, True)"
  using assms by (cases key; auto simp: flag_of_def TrimPrefix_def HasPrefix_def Cut_free Cut_append)+

text \<open>
  The four ways to give the configuration file, with one or two dashes and with \<open>=\<close> or as
  the next argument, mean the same, whatever precedes and follows; and the last of two flags
  wins.
\<close>

theorem config_flag_forms:
  assumes "dashes \<in> {''-'', ''--''}" and "TrimSpace v \<noteq> []"
  shows "flags_loop ((dashes @ ''config'') # v # rest) ch = flags_loop rest (v, snd ch) \<and>
    flags_loop ((dashes @ ''config='' @ v) # rest) ch = flags_loop rest (v, snd ch) \<and>
    hostFlags (prog # (dashes @ ''config='' @ v) # ''-config'' # v' # rest) =
      (if TrimSpace v' = [] then Inl ''empty Host configuration path'' else flags_loop rest (v', False))"
proof -
  have name: "flag_of (dashes @ ''config'') = Some (''config'', [], False)"
    "flag_of (dashes @ ''config='' @ u) = Some (''config'', u, True)"
    "flag_of ''-config'' = Some (''config'', [], False)" for u
    using flag_of_name(1) [of "''config''" dashes] flag_of_name(2) [of "''config''" dashes u]
      flag_of_name(1) [of "''config''" "''-''"] assms(1) by auto
  then show ?thesis
    using assms(2) by (simp add: flag_effect_def value_flags_def hostFlags_def del: append_Cons)
qed

theorem config_flag_forms_witness:
  "hostFlags [''cpa'', ''--config=a'', ''-config'', ''b''] = Inr (''b'', False)"
proof -
  have "TrimSpace ''a'' \<noteq> []" "TrimSpace ''b'' \<noteq> []" by code_simp+
  with config_flag_forms [of "''--''" "''a''" "[]" "([], False)" "''cpa''" "''b''"] show ?thesis by simp
qed

end
