(* ===== verification/Proxy_List.thy ===== *)
theory Proxy_List
  imports Config
begin

text \<open>
  The proxy list of the configuration, second half of \<open>internal/prewarm/config.go\<close>. Two
  functions of \<open>net/url\<close> are arguments: \<open>up_parse\<close> is \<open>url.Parse\<close>, giving the parts of the URL
  and its text, and \<open>up_build\<close> the text of a \<open>socks5h\<close> URL of a host, port, user and password.
  The proxy file is its contents, read line by line as \<open>bufio.Scanner\<close> does it with a buffer
  of 64 KiB. An error is its message.
\<close>

record url_parts =
  up_Scheme :: string
  up_Hostname :: string
  up_Port :: string
  up_Path :: string
  up_RawQuery :: string
  up_Fragment :: string
  up_String :: string

record url_library =
  up_parse :: "string \<Rightarrow> url_parts option"
  up_build :: "string \<Rightarrow> string \<Rightarrow> string \<Rightarrow> string \<Rightarrow> string"

section \<open>Text\<close>

fun decimal :: "nat \<Rightarrow> string" where
  "decimal n = (if n < 10 then [char_of (48 + n)] else decimal (n div 10) @ [char_of (48 + n mod 10)])"

declare decimal.simps [simp del]

definition Atoi :: "string \<Rightarrow> int option" where
  "Atoi s =
     (let ds = (if take 1 s = ''-'' \<or> take 1 s = ''+'' then tl s else s);
          v = foldl (\<lambda>n c. 10 * n + int (byte c - 48)) 0 ds;
          v = (if take 1 s = ''-'' then - v else v)
      in if ds = [] \<or> \<not> list_all is_digit ds \<or> v < - (2 ^ 63) \<or> 2 ^ 63 \<le> v then None else Some v)"

fun contains :: "string \<Rightarrow> string \<Rightarrow> bool" where
  "contains [] p = (p = [])"
| "contains (c # cs) p = (HasPrefix (c # cs) p \<or> contains cs p)"

text \<open>\<open>SplitN\<close> at a one-byte separator into at most \<open>n + 1\<close> parts.\<close>

fun split_n :: "nat \<Rightarrow> char \<Rightarrow> string \<Rightarrow> string list" where
  "split_n 0 d s = [s]"
| "split_n (Suc n) d [] = [[]]"
| "split_n (Suc n) d (c # cs) =
     (if c = d then [] # split_n n d cs
      else (case split_n (Suc n) d cs of [] \<Rightarrow> [[c]] | p # ps \<Rightarrow> (c # p) # ps))"

fun four :: "'a list \<Rightarrow> ('a \<times> 'a \<times> 'a \<times> 'a) option" where
  "four [a, b, c, d] = Some (a, b, c, d)"
| "four _ = None"

section \<open>One entry\<close>

definition parse_url :: "url_library \<Rightarrow> string \<Rightarrow> nat \<Rightarrow> string + string" where
  "parse_url lib raw slot =
     (let bad = Inl (''invalid SOCKS5H proxy at entry '' @ decimal slot) in
      case up_parse lib raw of
        None \<Rightarrow> bad
      | Some u \<Rightarrow>
          if up_Scheme u \<noteq> ''socks5h'' \<or> up_Hostname u = [] \<or> up_Path u \<noteq> [] \<or> up_RawQuery u \<noteq> [] \<or> up_Fragment u \<noteq> []
          then bad
          else case Atoi (up_Port u) of
                 None \<Rightarrow> Inl (''invalid proxy port at entry '' @ decimal slot)
               | Some port \<Rightarrow>
                   if port < 1 \<or> 65535 < port then Inl (''invalid proxy port at entry '' @ decimal slot)
                   else if 8192 < int (length (up_String u)) then Inl (''proxy URL too long at entry '' @ decimal slot)
                   else Inr (up_String u))"

text \<open>An empty result is a blank line or a comment.\<close>

definition parseProxy :: "url_library \<Rightarrow> string \<Rightarrow> nat \<Rightarrow> string + string" where
  "parseProxy lib raw slot =
     (let raw = TrimSpace raw in
      if raw = [] \<or> HasPrefix raw ''#'' then Inr []
      else if \<not> contains raw ''://'' then
        (case four (split_n 3 (CHR '':'') raw) of
           Some (host, port, user, password) \<Rightarrow>
             if user = [] \<or> password = [] then Inl (''invalid proxy at entry '' @ decimal slot)
             else parse_url lib (up_build lib host port user password) slot
         | None \<Rightarrow> Inl (''invalid proxy at entry '' @ decimal slot))
      else parse_url lib raw slot)"

section \<open>The list of the configuration\<close>

fun entries_loop :: "url_library \<Rightarrow> nat \<Rightarrow> string list \<Rightarrow> string list \<Rightarrow> string list \<Rightarrow> string + string list" where
  "entries_loop lib i out seen [] = Inr out"
| "entries_loop lib i out seen (raw # rest) =
     (case parseProxy lib raw (i + 1) of
        Inl e \<Rightarrow> Inl e
      | Inr proxy \<Rightarrow>
          if proxy \<noteq> [] \<and> proxy \<notin> set seen then entries_loop lib (i + 1) (out @ [proxy]) (proxy # seen) rest
          else entries_loop lib (i + 1) out seen rest)"

definition ParseProxies :: "url_library \<Rightarrow> string list \<Rightarrow> string + string list" where
  "ParseProxies lib entries =
     (if maxProxies < int (length entries) then Inl ''too many prewarm proxies''
      else case entries_loop lib 0 [] [] entries of
             Inl e \<Rightarrow> Inl e
           | Inr out \<Rightarrow> if out = [] then Inl ''prewarm proxy list is empty'' else Inr out)"

section \<open>The file\<close>

definition drop_CR :: "string \<Rightarrow> string" where
  "drop_CR s = (if s \<noteq> [] \<and> last s = CHR 0x0D then butlast s else s)"

text \<open>
  The lines a scanner delivers, and whether it ended without an error: it stops at a line that
  does not fit into the buffer.
\<close>

fun scan_tokens :: "string list \<Rightarrow> string list \<times> bool" where
  "scan_tokens [] = ([], True)"
| "scan_tokens [l] = (if l = [] then ([], True) else if 65536 \<le> int (length l) then ([], False) else ([drop_CR l], True))"
| "scan_tokens (l # m # ls) =
     (if 65536 \<le> int (length l) then ([], False)
      else (case scan_tokens (m # ls) of (ts, ok) \<Rightarrow> (drop_CR l # ts, ok)))"

fun lines_loop :: "url_library \<Rightarrow> nat \<Rightarrow> string list \<Rightarrow> string list \<Rightarrow> string list \<Rightarrow> string + string list" where
  "lines_loop lib line out seen [] = Inr out"
| "lines_loop lib line out seen (t # ts) =
     (case parseProxy lib t (line + 1) of
        Inl e \<Rightarrow> Inl e
      | Inr proxy \<Rightarrow>
          let new = proxy \<noteq> [] \<and> proxy \<notin> set seen;
              out = (if new then out @ [proxy] else out);
              seen = (if new then proxy # seen else seen)
          in if maxProxies < int (length out) then Inl ''too many prewarm proxies''
             else lines_loop lib (line + 1) out seen ts)"

text \<open>\<open>file\<close> is \<open>None\<close> when it cannot be opened; \<open>snd\<close> says whether reading ended well.\<close>

definition LoadProxiesFile :: "url_library \<Rightarrow> (string \<times> bool) option \<Rightarrow> string + string list" where
  "LoadProxiesFile lib file =
     (case file of
        None \<Rightarrow> Inl ''cannot open prewarm proxy file''
      | Some (contents, read_ok) \<Rightarrow>
          let (ts, scan_ok) = scan_tokens (split_on (CHR 0x0A) contents) in
          case lines_loop lib 0 [] [] ts of
            Inl e \<Rightarrow> Inl e
          | Inr out \<Rightarrow>
              if \<not> scan_ok \<or> \<not> read_ok then Inl ''cannot read prewarm proxy file''
              else if out = [] then Inl ''prewarm proxy file is empty'' else Inr out)"

definition LoadProxies :: "url_library \<Rightarrow> (string \<Rightarrow> (string \<times> bool) option) \<Rightarrow> Config \<Rightarrow> string + string list" where
  "LoadProxies lib files c =
     (if Proxies c \<noteq> [] then ParseProxies lib (Proxies c) else LoadProxiesFile lib (files (ProxyFile c)))"

section \<open>What the list holds\<close>

text \<open>
  The reference for one entry. A text is a SOCKS5H URL when the library parses it, with that
  scheme, a host, a decimal port from 1 to 65535, nothing after the port, and at most 8192 bytes;
  its value is the text the library gives back. An entry is blank, a comment, such a URL, or the
  four fields of one, of which only the last may contain a colon.
\<close>

definition socks_url :: "url_library \<Rightarrow> string \<Rightarrow> string \<Rightarrow> bool" where
  "socks_url lib text v \<longleftrightarrow>
     (\<exists>u port. up_parse lib text = Some u \<and> up_Scheme u = ''socks5h'' \<and> up_Hostname u \<noteq> [] \<and>
        Atoi (up_Port u) = Some port \<and> port \<in> {1..65535} \<and> up_Path u = [] \<and> up_RawQuery u = [] \<and> up_Fragment u = [] \<and>
        length v \<le> 8192 \<and> v = up_String u)"

inductive proxy_entry :: "url_library \<Rightarrow> string \<Rightarrow> string \<Rightarrow> bool" for lib where
  entry_blank: "TrimSpace raw = [] \<Longrightarrow> proxy_entry lib raw []"
| entry_comment: "TrimSpace raw = CHR ''#'' # c \<Longrightarrow> proxy_entry lib raw []"
| entry_url:
    "TrimSpace raw = a @ ''://'' @ b \<Longrightarrow> HasPrefix (TrimSpace raw) ''#'' = False \<Longrightarrow>
     socks_url lib (TrimSpace raw) v \<Longrightarrow> proxy_entry lib raw v"
| entry_fields:
    "TrimSpace raw = host @ CHR '':'' # port @ CHR '':'' # user @ CHR '':'' # password \<Longrightarrow>
     CHR '':'' \<notin> set (host @ port @ user) \<Longrightarrow> user \<noteq> [] \<Longrightarrow> password \<noteq> [] \<Longrightarrow>
     (\<nexists>a b. TrimSpace raw = a @ ''://'' @ b) \<Longrightarrow> HasPrefix (TrimSpace raw) ''#'' = False \<Longrightarrow>
     socks_url lib (up_build lib host port user password) v \<Longrightarrow> proxy_entry lib raw v"

lemma contains_iff: "contains s p \<longleftrightarrow> (\<exists>a b. s = a @ p @ b)"
proof (induction s)
  case (Cons c cs)
  have "HasPrefix (c # cs) p \<longleftrightarrow> (\<exists>b. c # cs = p @ b)"
    unfolding HasPrefix_def by (metis append_eq_conv_conj append_take_drop_id)
  moreover have "(\<exists>a b. c # cs = a @ p @ b) \<longleftrightarrow> (\<exists>b. c # cs = p @ b) \<or> (\<exists>a b. cs = a @ p @ b)"
    by (metis append_Cons append_Nil list.inject neq_Nil_conv)
  ultimately show ?case using Cons.IH by simp
qed simp

lemma comment_iff: "HasPrefix s ''#'' \<longleftrightarrow> (\<exists>c. s = CHR ''#'' # c)"
  by (cases s) (auto simp: HasPrefix_def)

lemma split_n_free: "d \<notin> set s \<Longrightarrow> split_n n d s = [s]"
  by (induction n d s rule: split_n.induct) auto

lemma split_n_cut: "d \<notin> set p \<Longrightarrow> split_n (Suc n) d (p @ d # s) = p # split_n n d s"
  by (induction p) auto

lemma split_n_four:
  "four (split_n 3 d s) = Some (a, b, c, e) \<longleftrightarrow> s = a @ d # b @ d # c @ d # e \<and> d \<notin> set (a @ b @ c)"
proof
  assume four: "four (split_n 3 d s) = Some (a, b, c, e)"
  have cut: "\<exists>p s'. s = p @ d # s' \<and> d \<notin> set p" if "d \<in> set s" for s
    using split_list_first [OF that] by blast
  have three: "3 = Suc (Suc (Suc 0))" by simp
  have s: "d \<in> set s" using four by (rule contrapos_pp) (simp add: split_n_free)
  then obtain p1 s1 where 1: "s = p1 @ d # s1" "d \<notin> set p1" using cut by blast
  then have two: "four (p1 # split_n (Suc (Suc 0)) d s1) = Some (a, b, c, e)"
    using four by (simp add: three split_n_cut)
  then have "d \<in> set s1" by (rule contrapos_pp) (simp add: split_n_free)
  then obtain p2 s2 where 2: "s1 = p2 @ d # s2" "d \<notin> set p2" using cut by blast
  then have one: "four (p1 # p2 # split_n (Suc 0) d s2) = Some (a, b, c, e)"
    using two by (simp add: split_n_cut)
  then have "d \<in> set s2" by (rule contrapos_pp) (simp add: split_n_free)
  then obtain p3 s3 where 3: "s2 = p3 @ d # s3" "d \<notin> set p3" using cut by blast
  then have "four [p1, p2, p3, s3] = Some (a, b, c, e)"
    using one by (simp add: split_n_cut)
  with 1 2 3 show "s = a @ d # b @ d # c @ d # e \<and> d \<notin> set (a @ b @ c)" by simp
next
  assume "s = a @ d # b @ d # c @ d # e \<and> d \<notin> set (a @ b @ c)"
  then show "four (split_n 3 d s) = Some (a, b, c, e)"
    by (simp add: split_n_cut numeral_3_eq_3)
qed

lemma parse_url_iff: "parse_url lib text slot = Inr v \<longleftrightarrow> socks_url lib text v"
  unfolding parse_url_def socks_url_def Let_def
  by (cases "up_parse lib text"; cases "Atoi (up_Port (the (up_parse lib text)))") auto

text \<open>The code reads an entry as the reference does, whatever its position.\<close>

lemma parseProxy_iff: "parseProxy lib raw slot = Inr v \<longleftrightarrow> proxy_entry lib raw v"
proof (cases "TrimSpace raw = [] \<or> HasPrefix (TrimSpace raw) ''#''")
  case True
  then show ?thesis
    by (auto simp: parseProxy_def comment_iff elim: proxy_entry.cases intro: proxy_entry.intros)
next
  case skip: False
  show ?thesis
  proof (cases "contains (TrimSpace raw) ''://''")
    case True
    then have "parseProxy lib raw slot = parse_url lib (TrimSpace raw) slot"
      using skip by (simp add: parseProxy_def Let_def)
    moreover have "proxy_entry lib raw v \<longleftrightarrow> socks_url lib (TrimSpace raw) v"
    proof
      assume "proxy_entry lib raw v"
      then show "socks_url lib (TrimSpace raw) v"
        by cases (use True skip in \<open>simp_all only: contains_iff comment_iff, blast+\<close>)
    next
      from True obtain a b where "TrimSpace raw = a @ ''://'' @ b" unfolding contains_iff by blast
      moreover assume "socks_url lib (TrimSpace raw) v"
      ultimately show "proxy_entry lib raw v" using skip by (intro entry_url) simp_all
    qed
    ultimately show ?thesis by (simp add: parse_url_iff)
  next
    case False
    show ?thesis
    proof (cases "four (split_n 3 (CHR '':'') (TrimSpace raw))")
      case None
      with skip False have "\<nexists>v. parseProxy lib raw slot = Inr v" by (simp add: parseProxy_def Let_def)
      moreover have "\<not> proxy_entry lib raw v"
      proof
        assume "proxy_entry lib raw v"
        then show False
        proof cases
          case (entry_fields host port user password)
          then have "four (split_n 3 (CHR '':'') (TrimSpace raw)) = Some (host, port, user, password)"
            by (simp add: split_n_four)
          with None show False by simp
        qed (use skip False in \<open>simp_all only: contains_iff comment_iff, blast+\<close>)
      qed
      ultimately show ?thesis by blast
    next
      case (Some f)
      obtain h po u w where f: "f = (h, po, u, w)" by (cases f)
      have fields: "TrimSpace raw = h @ CHR '':'' # po @ CHR '':'' # u @ CHR '':'' # w" "CHR '':'' \<notin> set (h @ po @ u)"
        using Some split_n_four [of "CHR '':''" "TrimSpace raw" h po u w] by (simp_all add: f)
      have code: "parseProxy lib raw slot = Inr v \<longleftrightarrow> u \<noteq> [] \<and> w \<noteq> [] \<and> socks_url lib (up_build lib h po u w) v"
        using skip False Some by (auto simp: parseProxy_def Let_def f parse_url_iff)
      show ?thesis
      proof
        assume "parseProxy lib raw slot = Inr v"
        with code fields skip False show "proxy_entry lib raw v"
          by (intro entry_fields) (auto simp: contains_iff)
      next
        assume "proxy_entry lib raw v"
        then show "parseProxy lib raw slot = Inr v"
        proof cases
          case (entry_fields host port user password)
          then have "four (split_n 3 (CHR '':'') (TrimSpace raw)) = Some (host, port, user, password)"
            by (simp add: split_n_four)
          with Some f entry_fields show ?thesis by (simp add: code)
        qed (use skip False in \<open>simp_all only: contains_iff comment_iff, blast+\<close>)
      qed
    qed
  qed
qed

text \<open>Each value once, in the order of the first mention, blanks left out.\<close>

definition first_mentions :: "string list \<Rightarrow> string list" where
  "first_mentions vs = rev (remdups (rev (filter (\<lambda>v. v \<noteq> []) vs)))"

lemma first_mentions_snoc:
  "first_mentions (vs @ [v]) =
     (if v = [] \<or> v \<in> set (first_mentions vs) then first_mentions vs else first_mentions vs @ [v])"
  by (simp add: first_mentions_def)

lemma entries_loop_iff:
  assumes "set seen = set (first_mentions pre)"
  shows "entries_loop lib i (first_mentions pre) seen es = Inr res \<longleftrightarrow>
    (\<exists>vs. list_all2 (proxy_entry lib) es vs \<and> res = first_mentions (pre @ vs))"
  using assms
proof (induction es arbitrary: i pre seen)
  case (Cons raw rest)
  show ?case
  proof (cases "parseProxy lib raw (i + 1)")
    case (Inl e)
    then have "\<not> proxy_entry lib raw v" for v using parseProxy_iff [of lib raw "i + 1" v] by simp
    with Inl show ?thesis by (simp add: list_all2_Cons1)
  next
    case (Inr p)
    then have p: "proxy_entry lib raw v \<longleftrightarrow> v = p" for v using parseProxy_iff [of lib raw "i + 1" v] by auto
    let ?seen = "if p \<noteq> [] \<and> p \<notin> set seen then p # seen else seen"
    have "entries_loop lib i (first_mentions pre) seen (raw # rest) =
        entries_loop lib (i + 1) (first_mentions (pre @ [p])) ?seen rest"
      using Inr Cons.prems by (simp add: first_mentions_snoc)
    moreover have "set ?seen = set (first_mentions (pre @ [p]))"
      using Cons.prems by (auto simp: first_mentions_snoc)
    ultimately show ?thesis
      using Cons.IH [of ?seen "pre @ [p]" "i + 1"] p by (auto simp: list_all2_Cons1)
  qed
qed auto

text \<open>The messages of a refused entry: a fixed text and the position, nothing of the entry itself.\<close>

definition entry_errors :: "nat \<Rightarrow> string set" where
  "entry_errors n = {''invalid proxy at entry '' @ decimal n, ''invalid SOCKS5H proxy at entry '' @ decimal n,
     ''invalid proxy port at entry '' @ decimal n, ''proxy URL too long at entry '' @ decimal n}"

lemma parse_url_error: "parse_url lib text slot = Inl e \<Longrightarrow> e \<in> entry_errors slot"
  by (auto simp: parse_url_def entry_errors_def Let_def split: option.splits if_splits)

lemma parseProxy_error: "parseProxy lib raw slot = Inl e \<Longrightarrow> e \<in> entry_errors slot"
  by (auto simp: parseProxy_def entry_errors_def Let_def split: option.splits if_splits
      dest!: parse_url_error)

lemma entries_loop_error:
  "entries_loop lib i out seen es = Inl e \<Longrightarrow>
     \<exists>j < length es. (\<forall>j' < j. \<exists>v. proxy_entry lib (es ! j') v) \<and> (\<nexists>v. proxy_entry lib (es ! j) v) \<and>
       e \<in> entry_errors (i + j + 1)"
proof (induction es arbitrary: i out seen)
  case (Cons raw rest)
  show ?case
  proof (cases "parseProxy lib raw (i + 1)")
    case (Inl e')
    moreover from Inl have "\<nexists>v. proxy_entry lib raw v" by (simp flip: parseProxy_iff [of lib raw "i + 1"])
    ultimately show ?thesis
      using Cons.prems parseProxy_error [OF Inl] by (intro exI [of _ 0]) simp
  next
    case (Inr p)
    then have ok: "\<exists>v. proxy_entry lib raw v" using parseProxy_iff by blast
    from Inr Cons.prems obtain out' seen' where "entries_loop lib (i + 1) out' seen' rest = Inl e"
      by (auto split: if_splits)
    from Cons.IH [OF this] obtain j where j: "j < length rest" "\<forall>j' < j. \<exists>v. proxy_entry lib (rest ! j') v"
        "\<nexists>v. proxy_entry lib (rest ! j) v" "e \<in> entry_errors (i + 1 + j + 1)"
      by blast
    with ok have "\<forall>j' < Suc j. \<exists>v. proxy_entry lib ((raw # rest) ! j') v"
      by (auto simp: less_Suc_eq_0_disj)
    with j show ?thesis by (intro exI [of _ "Suc j"]) auto
  qed
qed simp

text \<open>
  C39. The list is accepted exactly when it has at most 10000 entries, each of them is blank, a
  comment, a SOCKS5H URL with a host, a port from 1 to 65535, no path, query or fragment and at most
  8192 bytes, or the four fields of one; and at least one is a proxy. The result holds each proxy
  once, in the order of the first mention. A refused entry is reported by the position of the first
  bad entry in one of four fixed texts, so no part of an address or password is in the message.
\<close>

theorem proxies_parsed:
  "(ParseProxies lib entries = Inr out \<longleftrightarrow>
     length entries \<le> 10000 \<and>
     (\<exists>vs. list_all2 (proxy_entry lib) entries vs \<and> out = first_mentions vs \<and> out \<noteq> [])) \<and>
   (ParseProxies lib entries = Inl e \<longrightarrow>
     e \<in> {''too many prewarm proxies'', ''prewarm proxy list is empty''} \<or>
     (\<exists>j < length entries. (\<forall>j' < j. \<exists>v. proxy_entry lib (entries ! j') v) \<and>
        (\<nexists>v. proxy_entry lib (entries ! j) v) \<and> e \<in> entry_errors (j + 1)))"
proof
  have "first_mentions [] = []" by (simp add: first_mentions_def)
  then have loop: "entries_loop lib 0 [] [] entries = Inr res \<longleftrightarrow>
      (\<exists>vs. list_all2 (proxy_entry lib) entries vs \<and> res = first_mentions vs)" for res
    using entries_loop_iff [of "[]" "[]" lib 0 entries res] by simp
  show "ParseProxies lib entries = Inr out \<longleftrightarrow> length entries \<le> 10000 \<and>
      (\<exists>vs. list_all2 (proxy_entry lib) entries vs \<and> out = first_mentions vs \<and> out \<noteq> [])"
    using loop [of out] by (cases "entries_loop lib 0 [] [] entries") (auto simp: ParseProxies_def maxProxies_def)
  show "ParseProxies lib entries = Inl e \<longrightarrow>
     e \<in> {''too many prewarm proxies'', ''prewarm proxy list is empty''} \<or>
     (\<exists>j < length entries. (\<forall>j' < j. \<exists>v. proxy_entry lib (entries ! j') v) \<and>
        (\<nexists>v. proxy_entry lib (entries ! j) v) \<and> e \<in> entry_errors (j + 1))"
  proof (cases "entries_loop lib 0 [] [] entries")
    case (Inl e')
    with entries_loop_error [OF Inl] show ?thesis by (auto simp: ParseProxies_def)
  qed (auto simp: ParseProxies_def)
qed

section \<open>List and file\<close>

lemma lines_loop_iff:
  "int (length out + length ts) \<le> maxProxies \<Longrightarrow> lines_loop lib i out seen ts = entries_loop lib i out seen ts"
  by (induction ts arbitrary: i out seen) (auto simp: Let_def split: sum.splits)

definition short_line :: "string \<Rightarrow> bool" where
  "short_line l \<longleftrightarrow> l \<noteq> [] \<and> int (length l) < 65536 \<and> CHR 0x0A \<notin> set l \<and> last l \<noteq> CHR 0x0D"

lemma scan_tokens_lines: "list_all short_line ls \<Longrightarrow> scan_tokens (ls @ [[]]) = (ls, True)"
proof (induction ls)
  case (Cons l ls)
  then show ?case by (cases ls) (auto simp: short_line_def drop_CR_def)
qed simp

fun file_text :: "string list \<Rightarrow> string" where
  "file_text [] = []"
| "file_text (l # ls) = l @ CHR 0x0A # file_text ls"

lemma split_on_line: "d \<notin> set p \<Longrightarrow> split_on d (p @ d # s) = p # split_on d s"
  by (induction p) auto

lemma split_file_text: "list_all short_line ls \<Longrightarrow> split_on (CHR 0x0A) (file_text ls) = ls @ [[]]"
  by (induction ls) (auto simp: short_line_def split_on_line)

text \<open>
  Moving a list of proxies into the legacy file changes nothing: a file with one entry per
  line gives exactly the proxies that the same entries give in the configuration.
\<close>

theorem file_equals_list:
  assumes "list_all short_line entries" and "length entries \<le> 10000"
  shows "LoadProxies lib (\<lambda>_. Some (file_text entries, True)) (c\<lparr>Proxies := []\<rparr>) = Inr out \<longleftrightarrow>
    ParseProxies lib entries = Inr out"
proof -
  have "lines_loop lib 0 [] [] entries = entries_loop lib 0 [] [] entries"
    using assms(2) by (intro lines_loop_iff) (simp add: maxProxies_def)
  then show ?thesis
    using assms scan_tokens_lines [OF assms(1)]
    by (auto simp: LoadProxies_def LoadProxiesFile_def ParseProxies_def split_file_text maxProxies_def
        split: sum.splits if_splits)
qed

definition sample_urls :: url_library where
  "sample_urls = \<lparr>up_parse = (\<lambda>s. Some \<lparr>up_Scheme = ''socks5h'', up_Hostname = ''h'', up_Port = ''1080'', up_Path = [],
       up_RawQuery = [], up_Fragment = [], up_String = s\<rparr>),
     up_build = (\<lambda>h p u w. ''socks5h://'' @ u @ '':'' @ w @ ''@'' @ h @ '':'' @ p)\<rparr>"

definition sample_entries :: "string list" where
  "sample_entries = [''# pool'', ''h:1080:u:w:x'', ''socks5h://u:w:x@h:1080'', ''socks5h://h:1080'']"

theorem file_equals_list_witness:
  "LoadProxies sample_urls (\<lambda>_. Some (file_text sample_entries, True)) (c\<lparr>Proxies := []\<rparr>) =
     Inr [''socks5h://u:w:x@h:1080'', ''socks5h://h:1080'']"
proof -
  have "list_all short_line sample_entries"
    "ParseProxies sample_urls sample_entries = Inr [''socks5h://u:w:x@h:1080'', ''socks5h://h:1080'']"
    by code_simp+
  moreover have "length sample_entries \<le> 10000" by (simp add: sample_entries_def)
  ultimately show ?thesis using file_equals_list by blast
qed

text \<open>A library that knows one URL and one with a path.\<close>

definition strict_urls :: url_library where
  "strict_urls = sample_urls\<lparr>up_parse := (\<lambda>s. map_option (\<lambda>u. u\<lparr>up_Path := (if s = ''socks5h://h:1080/x'' then ''/x'' else [])\<rparr>)
     (up_parse sample_urls s))\<rparr>"

theorem proxies_parsed_witness:
  "list_all2 (proxy_entry strict_urls) sample_entries
     [[], ''socks5h://u:w:x@h:1080'', ''socks5h://u:w:x@h:1080'', ''socks5h://h:1080''] \<and>
   (\<exists>v. proxy_entry strict_urls ''socks5h://h:1080'' v) \<and> (\<nexists>v. proxy_entry strict_urls ''socks5h://h:1080/x'' v)"
proof -
  have ok: "ParseProxies strict_urls sample_entries = Inr [''socks5h://u:w:x@h:1080'', ''socks5h://h:1080'']"
    "map (\<lambda>raw. parseProxy strict_urls raw 1) sample_entries =
       map Inr [[], ''socks5h://u:w:x@h:1080'', ''socks5h://u:w:x@h:1080'', ''socks5h://h:1080'']"
    by code_simp+
  obtain vs where vs: "list_all2 (proxy_entry strict_urls) sample_entries vs"
    using proxies_parsed [of strict_urls sample_entries "[''socks5h://u:w:x@h:1080'', ''socks5h://h:1080'']" "[]"] ok(1) by blast
  then have "map (\<lambda>raw. parseProxy strict_urls raw 1) sample_entries = map Inr vs"
    by (simp add: list_all2_conv_all_nth parseProxy_iff list_eq_iff_nth_eq)
  then have good: "vs = [[], ''socks5h://u:w:x@h:1080'', ''socks5h://u:w:x@h:1080'', ''socks5h://h:1080'']"
    unfolding ok(2) by (auto simp: Cons_eq_map_conv)
  let ?bad = "[''socks5h://h:1080'', ''socks5h://h:1080/x'']"
  have "ParseProxies strict_urls ?bad = Inl ''invalid SOCKS5H proxy at entry 2''" by code_simp
  then obtain j where j: "j < length ?bad" "\<forall>j' < j. \<exists>v. proxy_entry strict_urls (?bad ! j') v"
      "\<nexists>v. proxy_entry strict_urls (?bad ! j) v" "''invalid SOCKS5H proxy at entry 2'' \<in> entry_errors (j + 1)"
    using proxies_parsed [of strict_urls ?bad "[]" "''invalid SOCKS5H proxy at entry 2''"] by auto
  have "j \<noteq> 0"
  proof
    assume "j = 0"
    moreover have "decimal 1 = ''1''" by code_simp
    ultimately show False using j(4) by (simp add: entry_errors_def)
  qed
  with j(1) have "j = 1" by simp
  with j(2,3) vs good show ?thesis by auto
qed

end
