(* ===== verification/Runtime.thy ===== *)
theory Runtime
  imports Interceptor Probe_Client Host_Path Proxy_List
begin

text \<open>
  The plugin's runtime, \<open>cmd/plugin/main.go\<close> and \<open>cmd/plugin/prewarm_host.go\<close>: the global
  state, its lifecycle (init, register and reconfigure, quiesce, shutdown), the dispatch of the
  host's calls to the hooks, and the bridge to the host's callbacks.

  The wire format belongs to the SDK, so the method names and the decoders of the requests are
  an \<open>abi\<close>, a reply is the value that is put into an envelope, and the memory that crosses the
  C boundary is left out. A lifecycle call holds \<open>lifecycleMu\<close> from begin to end, so each is one
  step. The engines share one budget, which outlives them: it is \<open>rt_budget\<close>, as the last engine left it.
\<close>

section \<open>Data\<close>

definition defaultMaxEntries :: int where "defaultMaxEntries = 10000"
definition defaultMaxPendingEntries :: int where "defaultMaxPendingEntries = 20000"

record pluginConfig =
  pc_MaxEntries :: int
  pc_MaxPendingEntries :: int
  pc_AcceptedLengths :: "int list"
  pc_Prewarm :: Config

record lifecycleRequest =
  lr_ConfigYAML :: string
  lr_SchemaVersion :: int

record Runtime =
  rt_plugin :: Plugin
  rt_stopped :: bool
  rt_open :: bool
  rt_host :: bool
  rt_budget :: Budget

record abi =
  ab_Register :: string
  ab_Reconfigure :: string
  ab_Quiesce :: string
  ab_Before :: string
  ab_After :: string
  ab_Response :: string
  ab_StreamChunk :: string
  ab_WebSocket :: string
  ab_Complete :: string
  ab_init_index :: int

text \<open>A response of the host, as \<open>InterceptResponse\<close> reads it: request id, headers, body.\<close>

record decoders =
  dc_lifecycle :: "string \<Rightarrow> string + lifecycleRequest"
  dc_config :: "string \<Rightarrow> pluginConfig \<Rightarrow> pluginConfig option"
  dc_request :: "string \<Rightarrow> string + RequestInterceptRequest"
  dc_response :: "string \<Rightarrow> string + string \<times> header \<times> string"
  dc_chunk :: "string \<Rightarrow> string + StreamChunkInterceptRequest"
  dc_socket :: "string \<Rightarrow> string + string \<times> string"
  dc_completion :: "string \<Rightarrow> string + string"

text \<open>
  What a lifecycle call finds around it: the process (arguments, working directory, environment),
  the files, and the libraries. \<open>ev_world path\<close> is the world of a probe client whose
  configuration file is \<open>path\<close>.
\<close>

record environment =
  ev_args :: "string list"
  ev_cwd :: string
  ev_getenv :: "string \<Rightarrow> string"
  ev_world :: "string \<Rightarrow> world"
  ev_library :: library
  ev_urls :: url_library
  ev_files :: "string \<Rightarrow> (string \<times> bool) option"
  ev_ip_literal :: "string \<Rightarrow> bool"

text \<open>What a call of the host finds: the clock, the answer to \<open>Describe\<close>, the orders of maps.\<close>

record moment =
  mo_now :: gotime
  mo_answer :: "Identity \<times> bool"
  mo_visit :: "(string, json) gomap \<Rightarrow> (string, json) gomap"
  mo_visit_again :: "(string, json) gomap \<Rightarrow> (string, json) gomap"

datatype reply = Registered | Empty | RequestReply "header option" | ErrorEnvelope string string

section \<open>Building a plugin\<close>

definition newPlugin :: "pluginConfig \<Rightarrow> Plugin" where
  "newPlugin cfg = NewPlugin (NewCache (pc_MaxEntries cfg) (pc_MaxPendingEntries cfg) (pc_AcceptedLengths cfg)) True"

definition no_prewarm :: Config where
  "no_prewarm = \<lparr>Enabled = False, Models = [], MaxProbesPerHour = 0, Proxies = [], ProxyFile = [], HostConfigFile = [],
     Accounts = [], Workers = 0, MaxAttempts = 0, AttemptIntervalSeconds = 0, CooldownSeconds = 0, TTLSeconds = 0,
     RefreshBeforeSeconds = 0, ProbeTimeoutSeconds = 0, MaxPending = 0\<rparr>"

definition default_config :: pluginConfig where
  "default_config = \<lparr>pc_MaxEntries = defaultMaxEntries, pc_MaxPendingEntries = defaultMaxPendingEntries,
     pc_AcceptedLengths = [], pc_Prewarm = no_prewarm\<rparr>"

definition newProbeClient :: "environment \<Rightarrow> string \<Rightarrow> string + Client" where
  "newProbeClient env path =
     (case ResolveHostConfigPath path (ev_args env) (ev_cwd env) (Some (ev_getenv env)) of
        Inl e \<Rightarrow> Inl e
      | Inr resolved \<Rightarrow>
          NewClient (ev_library env)
            ((ev_world env resolved)\<lparr>wd_guard := ValidateFileHost (ev_args env) (Some (ev_getenv env))\<rparr>) True resolved)"

text \<open>The budget that is shared: the one of the engine in use, or what the last one left.\<close>

definition shared_budget :: "Runtime \<Rightarrow> Budget" where
  "shared_budget rt = (case pl_warmer (rt_plugin rt) of None \<Rightarrow> rt_budget rt | Some e \<Rightarrow> en_budget e)"

definition publish_plugin :: "Plugin \<Rightarrow> Runtime \<Rightarrow> Plugin \<times> Runtime" where
  "publish_plugin next rt =
     (PluginClose (rt_plugin rt), rt\<lparr>rt_plugin := next, rt_budget := shared_budget rt\<rparr>)"

section \<open>Lifecycle\<close>

text \<open>
  \<open>configure\<close>: an error, or the plugin that was closed; and the runtime that is left.
\<close>

definition configure :: "environment \<Rightarrow> decoders \<Rightarrow> string \<Rightarrow> Runtime \<Rightarrow> (string + Plugin) \<times> Runtime" where
  "configure env dc raw rt =
     (if rt_stopped rt then (Inl ''plugin runtime is shut down'', rt)
      else case dc_lifecycle dc raw of
        Inl e \<Rightarrow> (Inl e, rt)
      | Inr request \<Rightarrow>
          if lr_SchemaVersion request < 2
          then (Inl ''request lifecycle plugin requires host schema version 2 or newer'', rt)
          else case (if lr_ConfigYAML request \<noteq> [] then dc_config dc (lr_ConfigYAML request) default_config
                     else Some default_config) of
            None \<Rightarrow> (Inl ''invalid plugin configuration'', rt)
          | Some cfg \<Rightarrow>
              if pc_MaxEntries cfg < 1 \<or> pc_MaxPendingEntries cfg < 1
              then (Inl ''max_entries and max_pending_entries must be greater than zero'', rt)
              else
                let plugin = newPlugin cfg in
                if Enabled (pc_Prewarm cfg) then
                  let prewarm = Defaults (pc_Prewarm cfg) in
                  case Validate (ev_ip_literal env) prewarm of
                    Some e \<Rightarrow> (Inl e, rt)
                  | None \<Rightarrow>
                      (case newProbeClient env (HostConfigFile prewarm) of
                         Inl e \<Rightarrow> (Inl e, rt)
                       | Inr client \<Rightarrow>
                           (case New (ev_ip_literal env) prewarm
                                   (LoadProxies (ev_urls env) (ev_files env) (Defaults prewarm)) True True of
                              Inl e \<Rightarrow> (Inl e, rt)
                            | Inr warmer \<Rightarrow>
                                let warmer = DelayStart (5 * Second) (SetBudget (shared_budget rt) warmer)
                                in apfst Inr (publish_plugin (SetPrewarm warmer plugin) rt)))
                else apfst Inr (publish_plugin plugin rt))"

definition resetRuntimeLocked :: "Runtime \<Rightarrow> Plugin \<times> Runtime" where
  "resetRuntimeLocked rt = publish_plugin (newPlugin default_config) rt"

definition plugin_init :: "bool \<Rightarrow> bool \<Rightarrow> Runtime \<Rightarrow> int \<times> Runtime" where
  "plugin_init has_host has_plugin rt =
     (if \<not> has_plugin then (1, rt)
      else (0, rt\<lparr>rt_stopped := False, rt_host := has_host, rt_open := has_host\<rparr>))"

definition cliproxyPluginShutdown :: "Runtime \<Rightarrow> Plugin \<times> Runtime" where
  "cliproxyPluginShutdown rt =
     (let (old, rt) = resetRuntimeLocked (rt\<lparr>rt_stopped := True\<rparr>)
      in (old, rt\<lparr>rt_open := False, rt_host := False\<rparr>))"

section \<open>Calls of the host\<close>

text \<open>The log lines of a hook reach the host when callbacks are open and a host is stored.\<close>

definition delivered :: "log_lines \<Rightarrow> Runtime \<Rightarrow> log_lines" where
  "delivered lines rt = (if rt_open rt \<and> rt_host rt then lines else [])"

definition interceptRequestBeforeAuth :: "decoders \<Rightarrow> string \<Rightarrow> Runtime \<Rightarrow> (string + reply) \<times> log_lines \<times> Runtime" where
  "interceptRequestBeforeAuth dc raw rt =
     (case dc_request dc raw of
        Inl e \<Rightarrow> (Inl e, [], rt)
      | Inr req \<Rightarrow>
          let (response, lines, p) = InterceptRequestBeforeAuth req (rt_plugin rt)
          in (Inr (RequestReply response), delivered lines rt, rt\<lparr>rt_plugin := p\<rparr>))"

definition interceptRequestAfterAuth ::
  "decoders \<Rightarrow> moment \<Rightarrow> string \<Rightarrow> Runtime \<Rightarrow> (string + reply) \<times> log_lines \<times> Runtime" where
  "interceptRequestAfterAuth dc mo raw rt =
     (case dc_request dc raw of
        Inl e \<Rightarrow> (Inl e, [], rt)
      | Inr req \<Rightarrow>
          let (response, lines, p) = InterceptRequestAfterAuth (mo_now mo) (mo_answer mo) req (rt_plugin rt)
          in (Inr (RequestReply response), delivered lines rt, rt\<lparr>rt_plugin := p\<rparr>))"

definition interceptResponse ::
  "decoders \<Rightarrow> moment \<Rightarrow> string \<Rightarrow> Runtime \<Rightarrow> (string + reply) \<times> log_lines \<times> Runtime" where
  "interceptResponse dc mo raw rt =
     (case dc_response dc raw of
        Inl e \<Rightarrow> (Inl e, [], rt)
      | Inr (requestID, headers, body) \<Rightarrow>
          let (lines, p) = InterceptResponse (mo_now mo) requestID headers body (rt_plugin rt)
          in (Inr (RequestReply None), delivered lines rt, rt\<lparr>rt_plugin := p\<rparr>))"

definition interceptStreamChunk ::
  "abi \<Rightarrow> decoders \<Rightarrow> moment \<Rightarrow> string \<Rightarrow> Runtime \<Rightarrow> (string + reply) \<times> log_lines \<times> Runtime" where
  "interceptStreamChunk ab dc mo raw rt =
     (case dc_chunk dc raw of
        Inl e \<Rightarrow> (Inl e, [], rt)
      | Inr req \<Rightarrow>
          let (lines, p) = InterceptStreamChunk (ab_init_index ab) (mo_now mo) req (rt_plugin rt)
          in (Inr (RequestReply None), delivered lines rt, rt\<lparr>rt_plugin := p\<rparr>))"

definition observeWebSocketResponseEvent ::
  "decoders \<Rightarrow> moment \<Rightarrow> string \<Rightarrow> Runtime \<Rightarrow> (string + reply) \<times> log_lines \<times> Runtime" where
  "observeWebSocketResponseEvent dc mo raw rt =
     (case dc_socket dc raw of
        Inl e \<Rightarrow> (Inl e, [], rt)
      | Inr (requestID, payload) \<Rightarrow>
          let (lines, p) = ObserveWebSocketResponseEvent (mo_visit mo) (mo_visit_again mo) (mo_now mo) requestID payload (rt_plugin rt)
          in (Inr Empty, delivered lines rt, rt\<lparr>rt_plugin := p\<rparr>))"

definition completeRequest :: "decoders \<Rightarrow> moment \<Rightarrow> string \<Rightarrow> Runtime \<Rightarrow> (string + reply) \<times> log_lines \<times> Runtime" where
  "completeRequest dc mo raw rt =
     (case dc_completion dc raw of
        Inl e \<Rightarrow> (Inl e, [], rt)
      | Inr requestID \<Rightarrow> (Inr Empty, [], rt\<lparr>rt_plugin := HandleRequestComplete (mo_now mo) requestID (rt_plugin rt)\<rparr>))"

definition handleMethod ::
  "abi \<Rightarrow> decoders \<Rightarrow> environment \<Rightarrow> moment \<Rightarrow> string \<Rightarrow> string \<Rightarrow> Runtime \<Rightarrow>
   (string + reply) \<times> log_lines \<times> Runtime" where
  "handleMethod ab dc env mo name raw rt =
     (if name = ab_Register ab \<or> name = ab_Reconfigure ab then
        (case configure env dc raw rt of
           (Inl e, rt) \<Rightarrow> (Inl e, [], rt)
         | (Inr old, rt) \<Rightarrow> (Inr Registered, [], rt))
      else if name = ab_Quiesce ab then (Inr Empty, [], snd (resetRuntimeLocked rt))
      else if name = ab_Before ab then interceptRequestBeforeAuth dc raw rt
      else if name = ab_After ab then interceptRequestAfterAuth dc mo raw rt
      else if name = ab_Response ab then interceptResponse dc mo raw rt
      else if name = ab_StreamChunk ab then interceptStreamChunk ab dc mo raw rt
      else if name = ab_WebSocket ab then observeWebSocketResponseEvent dc mo raw rt
      else if name = ab_Complete ab then completeRequest dc mo raw rt
      else (Inr (ErrorEnvelope ''unknown_method'' (''unknown method: '' @ name)), [], rt))"

text \<open>The exported call: its status and the envelope it writes.\<close>

definition cliproxyPluginCall ::
  "abi \<Rightarrow> decoders \<Rightarrow> environment \<Rightarrow> moment \<Rightarrow> string option \<Rightarrow> string \<Rightarrow> Runtime \<Rightarrow>
   int \<times> reply \<times> log_lines \<times> Runtime" where
  "cliproxyPluginCall ab dc env mo name raw rt =
     (case name of
        None \<Rightarrow> (1, ErrorEnvelope ''invalid_method'' ''method is required'', [], rt)
      | Some name \<Rightarrow>
          (case handleMethod ab dc env mo name raw rt of
             (Inl e, lines, rt) \<Rightarrow> (1, ErrorEnvelope ''plugin_error'' e, lines, rt)
           | (Inr reply, lines, rt) \<Rightarrow> (0, reply, lines, rt)))"

section \<open>Callbacks into the host\<close>

text \<open>
  The native reply: a status and, unless the pointer is null, the bytes. \<open>callHost\<close> is gated
  by the open flag.
\<close>

definition callHost :: "(string \<Rightarrow> string \<Rightarrow> int \<times> string option) \<Rightarrow> string \<Rightarrow> string \<Rightarrow> Runtime \<Rightarrow> string + string" where
  "callHost native name payload rt =
     (if \<not> rt_open rt then Inl ''Host callbacks are closed''
      else
        let (status, response) = (if rt_host rt then native name payload else (1, None)) in
        case response of
          None \<Rightarrow> Inl ''Host callback failed''
        | Some bytes \<Rightarrow>
            if status \<noteq> 0 then Inl ''Host callback failed''
            else if int (length bytes) > 16 * 1024 * 1024 then Inl ''Host callback response too large''
            else Inr bytes)"

text \<open>
  \<open>existingHostCall\<close> for the three read-only methods of the SDK, \<open>ctx\<close> and \<open>ctx'\<close> being the
  context before and after the native call; \<open>envelope\<close> decodes an SDK envelope into its OK flag,
  whether it carries an error, and its result; \<open>output\<close> decodes the result.
\<close>

definition existingHostCall ::
  "string list \<Rightarrow> (string \<Rightarrow> (bool \<times> bool \<times> string) option) \<Rightarrow> (string \<Rightarrow> 'a option) \<Rightarrow>
   (string \<Rightarrow> string \<Rightarrow> int \<times> string option) \<Rightarrow> string option \<Rightarrow> string option \<Rightarrow>
   string \<Rightarrow> string option \<Rightarrow> Runtime \<Rightarrow> string + 'a" where
  "existingHostCall read_only envelope out native ctx ctx' name payload rt =
     (if name \<notin> set read_only then Inl ''unsupported probe Host callback''
      else case ctx of
        Some e \<Rightarrow> Inl e
      | None \<Rightarrow>
          (case payload of
             None \<Rightarrow> Inl ''cannot encode account query''
           | Some payload \<Rightarrow>
               (case callHost native name payload rt of
                  Inl e \<Rightarrow> Inl ''existing Host account callback unavailable''
                | Inr raw \<Rightarrow>
                    (case ctx' of
                       Some e \<Rightarrow> Inl e
                     | None \<Rightarrow>
                         (case envelope raw of
                            None \<Rightarrow> Inl ''Host account query failed''
                          | Some (ok, has_error, result) \<Rightarrow>
                              if \<not> ok \<or> has_error then Inl ''Host account query failed''
                              else case out result of
                                     None \<Rightarrow> Inl ''invalid Host account reply''
                                   | Some v \<Rightarrow> Inr v)))))"

end
