(* ===== verification/Runtime_Spec.thy ===== *)
theory Runtime_Spec
  imports Runtime Interceptor_Spec
begin

text \<open>
  The runtime over its whole life: a run is a sequence of native init, calls of the host, probe
  traffic of the engine in use, and shutdown. What shutdown leaves is final, the probe budget
  survives every replacement of the engine, and a configuration is taken as a whole or not at all.
\<close>

section \<open>Calls as hooks\<close>

text \<open>What a call of the host does to the plugin, apart from the lifecycle calls.\<close>

definition hook_of :: "abi \<Rightarrow> decoders \<Rightarrow> moment \<Rightarrow> string \<Rightarrow> string \<Rightarrow> (gotime \<times> hook) option" where
  "hook_of ab dc mo name raw =
     (if name \<in> {ab_Register ab, ab_Reconfigure ab, ab_Quiesce ab, ab_Before ab} then None
      else if name = ab_After ab then
        (case dc_request dc raw of Inl e \<Rightarrow> None | Inr req \<Rightarrow> Some (mo_now mo, HookRequest (mo_answer mo) req))
      else if name = ab_Response ab then
        (case dc_response dc raw of Inl e \<Rightarrow> None | Inr (rid, h, body) \<Rightarrow> Some (mo_now mo, HookResponse rid h body))
      else if name = ab_StreamChunk ab then
        (case dc_chunk dc raw of Inl e \<Rightarrow> None | Inr req \<Rightarrow> Some (mo_now mo, HookChunk req))
      else if name = ab_WebSocket ab then
        (case dc_socket dc raw of Inl e \<Rightarrow> None | Inr (rid, payload) \<Rightarrow> Some (mo_now mo, HookSocket (mo_visit mo) (mo_visit_again mo) rid payload))
      else if name = ab_Complete ab then
        (case dc_completion dc raw of Inl e \<Rightarrow> None | Inr rid \<Rightarrow> Some (mo_now mo, HookComplete rid))
      else None)"

definition lifecycle_name :: "abi \<Rightarrow> string \<Rightarrow> bool" where
  "lifecycle_name ab name \<longleftrightarrow> name \<in> {ab_Register ab, ab_Reconfigure ab, ab_Quiesce ab}"

lemma handleMethod_hook:
  assumes "\<not> lifecycle_name ab name"
  shows "snd (snd (handleMethod ab dc env mo name raw rt)) =
    rt\<lparr>rt_plugin := (case hook_of ab dc mo name raw of None \<Rightarrow> rt_plugin rt
                    | Some x \<Rightarrow> hook_apply (ab_init_index ab) x (rt_plugin rt))\<rparr>"
proof -
  have not: "name \<noteq> ab_Register ab" "name \<noteq> ab_Reconfigure ab" "name \<noteq> ab_Quiesce ab"
    using assms by (auto simp: lifecycle_name_def)
  show ?thesis
    unfolding handleMethod_def hook_of_def using not
    by (auto simp: interceptRequestBeforeAuth_def InterceptRequestBeforeAuth_def interceptRequestAfterAuth_def
        interceptResponse_def interceptStreamChunk_def observeWebSocketResponseEvent_def completeRequest_def
        Let_def case_prod_beta split: sum.splits)
qed

section \<open>Steps of the runtime\<close>

datatype rt_op =
    OpInit bool bool
  | OpCall environment moment string string
  | OpProbe gotime
  | OpShutdown

text \<open>\<open>OpProbe\<close> is a worker of the engine in use asking the budget for a probe.\<close>

fun rt_apply :: "abi \<Rightarrow> decoders \<Rightarrow> rt_op \<Rightarrow> Runtime \<Rightarrow> Runtime" where
  "rt_apply ab dc (OpInit has_host has_plugin) rt = snd (plugin_init has_host has_plugin rt)"
| "rt_apply ab dc (OpCall env mo name raw) rt = snd (snd (handleMethod ab dc env mo name raw rt))"
| "rt_apply ab dc (OpProbe now) rt =
     rt\<lparr>rt_plugin := (rt_plugin rt)\<lparr>pl_warmer := map_option (\<lambda>e. snd (reserveProbe now e)) (pl_warmer (rt_plugin rt))\<rparr>\<rparr>"
| "rt_apply ab dc OpShutdown rt = snd (cliproxyPluginShutdown rt)"

inductive rt_step :: "abi \<Rightarrow> decoders \<Rightarrow> Runtime \<Rightarrow> Runtime \<Rightarrow> bool" for ab dc where
  rt_op: "rt_step ab dc rt (rt_apply ab dc op rt)"

definition boot :: "Runtime \<Rightarrow> bool" where
  "boot rt \<longleftrightarrow> rt = \<lparr>rt_plugin = newPlugin default_config, rt_stopped = False, rt_open = False, rt_host = False,
     rt_budget = budget_empty\<rparr>"

text \<open>
  The invariant of the runtime: callbacks are open only while a host is stored, a stopped
  runtime has no engine and no host, and the engine in use is not closed.
\<close>

definition rt_inv :: "Runtime \<Rightarrow> bool" where
  "rt_inv rt \<longleftrightarrow> (rt_open rt \<longrightarrow> rt_host rt) \<and>
     (rt_stopped rt \<longrightarrow> pl_warmer (rt_plugin rt) = None \<and> \<not> rt_open rt \<and> \<not> rt_host rt) \<and>
     (\<forall>e. pl_warmer (rt_plugin rt) = Some e \<longrightarrow> \<not> en_closed e)"

lemma newPlugin_warmer [simp]: "pl_warmer (newPlugin cfg) = None"
  by (simp add: newPlugin_def NewPlugin_def)

lemma New_open: "New ip c loaded h d = Inr e \<Longrightarrow> \<not> en_closed e"
  by (auto simp: New_def Let_def split: if_splits option.splits sum.splits)

text \<open>
  The configuration a call asks for: the one its YAML text gives over the defaults. And whether it can
  be used: positive limits and, when prewarming is enabled, a valid configuration, a readable host
  file and a usable proxy list.
\<close>

definition requested :: "decoders \<Rightarrow> string \<Rightarrow> pluginConfig \<Rightarrow> bool" where
  "requested dc raw cfg \<longleftrightarrow>
     (\<exists>request. dc_lifecycle dc raw = Inr request \<and> 2 \<le> lr_SchemaVersion request \<and>
        (if lr_ConfigYAML request = [] then cfg = default_config
         else dc_config dc (lr_ConfigYAML request) default_config = Some cfg))"

definition usable :: "environment \<Rightarrow> pluginConfig \<Rightarrow> bool" where
  "usable env cfg \<longleftrightarrow> 1 \<le> pc_MaxEntries cfg \<and> 1 \<le> pc_MaxPendingEntries cfg \<and>
     (Enabled (pc_Prewarm cfg) \<longrightarrow>
        Validate (ev_ip_literal env) (Defaults (pc_Prewarm cfg)) = None \<and>
        (\<exists>client. newProbeClient env (HostConfigFile (pc_Prewarm cfg)) = Inr client) \<and>
        (\<exists>proxies. LoadProxies (ev_urls env) (ev_files env) (Defaults (pc_Prewarm cfg)) = Inr proxies))"

lemma Defaults_idem: "Defaults (Defaults c) = Defaults c"
  by (simp add: Defaults_def or_default_def)

lemma Defaults_simps [simp]:
  "HostConfigFile (Defaults c) = HostConfigFile c" "Enabled (Defaults c) = Enabled c"
  by (simp_all add: Defaults_def)

lemma New_accepts:
  "(\<exists>e. New ip (Defaults c) loaded True True = Inr e) \<longleftrightarrow>
     Enabled c \<and> Validate ip (Defaults c) = None \<and> (\<exists>proxies. loaded = Inr proxies)"
  by (auto simp: New_def Let_def Defaults_idem split: option.split sum.split)

text \<open>Everything \<open>configure\<close> does: the plugin it publishes for the configuration asked for, or nothing.\<close>

definition configured :: "environment \<Rightarrow> pluginConfig \<Rightarrow> Budget \<Rightarrow> Plugin" where
  "configured env cfg budget =
     (if Enabled (pc_Prewarm cfg)
      then SetPrewarm (DelayStart (5 * Second) (SetBudget budget
             (projr (New (ev_ip_literal env) (Defaults (pc_Prewarm cfg))
                (LoadProxies (ev_urls env) (ev_files env) (Defaults (pc_Prewarm cfg))) True True)))) (newPlugin cfg)
      else newPlugin cfg)"

lemma requested_unique: "requested dc raw cfg \<Longrightarrow> requested dc raw cfg' \<Longrightarrow> cfg' = cfg"
  by (auto simp: requested_def split: if_splits)

lemma configure_cases:
  obtains (accepted) cfg where "\<not> rt_stopped rt" "requested dc raw cfg" "usable env cfg"
      "configure env dc raw rt = apfst Inr (publish_plugin (configured env cfg (shared_budget rt)) rt)"
  | (refused) e where "configure env dc raw rt = (Inl e, rt)" "rt_stopped rt \<or> (\<nexists>cfg. requested dc raw cfg \<and> usable env cfg)"
proof (cases "\<not> rt_stopped rt \<and> (\<exists>cfg. requested dc raw cfg)")
  case False
  then have "\<exists>e. configure env dc raw rt = (Inl e, rt)"
    by (auto simp: configure_def requested_def split: sum.split option.split)
  with False refused show ?thesis by blast
next
  case True
  then obtain cfg where running: "\<not> rt_stopped rt" and req: "requested dc raw cfg" by blast
  then obtain request where r: "dc_lifecycle dc raw = Inr request" "2 \<le> lr_SchemaVersion request"
      "(if lr_ConfigYAML request \<noteq> [] then dc_config dc (lr_ConfigYAML request) default_config else Some default_config) = Some cfg"
    by (fastforce simp: requested_def)
  show ?thesis
  proof (cases "usable env cfg")
    case False
    then have "\<exists>e. configure env dc raw rt = (Inl e, rt)"
      using running r New_accepts [of "ev_ip_literal env" "pc_Prewarm cfg"
          "LoadProxies (ev_urls env) (ev_files env) (Defaults (pc_Prewarm cfg))"]
      by (auto simp: configure_def usable_def Let_def Defaults_idem split: option.split sum.split)
    with False req requested_unique refused show ?thesis by metis
  next
    case use: True
    have "configure env dc raw rt = apfst Inr (publish_plugin (configured env cfg (shared_budget rt)) rt)"
    proof (cases "Enabled (pc_Prewarm cfg)")
      case True
      with use New_accepts [of "ev_ip_literal env" "pc_Prewarm cfg"
          "LoadProxies (ev_urls env) (ev_files env) (Defaults (pc_Prewarm cfg))"]
      obtain client e where "newProbeClient env (HostConfigFile (pc_Prewarm cfg)) = Inr client"
          "New (ev_ip_literal env) (Defaults (pc_Prewarm cfg))
             (LoadProxies (ev_urls env) (ev_files env) (Defaults (pc_Prewarm cfg))) True True = Inr e"
        by (auto simp: usable_def)
      with True use running r show ?thesis
        by (simp add: configure_def configured_def usable_def Let_def Defaults_idem)
    next
      case False
      with use running r show ?thesis by (simp add: configure_def configured_def usable_def Let_def)
    qed
    with running req use accepted show ?thesis by blast
  qed
qed

lemma configureE:
  assumes "configure env dc raw rt = (Inr old, rt')"
  obtains (without) cfg where "\<not> rt_stopped rt" "\<not> Enabled (pc_Prewarm cfg)"
      "(old, rt') = publish_plugin (newPlugin cfg) rt"
  | (with_engine) cfg e where "\<not> rt_stopped rt" "Enabled (pc_Prewarm cfg)"
      "New (ev_ip_literal env) (Defaults (pc_Prewarm cfg))
         (LoadProxies (ev_urls env) (ev_files env) (Defaults (pc_Prewarm cfg))) True True = Inr e"
      "(old, rt') = publish_plugin (SetPrewarm (DelayStart (5 * Second) (SetBudget (shared_budget rt) e)) (newPlugin cfg)) rt"
proof (cases rule: configure_cases [of rt dc raw env])
  case (accepted cfg)
  then have pub: "(old, rt') = publish_plugin (configured env cfg (shared_budget rt)) rt"
    using assms by (cases "publish_plugin (configured env cfg (shared_budget rt)) rt") simp
  show thesis
  proof (cases "Enabled (pc_Prewarm cfg)")
    case True
    with accepted(3) New_accepts [of "ev_ip_literal env" "pc_Prewarm cfg"
        "LoadProxies (ev_urls env) (ev_files env) (Defaults (pc_Prewarm cfg))"]
    obtain e where e: "New (ev_ip_literal env) (Defaults (pc_Prewarm cfg))
        (LoadProxies (ev_urls env) (ev_files env) (Defaults (pc_Prewarm cfg))) True True = Inr e"
      by (auto simp: usable_def)
    with True accepted(1) pub show thesis by (intro with_engine) (simp_all add: configured_def)
  next
    case False
    with accepted(1) pub show thesis by (intro without) (simp_all add: configured_def)
  qed
next
  case (refused e)
  with assms show thesis by simp
qed

lemma configure_refused: "configure env dc raw rt = (Inl e, rt') \<Longrightarrow> rt' = rt"
  by (cases rule: configure_cases [of rt dc raw env]) (auto simp: publish_plugin_def)

lemma handleMethod_lifecycle:
  "name = ab_Register ab \<or> name = ab_Reconfigure ab \<Longrightarrow>
     snd (snd (handleMethod ab dc env mo name raw rt)) = snd (configure env dc raw rt)"
  "name = ab_Quiesce ab \<Longrightarrow> \<not> (name = ab_Register ab \<or> name = ab_Reconfigure ab) \<Longrightarrow>
     snd (snd (handleMethod ab dc env mo name raw rt)) = snd (resetRuntimeLocked rt)"
  by (auto simp: handleMethod_def split: sum.split prod.split)

lemma configure_snd: "snd (configure env dc raw rt) = rt \<or> (\<exists>old. configure env dc raw rt = (Inr old, snd (configure env dc raw rt)))"
  using configure_refused by (metis old.sum.exhaust prod.collapse)

lemma publish_simps [simp]:
  "rt_plugin (snd (publish_plugin p rt)) = p" "rt_stopped (snd (publish_plugin p rt)) = rt_stopped rt"
  "rt_open (snd (publish_plugin p rt)) = rt_open rt" "rt_host (snd (publish_plugin p rt)) = rt_host rt"
  "rt_budget (snd (publish_plugin p rt)) = shared_budget rt" "fst (publish_plugin p rt) = PluginClose (rt_plugin rt)"
  by (simp_all add: publish_plugin_def)

lemma configure_inv: "configure env dc raw rt = (Inr old, rt') \<Longrightarrow> rt_inv rt \<Longrightarrow> rt_inv rt'"
proof (elim configureE)
  fix cfg assume *: "rt_inv rt" "(old, rt') = publish_plugin (newPlugin cfg) rt" "\<not> rt_stopped rt"
  then have "rt' = snd (publish_plugin (newPlugin cfg) rt)" by (metis snd_conv)
  with * show "rt_inv rt'" by (simp add: rt_inv_def)
next
  fix cfg e
  assume *: "rt_inv rt" "\<not> rt_stopped rt"
    "(old, rt') = publish_plugin (SetPrewarm (DelayStart (5 * Second) (SetBudget (shared_budget rt) e)) (newPlugin cfg)) rt"
    and new: "New (ev_ip_literal env) (Defaults (pc_Prewarm cfg))
         (LoadProxies (ev_urls env) (ev_files env) (Defaults (pc_Prewarm cfg))) True True = Inr e"
  then have "rt' = snd (publish_plugin (SetPrewarm (DelayStart (5 * Second) (SetBudget (shared_budget rt) e)) (newPlugin cfg)) rt)"
    by (metis snd_conv)
  with * New_open [OF new] show "rt_inv rt'" by (simp add: rt_inv_def SetPrewarm_def DelayStart_def SetBudget_def)
qed

text \<open>A change of the plugin that keeps the engine open and does not bring one.\<close>

lemma rt_inv_plugin:
  assumes "rt_inv rt" and "rel_option (\<lambda>e e'. en_closed e' = en_closed e) (pl_warmer (rt_plugin rt)) (pl_warmer p)"
  shows "rt_inv (rt\<lparr>rt_plugin := p\<rparr>)"
  using assms by (auto simp: rt_inv_def rel_option_iff split: option.splits)

lemma reserve_closed: "en_closed (snd (reserveProbe now e)) = en_closed e"
  by (simp add: reserveProbe_def Let_def case_prod_beta)

lemma call_inv: "rt_inv rt \<Longrightarrow> rt_inv (snd (snd (handleMethod ab dc env mo name raw rt)))"
proof (cases "lifecycle_name ab name")
  case True
  assume inv: "rt_inv rt"
  show ?thesis
  proof (cases "name = ab_Register ab \<or> name = ab_Reconfigure ab")
    case True
    with inv configure_inv configure_snd [of env dc raw rt] show ?thesis by (metis handleMethod_lifecycle(1))
  next
    case False
    with True inv lifecycle_name_def [of ab name] show ?thesis
      by (auto simp: handleMethod_def resetRuntimeLocked_def rt_inv_def)
  qed
next
  case False
  assume inv: "rt_inv rt"
  have "rel_option (\<lambda>e e'. en_closed e' = en_closed e) (pl_warmer (rt_plugin rt))
      (pl_warmer (hook_apply (ab_init_index ab) x (rt_plugin rt)))" for x
    using hook_warmer by (rule option.rel_mono_strong) (simp add: same_ownership_def)
  with rt_inv_plugin [OF inv] show ?thesis
    unfolding handleMethod_hook [OF False] by (cases "hook_of ab dc mo name raw") (simp_all add: inv)
qed

interpretation runtime: invariant_of boot "rt_step ab dc" rt_inv
proof
  fix rt assume "boot rt"
  then show "rt_inv rt" by (simp add: boot_def rt_inv_def)
next
  fix rt rt' assume inv: "rt_inv rt" and "rt_step ab dc rt rt'"
  then obtain op where op: "rt' = rt_apply ab dc op rt" by (auto elim: rt_step.cases)
  show "rt_inv rt'"
  proof (cases op)
    case (OpInit h p)
    with inv op show ?thesis by (auto simp: plugin_init_def rt_inv_def)
  next
    case (OpCall env mo name raw)
    with op call_inv [OF inv] show ?thesis by simp
  next
    case (OpProbe now)
    with op show ?thesis
      by (simp, intro rt_inv_plugin [OF inv]) (auto simp: reserve_closed rel_option_iff split: option.split)
  next
    case OpShutdown
    with op show ?thesis
      by (simp add: cliproxyPluginShutdown_def resetRuntimeLocked_def Let_def case_prod_beta rt_inv_def)
  qed
qed

section \<open>Shutdown\<close>

fun no_init :: "rt_op \<Rightarrow> bool" where
  "no_init (OpInit has_host has_plugin) = (\<not> has_plugin)"
| "no_init _ = True"

lemma stopped_kept: "no_init op \<Longrightarrow> rt_stopped rt \<Longrightarrow> rt_stopped (rt_apply ab dc op rt)"
proof (cases op)
  case (OpCall env mo name raw)
  assume *: "rt_stopped rt"
  show ?thesis
  proof (cases "lifecycle_name ab name")
    case True
    with * OpCall show ?thesis
      by (auto simp: handleMethod_def lifecycle_name_def configure_def resetRuntimeLocked_def)
  next
    case False
    with * OpCall show ?thesis by (simp add: handleMethod_hook)
  qed
qed (auto simp: plugin_init_def cliproxyPluginShutdown_def resetRuntimeLocked_def Let_def case_prod_beta)

lemma stopped_run: "list_all no_init ops \<Longrightarrow> rt_stopped rt \<Longrightarrow> rt_stopped (fold (rt_apply ab dc) ops rt)"
  by (induction ops arbitrary: rt) (auto simp: stopped_kept)

lemma reach_run: "reach boot (rt_step ab dc) rt \<Longrightarrow> reach boot (rt_step ab dc) (fold (rt_apply ab dc) ops rt)"
proof (induction ops arbitrary: rt)
  case (Cons op ops)
  then have "reach boot (rt_step ab dc) (rt_apply ab dc op rt)" using reach_step rt_op by fast
  with Cons.IH show ?case by simp
qed simp

lemma shutdown_stopped: "rt_stopped (rt_apply ab dc OpShutdown rt)"
  by (simp add: cliproxyPluginShutdown_def resetRuntimeLocked_def Let_def case_prod_beta)

lemma stopped_silent: "\<not> rt_open rt \<Longrightarrow> fst (snd (handleMethod ab dc env mo name raw rt)) = []"
  by (auto simp: handleMethod_def delivered_def interceptRequestBeforeAuth_def interceptRequestAfterAuth_def
      interceptResponse_def interceptStreamChunk_def observeWebSocketResponseEvent_def completeRequest_def
      Let_def case_prod_beta split: sum.splits)

text \<open>
  C12. Shutdown is final. In any reachable state of the runtime, after a shutdown and until the
  next native init, whatever the host calls: no engine exists, no call is logged to the host, no
  host callback gets through, and registering or reconfiguring is refused.
\<close>

theorem shutdown_is_final:
  assumes "reach boot (rt_step ab dc) rt" and "list_all no_init ops"
  shows "let rt' = fold (rt_apply ab dc) ops (rt_apply ab dc OpShutdown rt) in
    pl_warmer (rt_plugin rt') = None \<and> fst (snd (handleMethod ab dc env mo name raw rt')) = [] \<and>
    (\<exists>e. callHost native name raw rt' = Inl e) \<and>
    configure env dc raw rt' = (Inl ''plugin runtime is shut down'', rt')"
proof -
  define rt' where "rt' = fold (rt_apply ab dc) ops (rt_apply ab dc OpShutdown rt)"
  have "reach boot (rt_step ab dc) rt'"
    unfolding rt'_def using reach_run [OF assms(1), of "OpShutdown # ops"] by simp
  then have "rt_inv rt'" by (rule runtime.inv_reach)
  moreover have "rt_stopped rt'"
    unfolding rt'_def using stopped_run [OF assms(2) shutdown_stopped] by blast
  ultimately have "pl_warmer (rt_plugin rt') = None" "\<not> rt_open rt'" "rt_stopped rt'"
    by (auto simp: rt_inv_def)
  then show ?thesis
    using stopped_silent unfolding rt'_def [symmetric] Let_def by (simp add: callHost_def configure_def)
qed

section \<open>The budget\<close>

lemma hook_budget:
  "shared_budget (rt\<lparr>rt_plugin := hook_apply ix x (rt_plugin rt)\<rparr>) = shared_budget rt"
  using hook_warmer [of "rt_plugin rt" ix x]
  by (auto simp: shared_budget_def rel_option_iff same_ownership_def split: option.splits)

lemma configure_budget: "configure env dc raw rt = (Inr old, rt') \<Longrightarrow> shared_budget rt' = shared_budget rt"
proof (elim configureE)
  fix cfg assume "(old, rt') = publish_plugin (newPlugin cfg) rt"
  then have "rt' = snd (publish_plugin (newPlugin cfg) rt)" by (metis snd_conv)
  then show "shared_budget rt' = shared_budget rt" by (simp add: shared_budget_def [of "snd _"])
next
  fix cfg e
  assume "(old, rt') = publish_plugin (SetPrewarm (DelayStart (5 * Second) (SetBudget (shared_budget rt) e)) (newPlugin cfg)) rt"
  then have "rt' = snd (publish_plugin (SetPrewarm (DelayStart (5 * Second) (SetBudget (shared_budget rt) e)) (newPlugin cfg)) rt)"
    by (metis snd_conv)
  then show "shared_budget rt' = shared_budget rt"
    by (simp add: shared_budget_def [of "snd _"] SetPrewarm_def DelayStart_def SetBudget_def)
qed

lemma reset_budget: "shared_budget (snd (resetRuntimeLocked rt)) = shared_budget rt"
  by (simp add: resetRuntimeLocked_def shared_budget_def [of "snd _"])

lemma call_budget: "shared_budget (snd (snd (handleMethod ab dc env mo name raw rt))) = shared_budget rt"
proof (cases "lifecycle_name ab name")
  case True
  then show ?thesis
    using configure_budget configure_snd [of env dc raw rt] reset_budget handleMethod_lifecycle [of name ab dc env mo raw rt]
    unfolding lifecycle_name_def by (metis insertE singletonD)
next
  case False
  then show ?thesis using hook_budget by (cases "hook_of ab dc mo name raw") (simp_all add: handleMethod_hook)
qed

text \<open>
  The calls a step makes to the budget (the time and the limit in force), and the probes it is
  granted.
\<close>

definition asks :: "rt_op \<Rightarrow> Runtime \<Rightarrow> (gotime \<times> int) list" where
  "asks op rt =
     (case (op, pl_warmer (rt_plugin rt)) of
        (OpProbe now, Some e) \<Rightarrow> if en_closed e then [] else [(now, MaxProbesPerHour (en_cfg e))]
      | _ \<Rightarrow> [])"

definition grants :: "rt_op \<Rightarrow> Runtime \<Rightarrow> gotime list" where
  "grants op rt =
     (case (op, pl_warmer (rt_plugin rt)) of
        (OpProbe now, Some e) \<Rightarrow> if fst (reserveProbe now e) then [now] else []
      | _ \<Rightarrow> [])"

fun probe_calls :: "abi \<Rightarrow> decoders \<Rightarrow> rt_op list \<Rightarrow> Runtime \<Rightarrow> (gotime \<times> int) list" where
  "probe_calls ab dc [] rt = []"
| "probe_calls ab dc (op # ops) rt = asks op rt @ probe_calls ab dc ops (rt_apply ab dc op rt)"

fun granted_probes :: "abi \<Rightarrow> decoders \<Rightarrow> rt_op list \<Rightarrow> Runtime \<Rightarrow> gotime list" where
  "granted_probes ab dc [] rt = []"
| "granted_probes ab dc (op # ops) rt = grants op rt @ granted_probes ab dc ops (rt_apply ab dc op rt)"

lemma budget_run_append: "budget_run (xs @ ys) s = budget_run ys (budget_run xs s)"
  by (induction xs s rule: budget_run.induct) (auto simp: case_prod_beta Let_def)

lemma op_budget: "budget_run (asks op rt) (g, shared_budget rt) = (g @ grants op rt, shared_budget (rt_apply ab dc op rt))"
proof (cases op)
  case (OpInit h p)
  then show ?thesis by (simp add: asks_def grants_def plugin_init_def shared_budget_def split: option.split)
next
  case (OpCall env mo name raw)
  then show ?thesis by (simp add: asks_def grants_def call_budget)
next
  case (OpProbe now)
  then show ?thesis
    by (cases "pl_warmer (rt_plugin rt)") (simp_all add: asks_def grants_def shared_budget_def reserveProbe_def Let_def case_prod_beta)
next
  case OpShutdown
  have "shared_budget (rt\<lparr>rt_stopped := True\<rparr>) = shared_budget rt"
    by (simp add: shared_budget_def split: option.split)
  moreover have "shared_budget (rt\<lparr>rt_open := b, rt_host := c\<rparr>) = shared_budget rt" for b c rt
    by (simp add: shared_budget_def split: option.split)
  ultimately show ?thesis
    using OpShutdown reset_budget [of "rt\<lparr>rt_stopped := True\<rparr>"]
    by (simp add: asks_def grants_def cliproxyPluginShutdown_def Let_def case_prod_beta)
qed

lemma run_budget:
  "budget_run (probe_calls ab dc ops rt) (g, shared_budget rt) =
     (g @ granted_probes ab dc ops rt, shared_budget (fold (rt_apply ab dc) ops rt))"
proof (induction ops arbitrary: rt g)
  case (Cons op ops)
  show ?case
    unfolding probe_calls.simps granted_probes.simps budget_run_append op_budget [of op rt g ab dc]
    by (simp add: Cons.IH)
qed simp

text \<open>
  C13. The hourly budget holds over the whole life of the process. However often the host
  reconfigures, quiesces, shuts down and starts the plugin in between, the probes granted in any
  hour are at most \<open>L\<close>, when no configuration allows more than \<open>L\<close> and the clock does not go back.
\<close>

theorem budget_survives_reconfiguration:
  assumes "boot rt" and "nondecreasing T (probe_calls ab dc ops rt)"
    and "\<forall>c \<in> set (probe_calls ab dc ops rt). snd c \<le> L" and "0 \<le> L"
  shows "int (length (window t (granted_probes ab dc ops rt))) \<le> L"
proof -
  have "shared_budget rt = budget_empty" using assms(1) by (simp add: boot_def shared_budget_def)
  then have "budget_run (probe_calls ab dc ops rt) ([], budget_empty) =
      (granted_probes ab dc ops rt, shared_budget (fold (rt_apply ab dc) ops rt))"
    using run_budget [of ab dc ops rt "[]"] by simp
  moreover have "\<forall>t. int (length (window t [])) \<le> L" using assms(4) by (simp add: window_def)
  ultimately show ?thesis using budget_run_window [OF budget_repr_empty assms(2,3)] by blast
qed

section \<open>Configuration\<close>

lemma newPlugin_cache: "entries (pl_cache (newPlugin cfg)) = []" "pending (pl_cache (newPlugin cfg)) = []"
  by (simp_all add: newPlugin_def NewPlugin_def NewCache_def Let_def)

lemma foldl_records:
  assumes "\<And>k r. gm_get m k = Some r \<Longrightarrow> rc_value r = None"
  shows "gm_get (foldl (\<lambda>m kp. gm_put (fst kp) zero_record m) m kps) k = Some r \<Longrightarrow> rc_value r = None"
  using assms
proof (induction kps arbitrary: m)
  case (Cons kp kps)
  have "rc_value r = None" if "gm_get (gm_put (fst kp) zero_record m) k = Some r" for k r
    using that Cons.prems(2) by (auto simp: zero_record_def split: if_splits)
  with Cons.IH [of "gm_put (fst kp) zero_record m"] Cons.prems(1) show ?case by fastforce
qed simp

lemma New_facts:
  assumes "New ip (Defaults c) loaded h d = Inr e"
  shows "\<not> en_closed e" "live e k = None" "en_queue e = []" "en_cfg e = Defaults c"
  using assms foldl_records [of "[]"]
  by (auto simp: New_def Let_def live_def Defaults_idem split: if_splits option.splits sum.splits)

lemma New_proxies: "New ip (Defaults c) loaded h d = Inr e \<Longrightarrow> loaded = Inr (map pn_url (en_proxies e))"
  by (auto simp: New_def Let_def comp_def split: if_splits option.splits sum.splits)

lemma configured_cache:
  assumes "1 \<le> pc_MaxEntries cfg" and "1 \<le> pc_MaxPendingEntries cfg"
  shows "pl_cache (configured env cfg b) =
    \<lparr>maxEntries = pc_MaxEntries cfg, maxPendingEntries = pc_MaxPendingEntries cfg,
     acceptedLengths = (let ls = filter (\<lambda>l. 0 < l) (pc_AcceptedLengths cfg) in if ls = [] then [292, 332] else ls),
     entries = [], pending = []\<rparr>"
  using assms by (simp add: configured_def SetPrewarm_def newPlugin_def NewPlugin_def NewCache_def Let_def
      defaultAcceptedLengths_def StateLength_def StateLengthTeam_def)

lemma configured_engine:
  assumes "usable env cfg"
  shows "case pl_warmer (configured env cfg b) of None \<Rightarrow> \<not> Enabled (pc_Prewarm cfg)
    | Some e \<Rightarrow> Enabled (pc_Prewarm cfg) \<and> en_cfg e = Defaults (pc_Prewarm cfg) \<and>
        LoadProxies (ev_urls env) (ev_files env) (Defaults (pc_Prewarm cfg)) = Inr (map pn_url (en_proxies e)) \<and>
        \<not> en_closed e \<and> en_startupDelay e = 5 * Second \<and> en_budget e = b \<and> (\<forall>k. live e k = None) \<and> en_queue e = []"
proof (cases "Enabled (pc_Prewarm cfg)")
  case True
  with assms New_accepts [of "ev_ip_literal env" "pc_Prewarm cfg"
      "LoadProxies (ev_urls env) (ev_files env) (Defaults (pc_Prewarm cfg))"]
  obtain e where e: "New (ev_ip_literal env) (Defaults (pc_Prewarm cfg))
      (LoadProxies (ev_urls env) (ev_files env) (Defaults (pc_Prewarm cfg))) True True = Inr e"
    by (auto simp: usable_def)
  note facts = New_facts [OF e]
  have "live (DelayStart d (SetBudget b e)) k = None" for d k
    using facts(2) [of k] by (simp add: live_def DelayStart_def SetBudget_def)
  with True facts New_proxies [OF e] e show ?thesis
    by (simp add: configured_def SetPrewarm_def DelayStart_def SetBudget_def)
qed (simp add: configured_def)

text \<open>
  C20. A configuration is taken as a whole or not at all. A call is accepted exactly if the runtime is
  not shut down and asks for a usable configuration. Refused, the runtime is what it was. Accepted,
  the old plugin is closed and the one in use has an empty cache with the limits and lengths
  asked for, and an engine exactly if prewarming is enabled: with the configuration asked for
  (limits left out filled in) and the proxies of its list, open, without tickets or jobs, waiting
  five seconds, and continuing the budget of its predecessor.
\<close>

theorem configuration_is_atomic:
  assumes "name \<in> {ab_Register ab, ab_Reconfigure ab}"
  shows "case configure env dc raw rt of
      (Inl e, rt') \<Rightarrow> rt' = rt \<and> handleMethod ab dc env mo name raw rt = (Inl e, [], rt) \<and>
        (rt_stopped rt \<or> (\<nexists>cfg. requested dc raw cfg \<and> usable env cfg))
    | (Inr old, rt') \<Rightarrow> handleMethod ab dc env mo name raw rt = (Inr Registered, [], rt') \<and>
        \<not> rt_stopped rt \<and> old = PluginClose (rt_plugin rt) \<and> shared_budget rt' = shared_budget rt \<and>
        rt_stopped rt' = rt_stopped rt \<and> rt_open rt' = rt_open rt \<and> rt_host rt' = rt_host rt \<and>
        (\<exists>cfg. requested dc raw cfg \<and> usable env cfg \<and>
           pl_cache (rt_plugin rt') =
             \<lparr>maxEntries = pc_MaxEntries cfg, maxPendingEntries = pc_MaxPendingEntries cfg,
              acceptedLengths = (let ls = filter (\<lambda>l. 0 < l) (pc_AcceptedLengths cfg) in if ls = [] then [292, 332] else ls),
              entries = [], pending = []\<rparr> \<and>
           (case pl_warmer (rt_plugin rt') of
              None \<Rightarrow> \<not> Enabled (pc_Prewarm cfg)
            | Some e \<Rightarrow> Enabled (pc_Prewarm cfg) \<and> en_cfg e = Defaults (pc_Prewarm cfg) \<and>
                LoadProxies (ev_urls env) (ev_files env) (Defaults (pc_Prewarm cfg)) = Inr (map pn_url (en_proxies e)) \<and>
                \<not> en_closed e \<and> en_startupDelay e = 5 * Second \<and> en_budget e = shared_budget rt \<and>
                (\<forall>k. live e k = None) \<and> en_queue e = []))"
proof -
  have call: "handleMethod ab dc env mo name raw rt =
      (case configure env dc raw rt of (Inl e, rt) \<Rightarrow> (Inl e, [], rt) | (Inr old, rt') \<Rightarrow> (Inr Registered, [], rt'))"
    using assms by (auto simp: handleMethod_def)
  show ?thesis
  proof (cases rule: configure_cases [of rt dc raw env])
    case (refused e)
    with call show ?thesis by simp
  next
    case (accepted cfg)
    let ?p = "configured env cfg (shared_budget rt)"
    obtain old rt' where pub: "publish_plugin ?p rt = (old, rt')" by fastforce
    then have rt': "old = PluginClose (rt_plugin rt)" "rt_plugin rt' = ?p" "rt_stopped rt' = rt_stopped rt"
      "rt_open rt' = rt_open rt" "rt_host rt' = rt_host rt"
      by (auto simp: publish_plugin_def)
    have conf: "configure env dc raw rt = (Inr old, rt')" by (simp add: accepted(4) pub)
    have cache: "pl_cache ?p = \<lparr>maxEntries = pc_MaxEntries cfg, maxPendingEntries = pc_MaxPendingEntries cfg,
        acceptedLengths = (let ls = filter (\<lambda>l. 0 < l) (pc_AcceptedLengths cfg) in if ls = [] then [292, 332] else ls),
        entries = [], pending = []\<rparr>"
      using accepted(3) by (simp add: configured_cache usable_def)
    have engine: "case pl_warmer ?p of None \<Rightarrow> \<not> Enabled (pc_Prewarm cfg)
        | Some e \<Rightarrow> Enabled (pc_Prewarm cfg) \<and> en_cfg e = Defaults (pc_Prewarm cfg) \<and>
            LoadProxies (ev_urls env) (ev_files env) (Defaults (pc_Prewarm cfg)) = Inr (map pn_url (en_proxies e)) \<and>
            \<not> en_closed e \<and> en_startupDelay e = 5 * Second \<and> en_budget e = shared_budget rt \<and>
            (\<forall>k. live e k = None) \<and> en_queue e = []"
      using accepted(3) by (rule configured_engine)
    show ?thesis
      using call conf accepted(1-3) rt' cache engine configure_budget [OF conf] by auto
  qed
qed

section \<open>A sample process\<close>

definition sample_abi :: abi where
  "sample_abi = \<lparr>ab_Register = ''register'', ab_Reconfigure = ''reconfigure'', ab_Quiesce = ''quiesce'', ab_Before = ''before'',
     ab_After = ''after'', ab_Response = ''response'', ab_StreamChunk = ''chunk'', ab_WebSocket = ''socket'',
     ab_Complete = ''complete'', ab_init_index = - 1\<rparr>"

definition sample_prewarm :: Config where
  "sample_prewarm = no_prewarm\<lparr>Enabled := True, Models := [''gpt-5''], MaxProbesPerHour := 2, Proxies := [''socks5h://h:1080'']\<rparr>"

text \<open>The first byte of a configuration chooses between a passive one and one with an engine.\<close>

definition sample_decoders :: decoders where
  "sample_decoders = \<lparr>dc_lifecycle = (\<lambda>raw. Inr \<lparr>lr_ConfigYAML = raw, lr_SchemaVersion = 2\<rparr>),
     dc_config = (\<lambda>raw cfg. Some (if raw = ''warm'' then cfg\<lparr>pc_Prewarm := sample_prewarm\<rparr> else cfg)),
     dc_request = (\<lambda>_. Inl ''bad''), dc_response = (\<lambda>_. Inl ''bad''), dc_chunk = (\<lambda>_. Inl ''bad''),
     dc_socket = (\<lambda>_. Inl ''bad''), dc_completion = (\<lambda>rid. Inr rid)\<rparr>"

definition sample_environment :: environment where
  "sample_environment = \<lparr>ev_args = [''cpa''], ev_cwd = ''/opt'', ev_getenv = (\<lambda>_. []),
     ev_world = (\<lambda>_. \<lparr>wd_ctx = None, wd_list = None, wd_runtime = (\<lambda>_. None), wd_get = (\<lambda>_. None), wd_guard = None,
       wd_file = Some \<lparr>fv_before = Some (1, 0), fv_bytes = ''x'', fv_read_ok = True, fv_after = Some (1, 0)\<rparr>,
       wd_visit = (\<lambda>m. m), wd_ctx_end = None\<rparr>),
     ev_library = \<lparr>lb_yaml = (\<lambda>_. Some ([MappingNode], Some \<lparr>hc_Proxy = [], hc_UserAgent = [], hc_DisableCloaking = True\<rparr>)),
       lb_BuildDialer = (\<lambda>_. Some (Some True)), lb_sha256 = (\<lambda>_. [])\<rparr>,
     ev_urls = sample_urls, ev_files = (\<lambda>_. None), ev_ip_literal = (\<lambda>_. False)\<rparr>"

definition sample_moment :: moment where
  "sample_moment = \<lparr>mo_now = 1, mo_answer = (\<lparr>id_Scope = [], id_Plan = []\<rparr>, False), mo_visit = (\<lambda>m. m), mo_visit_again = (\<lambda>m. m)\<rparr>"

definition sample_boot :: Runtime where
  "sample_boot = \<lparr>rt_plugin = newPlugin default_config, rt_stopped = False, rt_open = False, rt_host = False,
     rt_budget = budget_empty\<rparr>"

definition sample_call :: "string \<Rightarrow> string \<Rightarrow> rt_op" where
  "sample_call name raw = OpCall sample_environment sample_moment name raw"

text \<open>Two engines, with a quiesce between them, and three asks within an hour under a limit of two.\<close>

definition sample_life :: "rt_op list" where
  "sample_life = [OpInit True True, sample_call ''register'' ''warm'', OpProbe 1, sample_call ''quiesce'' [],
     sample_call ''reconfigure'' ''warm'', OpProbe 2, OpProbe 3]"

lemma sample_boot: "boot sample_boot"
  by (simp add: boot_def sample_boot_def)

theorem budget_survives_reconfiguration_witness:
  "int (length (window 3 (granted_probes sample_abi sample_decoders sample_life sample_boot))) \<le> 2 \<and>
   granted_probes sample_abi sample_decoders sample_life sample_boot = [1, 2]"
proof -
  have "probe_calls sample_abi sample_decoders sample_life sample_boot = [(1, 2), (2, 2), (3, 2)]"
    "granted_probes sample_abi sample_decoders sample_life sample_boot = [1, 2]"
    by code_simp+
  moreover from this(1) have "nondecreasing 0 (probe_calls sample_abi sample_decoders sample_life sample_boot)"
    by (simp add: nondecreasing_def)
  ultimately show ?thesis
    using budget_survives_reconfiguration [OF sample_boot, of 0 sample_abi sample_decoders sample_life 2 3] by auto
qed

theorem shutdown_is_final_witness:
  "configure sample_environment sample_decoders ''warm''
     (rt_apply sample_abi sample_decoders OpShutdown (fold (rt_apply sample_abi sample_decoders) sample_life sample_boot)) =
     (Inl ''plugin runtime is shut down'',
      rt_apply sample_abi sample_decoders OpShutdown (fold (rt_apply sample_abi sample_decoders) sample_life sample_boot))"
proof -
  have "reach boot (rt_step sample_abi sample_decoders) (fold (rt_apply sample_abi sample_decoders) sample_life sample_boot)"
    by (intro reach_run reach_init sample_boot)
  from shutdown_is_final [OF this, of "[]"] show ?thesis by (simp add: Let_def)
qed

theorem configuration_is_atomic_witness:
  "(\<exists>cfg. requested sample_decoders ''warm'' cfg \<and> usable sample_environment cfg) \<and>
   (\<nexists>cfg. requested (sample_decoders\<lparr>dc_config := (\<lambda>_ cfg. Some (cfg\<lparr>pc_MaxEntries := 0\<rparr>))\<rparr>) ''zero'' cfg \<and> usable sample_environment cfg)"
proof
  obtain old rt' where "configure sample_environment sample_decoders ''warm'' sample_boot = (Inr old, rt')"
  proof -
    have "isl (fst (configure sample_environment sample_decoders ''warm'' sample_boot)) = False" by code_simp
    with that show thesis
      by (cases "configure sample_environment sample_decoders ''warm'' sample_boot"; cases "fst (configure sample_environment sample_decoders ''warm'' sample_boot)") auto
  qed
  with configuration_is_atomic [where ab = sample_abi and name = "''register''" and env = sample_environment
      and dc = sample_decoders and raw = "''warm''" and rt = sample_boot and mo = sample_moment]
  show "\<exists>cfg. requested sample_decoders ''warm'' cfg \<and> usable sample_environment cfg"
    by (auto simp: sample_abi_def)
  let ?dc = "sample_decoders\<lparr>dc_config := (\<lambda>_ cfg. Some (cfg\<lparr>pc_MaxEntries := 0\<rparr>))\<rparr>"
  have "configure sample_environment ?dc ''zero'' sample_boot =
      (Inl ''max_entries and max_pending_entries must be greater than zero'', sample_boot)"
    by (simp add: configure_def sample_boot_def sample_decoders_def)
  with configuration_is_atomic [where ab = sample_abi and name = "''register''" and env = sample_environment
      and dc = ?dc and raw = "''zero''" and rt = sample_boot and mo = sample_moment]
  show "\<nexists>cfg. requested ?dc ''zero'' cfg \<and> usable sample_environment cfg"
    by (auto simp: sample_abi_def sample_boot_def)
qed

end
