(* ===== verification/Callback_Gate.thy ===== *)
theory Callback_Gate
  imports Prelude
begin

text \<open>
  The gate around host callbacks, \<open>callHost\<close>, \<open>cliproxy_plugin_init\<close> and
  \<open>cliproxyPluginShutdown\<close> of \<open>cmd/plugin/main.go\<close>, at the granularity of the read-write lock.
  Callbacks run on many goroutines. Each takes the read side, checks the flag, calls through the
  stored host pointer and leaves; init and shutdown take the write side to change flag and
  pointer. As Go's \<open>RWMutex\<close> does, a waiting writer keeps new readers out, and it gets the
  lock when the last reader has left. \<open>lifecycleMu\<close> admits one writer at a time.

  \<open>gt_entered\<close> counts the callbacks that hold the read side and have not looked at the flag,
  \<open>gt_native\<close> those that are inside the native call.
\<close>

datatype write_job = Open_with bool | Shut

datatype writer = NoWriter | Waiting write_job | Holding write_job

record gate =
  gt_entered :: nat
  gt_native :: nat
  gt_writer :: writer
  gt_flag :: bool
  gt_pointer :: bool

definition gate_start :: gate where
  "gate_start = \<lparr>gt_entered = 0, gt_native = 0, gt_writer = NoWriter, gt_flag = False, gt_pointer = False\<rparr>"

text \<open>The write side: store the pointer and the flag, or clear both.\<close>

definition gate_write :: "write_job \<Rightarrow> gate \<Rightarrow> gate" where
  "gate_write j g =
     (case j of
        Open_with has_host \<Rightarrow> g\<lparr>gt_pointer := has_host, gt_flag := has_host, gt_writer := NoWriter\<rparr>
      | Shut \<Rightarrow> g\<lparr>gt_flag := False, gt_pointer := False, gt_writer := NoWriter\<rparr>)"

inductive gate_step :: "gate \<Rightarrow> gate \<Rightarrow> bool" where
  gate_enter: "gt_writer g = NoWriter \<Longrightarrow> gate_step g (g\<lparr>gt_entered := gt_entered g + 1\<rparr>)"
| gate_refuse: "0 < gt_entered g \<Longrightarrow> \<not> gt_flag g \<Longrightarrow> gate_step g (g\<lparr>gt_entered := gt_entered g - 1\<rparr>)"
| gate_call: "0 < gt_entered g \<Longrightarrow> gt_flag g \<Longrightarrow>
    gate_step g (g\<lparr>gt_entered := gt_entered g - 1, gt_native := gt_native g + 1\<rparr>)"
| gate_leave: "0 < gt_native g \<Longrightarrow> gate_step g (g\<lparr>gt_native := gt_native g - 1\<rparr>)"
| gate_want: "gt_writer g = NoWriter \<Longrightarrow> gate_step g (g\<lparr>gt_writer := Waiting j\<rparr>)"
| gate_take: "gt_writer g = Waiting j \<Longrightarrow> gt_entered g = 0 \<Longrightarrow> gt_native g = 0 \<Longrightarrow>
    gate_step g (g\<lparr>gt_writer := Holding j\<rparr>)"
| gate_done: "gt_writer g = Holding j \<Longrightarrow> gate_step g (gate_write j g)"

inductive_cases gate_stepE: "gate_step g g'"

definition gate_inv :: "gate \<Rightarrow> bool" where
  "gate_inv g \<longleftrightarrow> (0 < gt_native g \<longrightarrow> gt_flag g) \<and> (gt_flag g \<longrightarrow> gt_pointer g) \<and>
     (\<forall>j. gt_writer g = Holding j \<longrightarrow> gt_entered g = 0 \<and> gt_native g = 0)"

interpretation gate: invariant_of "\<lambda>g. g = gate_start" gate_step gate_inv
proof
  fix g assume "g = gate_start"
  then show "gate_inv g" by (simp add: gate_inv_def gate_start_def)
next
  fix g g' assume inv: "gate_inv g" and "gate_step g g'"
  from this(2) show "gate_inv g'"
    using inv by cases (auto simp: gate_inv_def gate_write_def split: write_job.splits)
qed

text \<open>How many steps the callbacks in flight and a waiting writer still need.\<close>

fun writer_steps :: "writer \<Rightarrow> nat" where
  "writer_steps NoWriter = 0"
| "writer_steps (Holding j) = 1"
| "writer_steps (Waiting j) = 2"

definition gate_pending :: "gate \<Rightarrow> nat" where
  "gate_pending g = 2 * gt_entered g + gt_native g + writer_steps (gt_writer g)"

lemma waiting_decreases:
  "gate_step g g' \<Longrightarrow> gt_writer g \<noteq> NoWriter \<Longrightarrow> gate_pending g' < gate_pending g"
  by (erule gate_stepE) (auto simp: gate_pending_def gate_write_def split: write_job.splits)

lemma waiting_progress: "gt_writer g \<noteq> NoWriter \<Longrightarrow> \<exists>g'. gate_step g g'"
  by (cases "gt_writer g") (metis gate_refuse gate_call gate_leave gate_take gate_done not_gr0)+

inductive gate_steps :: "gate \<Rightarrow> nat \<Rightarrow> gate \<Rightarrow> bool" where
  gate_steps_0: "gate_steps g 0 g"
| gate_steps_Suc: "gt_writer g \<noteq> NoWriter \<Longrightarrow> gate_step g g' \<Longrightarrow> gate_steps g' n g'' \<Longrightarrow> gate_steps g (Suc n) g''"

lemma gate_steps_bound: "gate_steps g n g' \<Longrightarrow> n + gate_pending g' \<le> gate_pending g"
  by (induction rule: gate_steps.induct) (use waiting_decreases in fastforce)+

text \<open>
  C21. In every reachable state, a callback is inside the host only while the flag is up and the
  host's pointer is stored, and a writer holds the gate only when no callback is in flight. So
  when a shutdown lets go of the gate, no callback is inside the host, and none can get in
  until an init opens the gate again.
\<close>

theorem callbacks_are_drained:
  assumes "reach (\<lambda>g. g = gate_start) gate_step g"
  shows "(0 < gt_native g \<longrightarrow> gt_flag g \<and> gt_pointer g) \<and>
    (gt_writer g = Holding Shut \<longrightarrow> (\<forall>g'. gate_step g g' \<longrightarrow>
       gt_native g' = 0 \<and> gt_entered g' = 0 \<and> \<not> gt_flag g' \<and> \<not> gt_pointer g')) \<and>
    (\<not> gt_flag g \<longrightarrow> (\<forall>g'. gate_step g g' \<longrightarrow> gt_native g' = 0 \<and>
       (gt_flag g' \<longrightarrow> gt_writer g = Holding (Open_with True))))"
proof -
  have inv: "gate_inv g" using assms by (rule gate.inv_reach)
  have after_shut: "gt_native g' = 0 \<and> gt_entered g' = 0 \<and> \<not> gt_flag g' \<and> \<not> gt_pointer g'"
    if "gt_writer g = Holding Shut" "gate_step g g'" for g'
    using that(2,1) inv by cases (auto simp: gate_inv_def gate_write_def)
  have closed: "gt_native g' = 0 \<and> (gt_flag g' \<longrightarrow> gt_writer g = Holding (Open_with True))"
    if "\<not> gt_flag g" "gate_step g g'" for g'
  proof -
    have "gt_native g = 0" using inv that(1) by (simp add: gate_inv_def)
    with that(2,1) show ?thesis
    proof cases
      case (gate_done j)
      with that(1) \<open>gt_native g = 0\<close> show ?thesis by (cases j) (simp_all add: gate_write_def)
    qed simp_all
  qed
  have "0 < gt_native g \<longrightarrow> gt_flag g \<and> gt_pointer g" using inv unfolding gate_inv_def by blast
  moreover have "gt_writer g = Holding Shut \<longrightarrow> (\<forall>g'. gate_step g g' \<longrightarrow>
       gt_native g' = 0 \<and> gt_entered g' = 0 \<and> \<not> gt_flag g' \<and> \<not> gt_pointer g')"
    using after_shut by blast
  moreover have "\<not> gt_flag g \<longrightarrow> (\<forall>g'. gate_step g g' \<longrightarrow> gt_native g' = 0 \<and>
       (gt_flag g' \<longrightarrow> gt_writer g = Holding (Open_with True)))"
    using closed by blast
  ultimately show ?thesis by blast
qed

theorem callbacks_are_drained_witness:
  "\<exists>g. reach (\<lambda>g. g = gate_start) gate_step g \<and> gt_native g = 1 \<and> gt_writer g = Waiting Shut \<and> gt_pointer g"
proof -
  let ?g0 = "\<lparr>gt_entered = 0, gt_native = 0, gt_writer = NoWriter, gt_flag = False, gt_pointer = False\<rparr>"
  let ?g1 = "?g0\<lparr>gt_writer := Waiting (Open_with True)\<rparr>" and ?g2 = "?g0\<lparr>gt_writer := Holding (Open_with True)\<rparr>"
  let ?g3 = "?g0\<lparr>gt_flag := True, gt_pointer := True\<rparr>"
  let ?g4 = "?g3\<lparr>gt_entered := 1\<rparr>" and ?g5 = "?g3\<lparr>gt_native := 1\<rparr>" and ?g6 = "?g3\<lparr>gt_native := 1, gt_writer := Waiting Shut\<rparr>"
  have steps: "gate_step ?g0 ?g1" "gate_step ?g1 ?g2" "gate_step ?g2 ?g3" "gate_step ?g3 ?g4" "gate_step ?g4 ?g5" "gate_step ?g5 ?g6"
    using gate_want [of ?g0 "Open_with True"] gate_take [of ?g1 "Open_with True"] gate_done [of ?g2 "Open_with True"]
      gate_enter [of ?g3] gate_call [of ?g4] gate_want [of ?g5 Shut]
    by (simp_all add: gate_write_def)
  have "reach (\<lambda>g. g = gate_start) gate_step ?g0" by (rule reach_init) (simp add: gate_start_def)
  from this steps have r: "reach (\<lambda>g. g = gate_start) gate_step ?g6" by (meson reach_step)
  from callbacks_are_drained [OF r] have "gt_pointer ?g6" by simp
  with r show ?thesis by (intro exI [of _ ?g6]) simp
qed

text \<open>
  A shutdown or init that waits for the gate gets it and finishes. While it waits there is
  always a step to take, every run of steps ends within a number given by the callbacks in
  flight (two for each that entered, one for each inside the host, two for the writer), and a
  run that cannot go on has released the gate.
\<close>

theorem waiting_writer_finishes:
  assumes "gt_writer g \<noteq> NoWriter" and "gate_steps g n g'"
  shows "n \<le> 2 * gt_entered g + gt_native g + 2 \<and> ((\<nexists>g''. gate_steps g' 1 g'') \<longrightarrow> gt_writer g' = NoWriter)"
proof -
  have "writer_steps (gt_writer g) \<le> 2" by (cases "gt_writer g") simp_all
  then have "n \<le> 2 * gt_entered g + gt_native g + 2"
    using gate_steps_bound [OF assms(2)] by (simp add: gate_pending_def)
  moreover have "gt_writer g' = NoWriter" if "\<nexists>g''. gate_steps g' 1 g''"
  proof (rule ccontr)
    assume w: "gt_writer g' \<noteq> NoWriter"
    with waiting_progress obtain g'' where "gate_step g' g''" by blast
    with w have "gate_steps g' (Suc 0) g''" by (rule gate_steps_Suc) (rule gate_steps_0)
    with that show False by simp
  qed
  ultimately show ?thesis by blast
qed

theorem waiting_writer_finishes_witness:
  "let g = \<lparr>gt_entered = 1, gt_native = 0, gt_writer = Waiting Shut, gt_flag = False, gt_pointer = False\<rparr>
   in \<exists>g'. gate_steps g 1 g' \<and> (1::nat) \<le> 2 * gt_entered g + gt_native g + 2"
proof -
  let ?g = "\<lparr>gt_entered = 1, gt_native = 0, gt_writer = Waiting Shut, gt_flag = False, gt_pointer = False\<rparr>"
  let ?g' = "?g\<lparr>gt_entered := 0\<rparr>"
  have "gate_step ?g ?g'" using gate_refuse [of ?g] by simp
  moreover have w: "gt_writer ?g \<noteq> NoWriter" by simp
  ultimately have "gate_steps ?g (Suc 0) ?g'" using gate_steps_Suc gate_steps_0 by blast
  from this waiting_writer_finishes [OF w this] show ?thesis by (auto simp: Let_def)
qed

end
