(* ===== verification/Json_Roundtrip.thy ===== *)
theory Json_Roundtrip
  imports Marshal
begin

text \<open>
  What the encoder of the theory Marshal writes, the automaton of the theory Json reads back:
  strings by the lemma on \<open>unquote\<close>, values by induction. \<open>canonical\<close> is the value with the keys of
  every object in order; \<open>object_text\<close> is an object whose fields keep the order they are
  given in, as Go writes a struct.
\<close>

section \<open>Scanning a string\<close>

text \<open>Reading \<open>s\<close> inside a string literal only collects it.\<close>

definition collects :: "string \<Rightarrow> bool" where
  "collects s \<longleftrightarrow> (\<forall>key acc j. foldl js_step (js_goto (MStr key acc) j) s = js_goto (MStr key (rev s @ acc)) j)"

lemma collectsD: "collects s \<Longrightarrow> foldl js_step (js_goto (MStr key acc) j) s = js_goto (MStr key (rev s @ acc)) j"
  by (simp add: collects_def)

lemma js_goto_simps [simp]:
  "js_mode (js_goto m j) = m" "js_stack (js_goto m j) = js_stack j" "js_goto m (js_goto m' j) = js_goto m j"
  by (simp_all add: js_goto_def)

lemma collects_Nil [simp]: "collects []"
  by (simp add: collects_def)

lemma collects_append: "collects s \<Longrightarrow> collects t \<Longrightarrow> collects (s @ t)"
  by (simp add: collects_def)

lemma collects_plain: "list_all (\<lambda>c. c \<noteq> CHR 0x22 \<and> c \<noteq> CHR 0x5C \<and> 32 \<le> byte c) s \<Longrightarrow> collects s"
proof (induction s)
  case (Cons c s)
  then have "collects [c]" by (simp add: collects_def js_step_def)
  from collects_append [OF this] Cons show ?case by simp
qed simp

lemma collects_short: "d \<in> set ''bfnrt/'' \<or> d = CHR 0x5C \<or> d = CHR 0x22 \<Longrightarrow> collects [CHR 0x5C, d]"
  by (auto simp: collects_def js_step_def)

lemma collects_unicode:
  "is_hex a \<Longrightarrow> is_hex b \<Longrightarrow> is_hex c \<Longrightarrow> is_hex d \<Longrightarrow> collects [CHR 0x5C, CHR ''u'', a, b, c, d]"
  by (simp add: collects_def js_step_def)

lemma is_hex_hexdigit: "n < 16 \<Longrightarrow> is_hex (hexdigit n)"
  by (simp add: is_hex_def is_digit_def byte_hexdigit)

lemma collects_escape_byte: "collects (escape_byte c)"
proof -
  have hex: "is_hex (CHR ''0'')" "is_hex (hexdigit (byte c div 16))" "is_hex (hexdigit (byte c mod 16))"
    using byte_bound [of c] by (simp_all add: is_hex_hexdigit) (simp add: is_hex_def is_digit_def byte_def)
  have quoted: "c = CHR 0x5C \<or> c = CHR 0x22 \<Longrightarrow> collects [CHR 0x5C, c]"
    by (rule collects_short) blast
  have short: "collects [CHR 0x5C, CHR ''b'']" "collects [CHR 0x5C, CHR ''f'']" "collects [CHR 0x5C, CHR ''n'']"
    "collects [CHR 0x5C, CHR ''r'']" "collects [CHR 0x5C, CHR ''t'']"
    by (rule collects_short, simp)+
  have plain: "\<not> (c = CHR 0x5C \<or> c = CHR 0x22) \<Longrightarrow> \<not> byte c < 32 \<Longrightarrow> collects [c]"
    by (rule collects_plain) simp
  show ?thesis
    using quoted short plain collects_unicode [OF hex(1,1,2,3)]
    unfolding escape_byte_def by (cases "c = CHR 0x5C \<or> c = CHR 0x22"; cases "byte c < 32") presburger+
qed

lemma collects_escape_rune:
  assumes "128 \<le> byte c" and "utf8_len (c # cs) \<noteq> 0"
  shows "collects (escape_rune (take (utf8_len (c # cs)) (c # cs)))"
proof -
  have "c' \<noteq> CHR 0x22 \<and> c' \<noteq> CHR 0x5C \<and> 32 \<le> byte c'" if "128 \<le> byte c'" for c'
    using that by (auto simp: byte_def)
  then have "collects (take (utf8_len (c # cs)) (c # cs))"
    using utf8_rune_high [OF assms] by (intro collects_plain) (simp only: list_all_iff, blast)
  moreover have "collects (CHR 0x5C # ''u2028'')" "collects (CHR 0x5C # ''u2029'')"
    by (auto intro!: collects_unicode simp: is_hex_def is_digit_def byte_def)
  ultimately show ?thesis by (simp add: escape_rune_def del: take_Suc_Cons)
qed

lemma collects_json_escape: "collects (json_escape s)"
proof (induction s rule: json_escape.induct)
  case (2 c cs)
  have "collects (CHR 0x5C # ''ufffd'')"
    by (rule collects_unicode) (simp_all add: is_hex_def is_digit_def byte_def)
  from collects_append [OF this] collects_append [OF collects_escape_byte [of c]]
    collects_append [OF collects_escape_rune [of c cs]] 2
  show ?case by simp
qed simp

section \<open>Values\<close>

text \<open>Values of the kind the program writes: text in UTF-8, no numbers.\<close>

fun textual :: "json \<Rightarrow> bool" where
  "textual JNull = True"
| "textual (JBool b) = True"
| "textual (JNum s) = False"
| "textual (JStr s) = valid_utf8 s"
| "textual (JArr vs) = list_all textual vs"
| "textual (JObj fs) = list_all (\<lambda>kv. valid_utf8 (fst kv) \<and> textual (snd kv)) fs"

fun nesting :: "json \<Rightarrow> nat" where
  "nesting (JArr vs) = Suc (Max (insert 0 (set (map nesting vs))))"
| "nesting (JObj fs) = Suc (Max (insert 0 (set (map (\<lambda>kv. nesting (snd kv)) fs))))"
| "nesting v = 0"

fun canonical :: "json \<Rightarrow> json" where
  "canonical (JArr vs) = JArr (map canonical vs)"
| "canonical (JObj fs) = JObj (sort_key fst (map (\<lambda>kv. (fst kv, canonical (snd kv))) fs))"
| "canonical v = v"

text \<open>The automaton can take a value: it expects one, and no object waits for a key.\<close>

definition expects :: "jstate \<Rightarrow> bool" where
  "expects j \<longleftrightarrow> js_mode j \<in> {MValue, MFirstElem} \<and> (\<forall>fs st. js_stack j \<noteq> FObj fs None # st)"

text \<open>\<open>reads s v d\<close>: from every such state with room for \<open>d\<close> levels, \<open>s\<close> is read as \<open>v\<close>.\<close>

definition reads :: "string \<Rightarrow> json \<Rightarrow> nat \<Rightarrow> bool" where
  "reads s v d \<longleftrightarrow> (\<forall>j. expects j \<longrightarrow> int (length (js_stack j) + d) \<le> max_nesting \<longrightarrow> foldl js_step j s = js_value v j)"

lemma readsD:
  "reads s v d \<Longrightarrow> expects j \<Longrightarrow> int (length (js_stack j) + d) \<le> max_nesting \<Longrightarrow> foldl js_step j s = js_value v j"
  by (simp add: reads_def)

lemma js_value_goto [simp]: "expects j \<Longrightarrow> js_value v (js_goto m j) = js_value v j"
  by (auto simp: js_value_def js_goto_def expects_def split: list.splits frame.splits option.splits)

lemma step_begin: "expects j \<Longrightarrow> c \<noteq> CHR '']'' \<Longrightarrow> \<not> json_space c \<Longrightarrow> js_step j c = js_begin c j"
  by (auto simp: expects_def js_step_def)

lemma json_space_simps [simp]:
  "json_space CHR 0x20" "json_space CHR 0x09" "json_space CHR 0x0D" "json_space CHR 0x0A"
  by (simp_all add: json_space_def)

lemma step_lit:
  "js_step (js_goto (MLit s v) j) c =
     (if take 1 s = [c] then (if length s \<le> 1 then js_value v (js_goto (MLit s v) j) else js_goto (MLit (tl s) v) j)
      else js_fail (js_goto (MLit s v) j))"
  by (simp add: js_step_def)

lemma begin_lit:
  "js_begin CHR ''n'' j = js_goto (MLit ''ull'' JNull) j"
  "js_begin CHR ''t'' j = js_goto (MLit ''rue'' (JBool True)) j"
  "js_begin CHR ''f'' j = js_goto (MLit ''alse'' (JBool False)) j"
  by (simp_all add: js_begin_def json_space_def is_digit_def byte_def)

lemma step_begin_lit:
  assumes "expects j"
  shows "js_step j CHR ''n'' = js_goto (MLit ''ull'' JNull) j"
    "js_step j CHR ''t'' = js_goto (MLit ''rue'' (JBool True)) j"
    "js_step j CHR ''f'' = js_goto (MLit ''alse'' (JBool False)) j"
  by (simp_all add: step_begin [OF assms] begin_lit json_space_def)

lemma reads_null: "reads ''null'' JNull d"
  by (simp add: reads_def step_begin_lit step_lit)

lemma reads_bool: "reads (if b then ''true'' else ''false'') (JBool b) d"
  by (cases b) (simp_all add: reads_def step_begin_lit step_lit)

lemma step_quote: "js_step (js_goto (MStr key acc) j) CHR 0x22 = js_string_end key acc (js_goto (MStr key acc) j)"
  by (simp add: js_step_def)

lemma reads_string: "valid_utf8 s \<Longrightarrow> reads (json_quote s) (JStr s) d"
proof -
  assume valid: "valid_utf8 s"
  have "foldl js_step j (json_quote s) = js_value (JStr s) j" if "expects j" for j
  proof -
    have "foldl js_step j (json_quote s) = js_step (foldl js_step (js_step j CHR 0x22) (json_escape s)) CHR 0x22"
      by (simp add: json_quote_def)
    also have "js_step j CHR 0x22 = js_goto (MStr False []) j"
      using that by (simp add: step_begin js_begin_def json_space_def)
    also have "js_step (foldl js_step \<dots> (json_escape s)) CHR 0x22 = js_value (JStr s) j"
      using that valid
      by (simp add: collectsD [OF collects_json_escape] step_quote js_string_end_def unquote_json_escape)
    finally show ?thesis .
  qed
  then show ?thesis by (simp add: reads_def)
qed

section \<open>Arrays and objects\<close>

lemma commas_snoc: "commas (ss @ [s]) = (if ss = [] then s else commas ss @ '','' @ s)"
  by (induction ss rule: commas.induct) simp_all

lemma reads_elements:
  assumes "list_all2 (\<lambda>s v. reads s v d) ss vs" and "ss \<noteq> []"
    and "js_mode j \<in> {MValue, MFirstElem}" and "js_stack j = FArr acc # st" and "int (length (js_stack j) + d) \<le> max_nesting"
  shows "foldl js_step j (commas ss) = j\<lparr>js_mode := MAfter, js_stack := FArr (rev vs @ acc) # st\<rparr>"
  using assms
proof (induction ss arbitrary: vs j acc rule: commas.induct)
  case (2 s)
  then obtain v where v: "vs = [v]" "reads s v d" by (auto simp: list_all2_Cons1)
  have "foldl js_step j s = js_value v j" by (rule readsD [OF v(2)]) (use 2 in \<open>simp_all add: expects_def\<close>)
  with 2 v show ?case by (simp add: js_value_def)
next
  case (3 s t ss)
  then obtain v ws where v: "vs = v # ws" "reads s v d" "list_all2 (\<lambda>s v. reads s v d) (t # ss) ws"
    by (auto simp: list_all2_Cons1)
  let ?j = "j\<lparr>js_mode := MValue, js_stack := FArr (v # acc) # st\<rparr>"
  have "foldl js_step j s = js_value v j" by (rule readsD [OF v(2)]) (use 3 in \<open>simp_all add: expects_def\<close>)
  with 3 have first: "js_step (foldl js_step j s) CHR '','' = ?j"
    by (simp add: js_value_def js_step_def js_after_def json_space_def js_goto_def)
  have "foldl js_step ?j (commas (t # ss)) = ?j\<lparr>js_mode := MAfter, js_stack := FArr (rev ws @ v # acc) # st\<rparr>"
    by (rule 3(1) [OF v(3)]) (use 3 in simp_all)
  with first v(1) show ?case by simp
qed simp

lemma reads_array:
  assumes "list_all2 (\<lambda>s v. reads s v d) ss vs"
  shows "reads (''['' @ commas ss @ '']'') (JArr vs) (Suc d)"
proof -
  have "foldl js_step j (''['' @ commas ss @ '']'') = js_value (JArr vs) j"
    if j: "expects j" "int (length (js_stack j) + Suc d) \<le> max_nesting" for j
  proof -
    let ?j = "j\<lparr>js_stack := FArr [] # js_stack j, js_mode := MFirstElem\<rparr>"
    have start: "js_step j CHR ''['' = ?j"
      using j by (simp add: step_begin js_begin_def json_space_def js_push_def)
    have restore: "js_value (JArr vs) (j\<lparr>js_mode := m\<rparr>) = js_value (JArr vs) j" for m
      using js_value_goto [OF j(1)] by (simp add: js_goto_def)
    show ?thesis
    proof (cases "ss = []")
      case True
      with assms start restore [of MFirstElem] show ?thesis by (simp add: js_step_def js_close_def)
    next
      case False
      have "foldl js_step ?j (commas ss) = ?j\<lparr>js_mode := MAfter, js_stack := FArr (rev vs) # js_stack j\<rparr>"
        using reads_elements [OF assms False, of ?j "[]" "js_stack j"] j(2) by simp
      with start restore [of MAfter] show ?thesis
        by (simp add: js_step_def js_after_def json_space_def js_close_def)
    qed
  qed
  then show ?thesis by (simp add: reads_def)
qed

definition field_text :: "string \<Rightarrow> string \<Rightarrow> string" where
  "field_text k s = json_quote k @ '':'' @ s"

definition object_text :: "(string \<times> string) list \<Rightarrow> string" where
  "object_text fs = ''{'' @ commas (map (\<lambda>(k, s). field_text k s) fs) @ ''}''"

lemma reads_field:
  assumes "valid_utf8 k" and "reads s v d" and "js_mode j \<in> {MFirstKey, MKey}" and "js_stack j = FObj acc None # st"
    and "int (length (js_stack j) + d) \<le> max_nesting"
  shows "foldl js_step j (field_text k s) = j\<lparr>js_mode := MAfter, js_stack := FObj ((k, v) # acc) None # st\<rparr>"
proof -
  let ?j = "j\<lparr>js_mode := MValue, js_stack := FObj acc (Some k) # st\<rparr>"
  have "foldl js_step j (field_text k s) =
      foldl js_step (js_step (js_step (foldl js_step (js_step j CHR 0x22) (json_escape k)) CHR 0x22) CHR '':'') s"
    by (simp add: field_text_def json_quote_def)
  also have "js_step j CHR 0x22 = js_goto (MStr True []) j"
    using assms(3) by (auto simp: js_step_def json_space_def)
  also have "js_step (js_step (foldl js_step \<dots> (json_escape k)) CHR 0x22) CHR '':'' = ?j"
    using assms(1,4)
    by (simp add: collectsD [OF collects_json_escape] step_quote js_string_end_def unquote_json_escape)
      (simp add: js_step_def js_goto_def json_space_def)
  also have "foldl js_step ?j s = js_value v ?j"
    by (rule readsD [OF assms(2)]) (use assms(4,5) in \<open>simp_all add: expects_def\<close>)
  finally show ?thesis by (simp add: js_value_def)
qed

definition reads_fields :: "nat \<Rightarrow> (string \<times> string) list \<Rightarrow> (string \<times> json) list \<Rightarrow> bool" where
  "reads_fields d fs vs \<longleftrightarrow> list_all2 (\<lambda>f v. fst f = fst v \<and> valid_utf8 (fst f) \<and> reads (snd f) (snd v) d) fs vs"

lemma reads_members:
  assumes "reads_fields d fs vs" and "fs \<noteq> []"
    and "js_mode j \<in> {MFirstKey, MKey}" and "js_stack j = FObj acc None # st" and "int (length (js_stack j) + d) \<le> max_nesting"
  shows "foldl js_step j (commas (map (\<lambda>(k, s). field_text k s) fs)) =
    j\<lparr>js_mode := MAfter, js_stack := FObj (rev vs @ acc) None # st\<rparr>"
  using assms
proof (induction fs arbitrary: vs j acc)
  case (Cons f fs)
  obtain k s where f: "f = (k, s)" by (cases f)
  with Cons.prems(1) obtain v ws where v: "vs = (k, v) # ws" "valid_utf8 k" "reads s v d" "reads_fields d fs ws"
    by (auto simp: reads_fields_def list_all2_Cons1)
  have field: "foldl js_step j (field_text k s) = j\<lparr>js_mode := MAfter, js_stack := FObj ((k, v) # acc) None # st\<rparr>"
    by (rule reads_field [OF v(2,3)]) (use Cons.prems in simp_all)
  show ?case
  proof (cases "fs = []")
    case True
    with v(4) have "ws = []" by (simp add: reads_fields_def)
    with True f v(1) field show ?thesis by simp
  next
    case False
    let ?j = "j\<lparr>js_mode := MKey, js_stack := FObj ((k, v) # acc) None # st\<rparr>"
    have "js_step (j\<lparr>js_mode := MAfter, js_stack := FObj ((k, v) # acc) None # st\<rparr>) CHR '','' = ?j"
      by (simp add: js_step_def js_after_def json_space_def js_goto_def)
    moreover have "foldl js_step ?j (commas (map (\<lambda>(k, s). field_text k s) fs)) =
        ?j\<lparr>js_mode := MAfter, js_stack := FObj (rev ws @ (k, v) # acc) None # st\<rparr>"
      by (rule Cons.IH [OF v(4) False]) (use Cons.prems in simp_all)
    moreover have "commas (map (\<lambda>(k, s). field_text k s) (f # fs)) =
        field_text k s @ '','' @ commas (map (\<lambda>(k, s). field_text k s) fs)"
      using False f by (cases fs) simp_all
    ultimately show ?thesis using field v(1) by simp
  qed
qed simp

lemma reads_object:
  assumes "reads_fields d fs vs"
  shows "reads (object_text fs) (JObj vs) (Suc d)"
proof -
  have "foldl js_step j (object_text fs) = js_value (JObj vs) j"
    if j: "expects j" "int (length (js_stack j) + Suc d) \<le> max_nesting" for j
  proof -
    let ?j = "j\<lparr>js_stack := FObj [] None # js_stack j, js_mode := MFirstKey\<rparr>"
    have start: "js_step j CHR ''{'' = ?j"
      using j by (simp add: step_begin js_begin_def json_space_def js_push_def)
    have restore: "js_value (JObj vs) (j\<lparr>js_mode := m\<rparr>) = js_value (JObj vs) j" for m
      using js_value_goto [OF j(1)] by (simp add: js_goto_def)
    show ?thesis
    proof (cases "fs = []")
      case True
      with assms start restore [of MFirstKey] show ?thesis
        by (simp add: object_text_def reads_fields_def js_step_def js_close_def json_space_def)
    next
      case False
      have "foldl js_step ?j (commas (map (\<lambda>(k, s). field_text k s) fs)) =
          ?j\<lparr>js_mode := MAfter, js_stack := FObj (rev vs) None # js_stack j\<rparr>"
        using reads_members [OF assms False, of ?j "[]" "js_stack j"] j(2) by simp
      with start restore [of MAfter] show ?thesis
        by (simp add: object_text_def js_step_def js_after_def json_space_def js_close_def)
    qed
  qed
  then show ?thesis by (simp add: reads_def)
qed

lemma json_parse_reads:
  assumes "reads s v d" and "int d \<le> max_nesting"
  shows "json_parse s = Some v"
proof -
  let ?j = "\<lparr>js_mode = MValue, js_stack = [], js_top = None\<rparr>"
  have "foldl js_step ?j s = js_value v ?j"
    by (rule readsD [OF assms(1)]) (use assms(2) in \<open>simp_all add: expects_def\<close>)
  then show ?thesis by (simp add: json_parse_def js_value_def)
qed

section \<open>What the encoder writes\<close>

lemma reads_mono: "reads s v d \<Longrightarrow> d \<le> d' \<Longrightarrow> reads s v d'"
  by (auto simp: reads_def)

lemma sort_key_map_fst:
  assumes "\<And>x. fst (g x) = fst x"
  shows "sort_key fst (map g xs) = map g (sort_key fst xs)"
proof -
  have "insort_key fst (g x) (map g xs) = map g (insort_key fst x xs)" for x xs
    by (induction xs) (simp_all add: assms)
  then show ?thesis by (induction xs) simp_all
qed

lemma marshal_object: "marshal (JObj fs) = object_text (map (\<lambda>kv. (fst kv, marshal (snd kv))) (sort_key fst fs))"
proof -
  have "sort_key fst (map (\<lambda>kv. (fst kv, json_quote (fst kv) @ '':'' @ marshal (snd kv))) fs) =
      map (\<lambda>kv. (fst kv, json_quote (fst kv) @ '':'' @ marshal (snd kv))) (sort_key fst fs)"
    by (rule sort_key_map_fst) simp
  then show ?thesis by (simp add: object_text_def field_text_def comp_def split_def)
qed

lemma nesting_array: "v \<in> set vs \<Longrightarrow> nesting v < nesting (JArr vs)"
  by (simp add: le_imp_less_Suc)

lemma nesting_object: "kv \<in> set fs \<Longrightarrow> nesting (snd kv) < nesting (JObj fs)"
  by (simp add: le_imp_less_Suc)

lemma reads_marshal: "textual v \<Longrightarrow> reads (marshal v) (canonical v) (nesting v)"
proof (induction v)
  case (JArr vs)
  obtain d where d: "nesting (JArr vs) = Suc d" by simp
  have "reads (marshal v) (canonical v) d" if "v \<in> set vs" for v
    using JArr.IH [OF that] JArr.prems that nesting_array [OF that] d reads_mono [of "marshal v" "canonical v" "nesting v" d]
    by (simp add: list_all_iff)
  then have "list_all2 (\<lambda>s v. reads s v d) (map marshal vs) (map canonical vs)"
    by (simp add: list_all2_map1 list_all2_map2 list_all2_same)
  from reads_array [OF this] d show ?case by simp
next
  case (JObj fs)
  obtain d where d: "nesting (JObj fs) = Suc d" by simp
  have "reads (marshal (snd kv)) (canonical (snd kv)) d" if "kv \<in> set fs" for kv
  proof -
    have "reads (marshal (snd kv)) (canonical (snd kv)) (nesting (snd kv))"
      using JObj.IH [OF that, of "snd kv"] JObj.prems that by (cases kv) (auto simp: list_all_iff)
    with nesting_object [OF that] d show ?thesis by (auto intro: reads_mono)
  qed
  moreover have "valid_utf8 (fst kv)" if "kv \<in> set fs" for kv
    using JObj.prems that by (auto simp: list_all_iff)
  ultimately have "reads_fields d (map (\<lambda>kv. (fst kv, marshal (snd kv))) (sort_key fst fs))
      (map (\<lambda>kv. (fst kv, canonical (snd kv))) (sort_key fst fs))"
    by (simp add: reads_fields_def list_all2_map1 list_all2_map2 list_all2_same)
  moreover have "canonical (JObj fs) = JObj (map (\<lambda>kv. (fst kv, canonical (snd kv))) (sort_key fst fs))"
    by (simp add: sort_key_map_fst)
  ultimately show ?case
    unfolding marshal_object d by (simp only: reads_object)
qed (simp_all add: reads_null reads_bool reads_string del: if_split)

text \<open>
  A textual value that is written is read back, with the keys of its objects in order.
\<close>

lemma json_parse_marshal:
  assumes "textual v" and "int (nesting v) \<le> max_nesting"
  shows "json_parse (marshal v) = Some (canonical v)"
  using json_parse_reads [OF reads_marshal [OF assms(1)] assms(2)] .

end
