(* ===== verification/Host_Log.thy ===== *)
theory Host_Log
  imports Runtime Json_Roundtrip
begin

text \<open>
  What the plugin writes for others to read: the log lines it sends to the host
  (\<open>logTurnState\<close> in \<open>cmd/plugin/main.go\<close>; \<open>logResult\<close> in \<open>internal/prewarm/engine.go\<close>), and the body
  of a probe. Both are JSON documents made by \<open>json.Marshal\<close>. A context carries the id of the host's callback, or none;
  SHA-256 is an argument.
\<close>

section \<open>The line of a finished job\<close>

function itoa_loop :: "int \<Rightarrow> string \<Rightarrow> string" where
  "itoa_loop v out = (if 0 < v then itoa_loop (v div 10) (char_of (48 + nat (v mod 10)) # out) else out)"
  by pat_completeness auto
termination by (relation "measure (\<lambda>(v, out). nat v)") auto

declare itoa_loop.simps [simp del]

definition itoa :: "int \<Rightarrow> string" where
  "itoa v = (if v = 0 then ''0'' else itoa_loop v [])"

text \<open>The message and its model, or nothing when there is no log function or the engine is closed.\<close>

definition logResult ::
  "(string \<Rightarrow> 8 word list) \<Rightarrow> bool \<Rightarrow> string \<Rightarrow> Key \<Rightarrow> int \<Rightarrow> string \<Rightarrow> Engine \<Rightarrow> (string \<times> string) option" where
  "logResult sha256 has_log reason k proxyIndex failure e =
     (if \<not> has_log \<or> en_closed e then None
      else
        let account = hex_encode (take 4 (sha256 (key_AuthID k)));
            proxy = (if 0 \<le> proxyIndex then ''p'' @ itoa (proxyIndex + 1) else ''none'');
            msg = ''codex prewarm '' @ reason @ '' account='' @ account @ '' proxy='' @ proxy;
            msg = (if failure \<noteq> [] then msg @ '' failure='' @ failure else msg)
        in Some (msg, key_Model k))"

text \<open>What \<open>worker\<close> logs about a job: proxy and failure are read in the section that ends the job.\<close>

definition worker_log :: "(string \<Rightarrow> 8 word list) \<Rightarrow> bool \<Rightarrow> string \<Rightarrow> job \<Rightarrow> Engine \<Rightarrow> (string \<times> string) option" where
  "worker_log sha256 has_log reason j e =
     logResult sha256 has_log reason (jb_key j) (gm_get0 (- 1) (en_lastProxy e) (jb_key j))
       (gm_get0 [] (en_lastFailure e) (jb_key j)) e"

section \<open>The log request\<close>

definition pluginID :: string where "pluginID = ''codex-turn-state-cache''"

record hostLogFields =
  lf_PluginID :: string
  lf_Model :: string

record hostLogRequest =
  lq_HostCallbackID :: string
  lq_Level :: string
  lq_Message :: string
  lq_Fields :: hostLogFields

definition omitempty :: "string \<Rightarrow> string \<Rightarrow> (string \<times> string) list" where
  "omitempty k s = (if s = [] then [] else [(k, json_quote s)])"

definition log_text :: "hostLogRequest \<Rightarrow> string" where
  "log_text r = object_text
     (omitempty ''host_callback_id'' (lq_HostCallbackID r) @ omitempty ''level'' (lq_Level r) @
      omitempty ''message'' (lq_Message r) @
      [(''fields'', object_text [(''plugin_id'', json_quote (lf_PluginID (lq_Fields r))),
                               (''model'', json_quote (lf_Model (lq_Fields r)))])])"

type_synonym go_context = "string option"

definition contextWithHostCallbackID :: "string \<Rightarrow> go_context" where
  "contextWithHostCallbackID callbackID = Some callbackID"

definition hostCallbackID :: "go_context \<Rightarrow> string" where
  "hostCallbackID ctx = (case ctx of None \<Rightarrow> [] | Some callbackID \<Rightarrow> callbackID)"

definition log_payload :: "go_context \<Rightarrow> string \<Rightarrow> string \<Rightarrow> string" where
  "log_payload ctx message model =
     log_text \<lparr>lq_HostCallbackID = hostCallbackID ctx, lq_Level = ''info'', lq_Message = message,
       lq_Fields = \<lparr>lf_PluginID = pluginID, lf_Model = model\<rparr>\<rparr>"

text \<open>The native calls that a log line leads to; their replies are dropped.\<close>

definition logTurnState :: "string \<Rightarrow> go_context \<Rightarrow> string \<Rightarrow> string \<Rightarrow> Runtime \<Rightarrow> (string \<times> string) list" where
  "logTurnState host_log ctx message model rt =
     (if rt_open rt \<and> rt_host rt then [(host_log, log_payload ctx message model)] else [])"

section \<open>Reading it back\<close>

lemma reads_fields_append:
  "reads_fields d fs vs \<Longrightarrow> reads_fields d gs ws \<Longrightarrow> reads_fields d (fs @ gs) (vs @ ws)"
  by (simp add: reads_fields_def list_all2_appendI)

lemma reads_fields_Nil [simp]: "reads_fields d [] []"
  by (simp add: reads_fields_def)

lemma reads_fields_Cons [simp]:
  "reads_fields d ((k, s) # fs) ((k', v) # vs) \<longleftrightarrow> k = k' \<and> valid_utf8 k \<and> reads s v d \<and> reads_fields d fs vs"
  by (auto simp: reads_fields_def)

lemma reads_omitempty:
  "valid_utf8 k \<Longrightarrow> valid_utf8 s \<Longrightarrow> reads_fields d (omitempty k s) (if s = [] then [] else [(k, JStr s)])"
  by (simp add: omitempty_def reads_string)

lemma itoa_loop_decimal: "0 < v \<Longrightarrow> itoa_loop v out = decimal (nat v) @ out"
proof (induction v out rule: itoa_loop.induct)
  case (1 v out)
  show ?case
  proof (cases "v < 10")
    case True
    with 1(2) have "v div 10 = 0" "v mod 10 = v" "nat v < 10" by simp_all
    with 1(2) show ?thesis by (simp add: itoa_loop.simps [of v] itoa_loop.simps [of 0] decimal.simps [of "nat v"])
  next
    case False
    then have "0 < v div 10" "\<not> nat v < 10" "nat (v div 10) = nat v div 10" "nat (v mod 10) = nat v mod 10"
      by (simp_all add: nat_div_distrib nat_mod_distrib)
    with False 1 show ?thesis by (simp add: itoa_loop.simps [of v] decimal.simps [of "nat v"])
  qed
qed

lemma itoa_decimal: "0 \<le> v \<Longrightarrow> itoa v = decimal (nat v)"
proof -
  have "decimal 0 = ''0''" by code_simp
  then show "0 \<le> v \<Longrightarrow> itoa v = decimal (nat v)"
    by (cases "v = 0") (simp_all add: itoa_def itoa_loop_decimal)
qed

text \<open>The document of a log line.\<close>

definition log_document :: "string \<Rightarrow> string \<Rightarrow> string \<Rightarrow> json" where
  "log_document callbackID message model = JObj
     ((if callbackID = [] then [] else [(''host_callback_id'', JStr callbackID)]) @
      [(''level'', JStr ''info'')] @
      (if message = [] then [] else [(''message'', JStr message)]) @
      [(''fields'', JObj [(''plugin_id'', JStr pluginID), (''model'', JStr model)])])"

lemma ascii_names:
  "list_all valid_utf8 [''host_callback_id'', ''level'', ''info'', ''message'', ''fields'', ''plugin_id'', ''model'', pluginID]"
  by code_simp

lemma log_payload_parse:
  assumes "valid_utf8 (hostCallbackID ctx)" and "valid_utf8 message" and "valid_utf8 model"
  shows "json_parse (log_payload ctx message model) = Some (log_document (hostCallbackID ctx) message model)"
proof -
  have names: "valid_utf8 ''host_callback_id''" "valid_utf8 ''level''" "valid_utf8 ''info''" "valid_utf8 ''message''"
    "valid_utf8 ''fields''" "valid_utf8 ''plugin_id''" "valid_utf8 ''model''" "valid_utf8 pluginID"
    using ascii_names by (simp_all only: list.pred_inject)
  have fields: "reads (object_text [(''plugin_id'', json_quote pluginID), (''model'', json_quote model)])
      (JObj [(''plugin_id'', JStr pluginID), (''model'', JStr model)]) 1"
    using reads_object [of 0 "[(''plugin_id'', json_quote pluginID), (''model'', json_quote model)]"
        "[(''plugin_id'', JStr pluginID), (''model'', JStr model)]"] names assms(3)
    by (simp only: reads_fields_Cons reads_fields_Nil reads_string One_nat_def simp_thms)
  have "reads (log_payload ctx message model) (log_document (hostCallbackID ctx) message model) (Suc 1)"
    unfolding log_payload_def log_text_def log_document_def hostLogRequest.select_convs hostLogFields.select_convs
    using reads_omitempty [OF names(1) assms(1), of 1] reads_omitempty [OF names(2,3), of 1]
      reads_omitempty [OF names(4) assms(2), of 1] fields names(5)
    by (intro reads_object reads_fields_append) (simp_all only: reads_fields_Cons reads_fields_Nil list.simps simp_thms if_False)
  then show ?thesis by (rule json_parse_reads) (simp add: max_nesting_def)
qed

text \<open>
  C31. A log line cannot be forged from within. Whatever text a message, a model or a callback id
  holds, quotes, braces and line ends included, the host reads back exactly these three: two lines are
  the same bytes only if all three agree. (A message may quote a model name chosen upstream.)
\<close>

theorem log_line_roundtrip:
  assumes "list_all valid_utf8 [hostCallbackID ctx, message, model]"
  shows "json_parse (log_payload ctx message model) = Some (log_document (hostCallbackID ctx) message model) \<and>
    (list_all valid_utf8 [hostCallbackID ctx', message', model'] \<longrightarrow>
     log_payload ctx message model = log_payload ctx' message' model' \<longrightarrow>
     hostCallbackID ctx = hostCallbackID ctx' \<and> message = message' \<and> model = model')"
proof -
  have parse: "json_parse (log_payload ctx message model) = Some (log_document (hostCallbackID ctx) message model)"
    using assms by (simp add: log_payload_parse)
  moreover have "hostCallbackID ctx = hostCallbackID ctx' \<and> message = message' \<and> model = model'"
    if "list_all valid_utf8 [hostCallbackID ctx', message', model']"
      and "log_payload ctx message model = log_payload ctx' message' model'"
  proof -
    have "log_document (hostCallbackID ctx) message model = log_document (hostCallbackID ctx') message' model'"
      using parse that log_payload_parse [of ctx' message' model'] by simp
    then show ?thesis by (auto simp: log_document_def split: if_splits)
  qed
  ultimately show ?thesis by blast
qed

theorem log_line_roundtrip_witness:
  "json_parse (log_payload None [CHR 0x22, CHR '','', CHR 0x0A] ''m'') =
     Some (log_document [] [CHR 0x22, CHR '','', CHR 0x0A] ''m'')"
proof -
  have "list_all valid_utf8 [hostCallbackID None, [CHR 0x22, CHR '','', CHR 0x0A], ''m'']" by code_simp
  from log_line_roundtrip [OF this] show ?thesis by (simp add: hostCallbackID_def)
qed

section \<open>The body of a probe\<close>

definition probe_document :: "string \<Rightarrow> json" where
  "probe_document model = JObj
     [(''input'', JArr [JObj [(''content'', JArr [JObj [(''text'', JStr ''ping''), (''type'', JStr ''input_text'')]]),
        (''role'', JStr ''user'')]]),
      (''instructions'', JStr ''Reply with exactly: pong''), (''model'', JStr model),
      (''store'', JBool False), (''stream'', JBool True)]"

text \<open>
  C32. The body of a probe is a JSON document that asks for exactly the model of the request, whatever
  characters its name has, with the fixed prompt, as a stream and not to be stored. Two models
  never share a body.
\<close>

theorem probe_payload_roundtrip:
  assumes "valid_utf8 model"
  shows "json_parse (probe_payload model) = Some (probe_document model) \<and>
    hq_Body (probe_request s (r\<lparr>rq_Model := model\<rparr>) session) = probe_payload model \<and>
    (valid_utf8 model' \<longrightarrow> probe_payload model = probe_payload model' \<longrightarrow> model = model')"
proof -
  have parse: "json_parse (probe_payload m) = Some (probe_document m)" if "valid_utf8 m" for m
  proof -
    let ?v = "JObj [(''model'', JStr m), (''store'', JBool False), (''stream'', JBool True),
       (''instructions'', JStr ''Reply with exactly: pong''),
       (''input'', JArr [JObj [(''role'', JStr ''user''),
          (''content'', JArr [JObj [(''type'', JStr ''input_text''), (''text'', JStr ''ping'')]])]])]"
    have "list_all valid_utf8 [''model'', ''store'', ''stream'', ''instructions'', ''Reply with exactly: pong'', ''input'',
        ''role'', ''user'', ''content'', ''type'', ''input_text'', ''text'', ''ping'']" by code_simp
    then have "textual ?v" using that
      by (simp only: textual.simps list.pred_inject fst_conv snd_conv simp_thms)
    moreover have "int (nesting ?v) \<le> max_nesting" by (simp add: max_nesting_def)
    moreover have "canonical ?v = probe_document m" by code_simp
    ultimately show ?thesis unfolding probe_payload_def using json_parse_marshal by metis
  qed
  have "model = model'" if "valid_utf8 model'" "probe_payload model = probe_payload model'"
  proof -
    have "probe_document model = probe_document model'" using parse assms that by (metis option.inject)
    then show ?thesis by (simp add: probe_document_def)
  qed
  with parse [OF assms] show ?thesis by (simp add: probe_request_def Let_def)
qed

theorem probe_payload_roundtrip_witness:
  "json_parse (probe_payload ''gpt-6'') = Some (probe_document ''gpt-6'')"
proof -
  have "valid_utf8 ''gpt-6''" by code_simp
  from probe_payload_roundtrip [OF this] show ?thesis by blast
qed

end
