(* ===== verification/C_Memory.thy ===== *)
theory C_Memory
  imports Runtime Json_Roundtrip
begin

text \<open>
  Memory that crosses the C boundary, in \<open>cmd/plugin/main.go\<close>. A store holds the live blocks. A
  block is the plugin's (\<open>C.CString\<close>, \<open>C.CBytes\<close>, given back with \<open>C.free\<close>) or the host's (a
  reply buffer, given back with the host's own function). Giving back a block that is not live, or with the wrong function, is a
  fault: the result is \<open>None\<close>. Deferred calls run in reverse order when a function returns.

  \<open>C.GoBytes\<close> takes a C \<open>int\<close>, so a length is cut to 32 bits; a negative one is a run-time panic.
\<close>

unbundle bit_operations_syntax

section \<open>The store\<close>

datatype owner = Plugin_block | Host_block

record memory =
  mm_next :: nat
  mm_live :: "nat \<rightharpoonup> owner \<times> string"

definition malloc :: "owner \<Rightarrow> string \<Rightarrow> memory \<Rightarrow> nat \<times> memory" where
  "malloc w bytes m = (mm_next m, m\<lparr>mm_next := mm_next m + 1, mm_live := (mm_live m)(mm_next m \<mapsto> (w, bytes))\<rparr>)"

definition release :: "owner \<Rightarrow> nat option \<Rightarrow> memory \<Rightarrow> memory option" where
  "release w p m =
     (case p of
        None \<Rightarrow> Some m
      | Some a \<Rightarrow>
          (case mm_live m a of
             None \<Rightarrow> None
           | Some (w', _) \<Rightarrow> if w' = w then Some (m\<lparr>mm_live := (mm_live m)(a := None)\<rparr>) else None))"

definition GoBytes :: "string \<Rightarrow> string option" where
  "GoBytes bytes =
     (let n = sint (word_of_int (int (length bytes)) :: 32 word)
      in if n < 0 then None else Some (take (nat n) bytes))"

section \<open>Calls into the host\<close>

text \<open>
  The stored host table: its call function answers with a status and, unless its pointer stays
  null, the bytes of a reply; either function may be missing. \<open>cliproxy_buffer\<close> is a pointer and a length.
\<close>

record host_api =
  hx_call :: "(string \<Rightarrow> string \<Rightarrow> int \<times> string option) option"
  hx_free :: bool

record cliproxy_buffer =
  bf_ptr :: "nat option"
  bf_len :: int

definition null_buffer :: cliproxy_buffer where
  "null_buffer = \<lparr>bf_ptr = None, bf_len = 0\<rparr>"

definition call_host_api ::
  "host_api option \<Rightarrow> string \<Rightarrow> string \<Rightarrow> memory \<Rightarrow> int \<times> cliproxy_buffer \<times> memory" where
  "call_host_api stored_host name request m =
     (case stored_host of
        None \<Rightarrow> (1, null_buffer, m)
      | Some h \<Rightarrow>
          (case hx_call h of
             None \<Rightarrow> (1, null_buffer, m)
           | Some call \<Rightarrow>
               (case call name request of
                  (status, None) \<Rightarrow> (status, null_buffer, m)
                | (status, Some bytes) \<Rightarrow>
                    let (a, m) = malloc Host_block bytes m
                    in (status, \<lparr>bf_ptr = Some a, bf_len = int (length bytes)\<rparr>, m))))"

definition free_host_buffer :: "host_api option \<Rightarrow> nat option \<Rightarrow> memory \<Rightarrow> memory option" where
  "free_host_buffer stored_host p m =
     (case stored_host of
        None \<Rightarrow> Some m
      | Some h \<Rightarrow> if hx_free h then release Host_block p m else Some m)"

text \<open>The bytes a pointer leads to.\<close>

definition block_at :: "memory \<Rightarrow> nat option \<Rightarrow> string" where
  "block_at m p = (case p of None \<Rightarrow> [] | Some a \<Rightarrow> (case mm_live m a of None \<Rightarrow> [] | Some (_, b) \<Rightarrow> b))"

text \<open>
  \<open>callHost\<close> with its blocks: the method name, the request unless it is empty, the reply buffer.
  The outer option is a fault or a panic.
\<close>

definition callHostM ::
  "host_api option \<Rightarrow> bool \<Rightarrow> string \<Rightarrow> string \<Rightarrow> memory \<Rightarrow> ((string + string) \<times> memory) option" where
  "callHostM stored_host is_open name payload m =
     (if \<not> is_open then Some (Inl ''Host callbacks are closed'', m)
      else
        let (cMethod, m) = malloc Plugin_block (name @ [CHR 0x00]) m;
            (request, m) = (if payload \<noteq> [] then (let (r, m) = malloc Plugin_block payload m in (Some r, m)) else (None, m));
            (status, response, m) = call_host_api stored_host name payload m;
            result =
              (if status \<noteq> 0 \<or> bf_ptr response = None then Some (Inl ''Host callback failed'')
               else if bf_len response > 16 * 1024 * 1024 then Some (Inl ''Host callback response too large'')
               else map_option Inr (GoBytes (block_at m (bf_ptr response))))
        in Option.bind result (\<lambda>result.
             Option.bind (if bf_ptr response \<noteq> None then free_host_buffer stored_host (bf_ptr response) m else Some m) (\<lambda>m.
               Option.bind (release Plugin_block request m) (\<lambda>m.
                 Option.bind (release Plugin_block (Some cMethod) m) (\<lambda>m. Some (result, m))))))"

text \<open>\<open>liveProcessEnv\<close>: the name goes to libc and back; a variable that is not set is empty.\<close>

definition liveProcessEnv :: "(string \<Rightarrow> string option) \<Rightarrow> string \<Rightarrow> memory \<Rightarrow> (string \<times> memory) option" where
  "liveProcessEnv getenv key m =
     (let (name, m) = malloc Plugin_block (key @ [CHR 0x00]) m;
          value = getenv key
      in map_option (\<lambda>m. (case value of None \<Rightarrow> [] | Some v \<Rightarrow> v, m)) (release Plugin_block (Some name) m))"

section \<open>Calls of the host\<close>

text \<open>
  The SDK's encoder of an envelope (OK flag, result, error code and message); \<open>Inl\<close> is an
  encoding error.
\<close>

type_synonym encoder = "bool \<Rightarrow> string option \<Rightarrow> (string \<times> string) option \<Rightarrow> string + string"

text \<open>\<open>raw\<close> is the marshalled result, or the error of marshalling it.\<close>

definition okEnvelope :: "encoder \<Rightarrow> string + string \<Rightarrow> string + string" where
  "okEnvelope enc raw = (case raw of Inl e \<Rightarrow> Inl e | Inr r \<Rightarrow> enc True (Some r) None)"

text \<open>The text that is used when an error cannot be encoded, and the encoded error.\<close>

definition encode_error :: string where
  "encode_error =
     object_text [(''ok'', ''false''),
       (''error'', object_text [(''code'', json_quote ''plugin_error''), (''message'', json_quote ''encode error'')])]"

definition errorEnvelope :: "encoder \<Rightarrow> string \<Rightarrow> string \<Rightarrow> string" where
  "errorEnvelope enc code message =
     (case enc False None (Some (code, message)) of Inl e \<Rightarrow> encode_error | Inr raw \<Rightarrow> raw)"

text \<open>
  The status and the text of a reply: \<open>enc_reply\<close> marshals what is put into an envelope, and an
  error of encoding it is a plugin error.
\<close>

definition reply_text :: "encoder \<Rightarrow> (reply \<Rightarrow> string + string) \<Rightarrow> int \<times> reply \<Rightarrow> int \<times> string" where
  "reply_text enc enc_reply sr =
     (case snd sr of
        ErrorEnvelope code message \<Rightarrow> (fst sr, errorEnvelope enc code message)
      | r \<Rightarrow> (case okEnvelope enc (enc_reply r) of
                Inl e \<Rightarrow> (1, errorEnvelope enc ''plugin_error'' e)
              | Inr raw \<Rightarrow> (fst sr, raw)))"

definition writeResponse :: "cliproxy_buffer option \<Rightarrow> string \<Rightarrow> memory \<Rightarrow> cliproxy_buffer option \<times> memory" where
  "writeResponse response raw m =
     (if response = None \<or> raw = [] then (response, m)
      else let (a, m) = malloc Plugin_block raw m
           in (Some \<lparr>bf_ptr = Some a, bf_len = int (length raw)\<rparr>, m))"

text \<open>
  The exported call on the store. The request is \<open>None\<close> for a null pointer; \<open>has_response\<close> says whether
  the host passed a buffer, whose contents are overwritten first.
\<close>

definition cliproxyPluginCallM ::
  "encoder \<Rightarrow> (reply \<Rightarrow> string + string) \<Rightarrow> abi \<Rightarrow> decoders \<Rightarrow> environment \<Rightarrow> moment \<Rightarrow>
   string option \<Rightarrow> string option \<Rightarrow> bool \<Rightarrow> Runtime \<Rightarrow> memory \<Rightarrow>
   (int \<times> cliproxy_buffer option \<times> memory \<times> log_lines \<times> Runtime) option" where
  "cliproxyPluginCallM enc enc_reply ab dc env mo name request has_response rt m =
     (let response = (if has_response then Some null_buffer else None);
          requestBytes = (if name = None then Some []
                          else case request of None \<Rightarrow> Some [] | Some bytes \<Rightarrow> if bytes = [] then Some [] else GoBytes bytes)
      in case requestBytes of
           None \<Rightarrow> None
         | Some raw \<Rightarrow>
             let (status, reply, lines, rt) = cliproxyPluginCall ab dc env mo name raw rt;
                 (status, out) = reply_text enc enc_reply (status, reply);
                 (response, m) = writeResponse response out m
             in Some (status, response, m, lines, rt))"

definition cliproxyPluginFree :: "nat option \<Rightarrow> memory \<Rightarrow> memory option" where
  "cliproxyPluginFree p m = release Plugin_block p m"

section \<open>No leak, no fault\<close>

definition mm_ok :: "memory \<Rightarrow> bool" where
  "mm_ok m \<longleftrightarrow> (\<forall>a. mm_next m \<le> a \<longrightarrow> mm_live m a = None)"

lemma sint_small:
  assumes "0 \<le> x" and "x < 2 ^ 31"
  shows "sint (word_of_int x :: 32 word) = x"
proof -
  have "sint (word_of_int x :: 32 word) = signed_take_bit 31 x" by (simp add: sint_sbintrunc')
  also have "\<dots> = x" using assms by (intro signed_take_bit_int_eq_self) simp_all
  finally show ?thesis .
qed

lemma GoBytes_short: "int (length bytes) < 2 ^ 31 \<Longrightarrow> GoBytes bytes = Some bytes"
  unfolding GoBytes_def Let_def by (subst (1 2) sint_small) simp_all

lemma GoBytes_long:
  assumes "2 ^ 31 \<le> int (length bytes)" and "int (length bytes) < 2 ^ 32"
  shows "GoBytes bytes = None"
proof -
  let ?n = "int (length bytes)"
  have "sint (word_of_int ?n :: 32 word) = sint (word_of_int (?n - 2 ^ 32) :: 32 word)"
    by (intro arg_cong [where f = sint]) (simp add: word_of_int_eq_iff take_bit_eq_mod del: of_int_of_nat_eq)
  also have "\<dots> = signed_take_bit 31 (?n - 2 ^ 32)" by (subst sint_sbintrunc') simp
  also have "\<dots> = ?n - 2 ^ 32" using assms by (intro signed_take_bit_int_eq_self) simp_all
  finally have "sint (word_of_int ?n :: 32 word) = ?n - 2 ^ 32" .
  with assms(2) have "sint (word_of_int ?n :: 32 word) < 0" by simp
  then show ?thesis unfolding GoBytes_def Let_def by (simp only: if_True)
qed

lemma malloc_simps:
  "mm_next (snd (malloc w b m)) = mm_next m + 1" "mm_live (snd (malloc w b m)) = (mm_live m)(mm_next m \<mapsto> (w, b))"
  "fst (malloc w b m) = mm_next m"
  by (simp_all add: malloc_def)

text \<open>The native function a stored table amounts to.\<close>

definition native_of :: "host_api option \<Rightarrow> string \<Rightarrow> string \<Rightarrow> int \<times> string option" where
  "native_of stored_host name payload =
     (case Option.bind stored_host hx_call of None \<Rightarrow> (1, None) | Some call \<Rightarrow> call name payload)"

text \<open>The blocks a call leaves behind: the host's reply, if the host has no way to take it back.\<close>

definition kept_reply :: "host_api option \<Rightarrow> string \<Rightarrow> string \<Rightarrow> string option" where
  "kept_reply stored_host name payload =
     (if \<exists>h. stored_host = Some h \<and> hx_free h then None else snd (native_of stored_host name payload))"

lemma call_host_api_native:
  "call_host_api h name payload m =
     (fst (native_of h name payload),
      (case snd (native_of h name payload) of
         None \<Rightarrow> (null_buffer, m)
       | Some bytes \<Rightarrow> (\<lparr>bf_ptr = Some (mm_next m), bf_len = int (length bytes)\<rparr>, snd (malloc Host_block bytes m))))"
  by (auto simp: call_host_api_def native_of_def malloc_def split: option.splits prod.splits)

lemma release_simps:
  "release w None m = Some m"
  "mm_live m a = Some (w, b) \<Longrightarrow> release w (Some a) m = Some (m\<lparr>mm_live := (mm_live m)(a := None)\<rparr>)"
  by (simp_all add: release_def)

definition reply_address :: "string \<Rightarrow> memory \<Rightarrow> nat" where
  "reply_address payload m = mm_next m + (if payload = [] then 1 else 2)"

lemma callHostM_exact:
  assumes "mm_ok m" and "rt_host rt = (stored_host \<noteq> None)"
  shows "\<exists>m'. callHostM stored_host (rt_open rt) name payload m =
      Some (callHost (native_of stored_host) name payload rt, m') \<and> mm_ok m' \<and>
    mm_live m' =
      (if rt_open rt \<and> kept_reply stored_host name payload \<noteq> None
       then (mm_live m)(reply_address payload m \<mapsto> (Host_block, the (kept_reply stored_host name payload)))
       else mm_live m)"
proof (cases "rt_open rt")
  case False
  with assms(1) show ?thesis by (simp add: callHostM_def callHost_def)
next
  case True
  obtain status reply where native: "native_of stored_host name payload = (status, reply)" by fastforce
  have nohost: "\<not> rt_host rt \<Longrightarrow> status = 1 \<and> reply = None"
    using assms(2) native by (simp add: native_of_def)
  have free: "stored_host = None \<Longrightarrow> reply = None" using native by (auto simp: native_of_def)
  show ?thesis
  proof (cases reply)
    case None
    show ?thesis
      using True None native nohost assms(1)
      by (auto simp: callHostM_def callHost_def call_host_api_native kept_reply_def null_buffer_def malloc_def release_def
          mm_ok_def fun_eq_iff Let_def reply_address_def)
  next
    case (Some bytes)
    then obtain h where h: "stored_host = Some h" using free by (cases stored_host) auto
    have small: "\<not> int (length bytes) > 16 * 1024 * 1024 \<Longrightarrow> GoBytes bytes = Some bytes"
      by (rule GoBytes_short) simp
    show ?thesis
      using True Some native assms h small
      by (cases "hx_free h"; cases "status = 0"; cases "int (length bytes) > 16 * 1024 * 1024"; cases "payload = []")
        (simp_all add: callHostM_def callHost_def call_host_api_native kept_reply_def malloc_def release_def
          free_host_buffer_def block_at_def mm_ok_def fun_eq_iff Let_def reply_address_def)
  qed
qed

text \<open>
  C22. A callback into the host leaves no memory behind and never faults. Every block it takes is
  given back exactly once, with the function of its owner, whatever the host answers; only a reply of a
  host that offers no way to free it stays. The result is that of the abstract call.
\<close>

theorem callback_memory:
  assumes "mm_ok m" and "rt_host rt = (stored_host \<noteq> None)"
  shows "\<exists>m'. callHostM stored_host (rt_open rt) name payload m =
      Some (callHost (native_of stored_host) name payload rt, m') \<and> mm_ok m' \<and>
    (if rt_open rt \<and> kept_reply stored_host name payload \<noteq> None
     then \<exists>a. mm_live m a = None \<and> mm_live m' = (mm_live m)(a \<mapsto> (Host_block, the (kept_reply stored_host name payload)))
     else mm_live m' = mm_live m)"
proof -
  have "mm_live m (reply_address payload m) = None" using assms(1) by (simp add: mm_ok_def reply_address_def)
  with callHostM_exact [OF assms, of name payload] show ?thesis by (auto split: if_splits)
qed

definition sample_host :: host_api where
  "sample_host = \<lparr>hx_call = Some (\<lambda>name request. (0, Some request)), hx_free = True\<rparr>"

definition sample_runtime :: Runtime where
  "sample_runtime = \<lparr>rt_plugin = newPlugin default_config, rt_stopped = False, rt_open = True, rt_host = True,
     rt_budget = budget_empty\<rparr>"

definition no_memory :: memory where
  "no_memory = \<lparr>mm_next = 0, mm_live = (\<lambda>_. None)\<rparr>"

lemma mm_ok_no_memory: "mm_ok no_memory"
  by (simp add: mm_ok_def no_memory_def)

theorem callback_memory_witness:
  "\<exists>m'. callHostM (Some sample_host) True ''host.auth.list'' ''{}'' no_memory = Some (Inr ''{}'', m') \<and>
     mm_live m' = mm_live no_memory"
proof -
  have "rt_open sample_runtime" "rt_host sample_runtime" by (simp_all add: sample_runtime_def)
  moreover have "callHost (native_of (Some sample_host)) ''host.auth.list'' ''{}'' sample_runtime = Inr ''{}''"
    by (simp add: callHost_def native_of_def sample_host_def sample_runtime_def)
  moreover have "kept_reply (Some sample_host) ''host.auth.list'' ''{}'' = None"
    by (simp add: kept_reply_def sample_host_def)
  ultimately show ?thesis
    using callback_memory [OF mm_ok_no_memory, of sample_runtime "Some sample_host" "''host.auth.list''" "''{}''"]
    by auto
qed

lemma liveProcessEnv_memory:
  assumes "mm_ok m"
  shows "\<exists>m'. liveProcessEnv getenv key m = Some (case getenv key of None \<Rightarrow> [] | Some v \<Rightarrow> v, m') \<and> mm_live m' = mm_live m"
  using assms by (simp add: liveProcessEnv_def malloc_def release_def mm_ok_def fun_upd_idem)

section \<open>The buffer of a reply\<close>

text \<open>
  C33. A call of the host gets the encoded reply in one block of its own. The buffer is filled exactly when
  the host passed one and there is a text, with the address and length of that text; the
  call leaves nothing else behind, and giving the buffer back with the plugin's free function
  restores the store. Status, text and the new state are those of the abstract call. No request shorter
  than 2 GiB faults.
\<close>

theorem response_buffer_owned:
  assumes "mm_ok m" and "\<And>bytes. request = Some bytes \<Longrightarrow> int (length bytes) < 2 ^ 31"
    and "cliproxyPluginCall ab dc env mo name (if name = None \<or> request = None then [] else the request) rt = (st, reply, lines, rt')"
    and "reply_text enc enc_reply (st, reply) = (status, out)"
  shows "\<exists>m' m''. cliproxyPluginCallM enc enc_reply ab dc env mo name request has_response rt m =
      Some (status,
        (if \<not> has_response then None
         else if out = [] then Some null_buffer
         else Some \<lparr>bf_ptr = Some (mm_next m), bf_len = int (length out)\<rparr>), m', lines, rt') \<and>
    (if has_response \<and> out \<noteq> []
     then block_at m' (Some (mm_next m)) = out \<and> mm_live m (mm_next m) = None \<and>
       cliproxyPluginFree (Some (mm_next m)) m' = Some m'' \<and> mm_live m'' = mm_live m
     else m' = m)"
proof -
  have read: "(if name = None then Some [] else case request of None \<Rightarrow> Some [] | Some bytes \<Rightarrow> if bytes = [] then Some [] else GoBytes bytes)
      = Some (if name = None \<or> request = None then [] else the request)"
    using assms(2) GoBytes_short by (auto split: option.split)
  have free: "mm_live m (mm_next m) = None" using assms(1) by (simp add: mm_ok_def)
  show ?thesis
    unfolding cliproxyPluginCallM_def Let_def read option.case assms(3) prod.case assms(4)
    by (cases has_response; cases "out = []")
      (use free in \<open>simp_all add: writeResponse_def malloc_def block_at_def cliproxyPluginFree_def release_def fun_upd_idem\<close>)
qed

theorem response_buffer_owned_witness:
  "\<forall>ab dc env mo. \<exists>m' m''. cliproxyPluginCallM (\<lambda>_ _ _. Inl ''e'') (\<lambda>_. Inl ''e'') ab dc env mo None (Some ''{}'') True sample_runtime no_memory =
      Some (1, Some \<lparr>bf_ptr = Some 0, bf_len = int (length encode_error)\<rparr>, m', [], sample_runtime) \<and>
    block_at m' (Some 0) = encode_error \<and> cliproxyPluginFree (Some 0) m' = Some m''"
proof (intro allI)
  fix ab dc env mo
  have request: "\<And>bytes. Some ''{}'' = Some bytes \<Longrightarrow> int (length bytes) < 2 ^ 31" by auto
  have called: "cliproxyPluginCall ab dc env mo None (if (None :: string option) = None \<or> Some ''{}'' = None then [] else the (Some ''{}''))
      sample_runtime = (1, ErrorEnvelope ''invalid_method'' ''method is required'', [], sample_runtime)"
    by (simp add: cliproxyPluginCall_def)
  have encoded: "reply_text (\<lambda>_ _ _. Inl ''e'') (\<lambda>_. Inl ''e'') (1, ErrorEnvelope ''invalid_method'' ''method is required'') = (1, encode_error)"
    by (simp add: reply_text_def errorEnvelope_def)
  have "encode_error \<noteq> []" by (simp add: encode_error_def object_text_def)
  moreover have "mm_next no_memory = 0" by (simp add: no_memory_def)
  ultimately show "\<exists>m' m''. cliproxyPluginCallM (\<lambda>_ _ _. Inl ''e'') (\<lambda>_. Inl ''e'') ab dc env mo None (Some ''{}'') True sample_runtime no_memory =
      Some (1, Some \<lparr>bf_ptr = Some 0, bf_len = int (length encode_error)\<rparr>, m', [], sample_runtime) \<and>
    block_at m' (Some 0) = encode_error \<and> cliproxyPluginFree (Some 0) m' = Some m''"
    using response_buffer_owned [OF mm_ok_no_memory request called encoded, of True] by auto
qed

end
