(* ===== verification/Registration.thy ===== *)
theory Registration
  imports Runtime
begin

text \<open>
  What the plugin tells the host about itself, \<open>pluginRegistration\<close> in \<open>cmd/plugin/main.go\<close>, and that the dispatch
  keeps it: every capability that is announced leads to a hook. The kinds of configuration
  fields are the SDK's constants, the schema version is an argument.
\<close>

datatype ConfigFieldType = ConfigFieldTypeInteger | ConfigFieldTypeArray | ConfigFieldTypeObject

record ConfigField =
  cf_Name :: string
  cf_Type :: ConfigFieldType
  cf_Description :: string

record Metadata =
  md_Name :: string
  md_Version :: string
  md_Author :: string
  md_GitHubRepository :: string
  md_ConfigFields :: "ConfigField list"

record registrationCapabilities =
  ca_RequestInterceptor :: bool
  ca_RequestLifecyclePlugin :: bool
  ca_ResponseInterceptor :: bool
  ca_StreamChunkInterceptor :: bool
  ca_WebSocketResponseObserver :: bool

record registration =
  rg_SchemaVersion :: int
  rg_Metadata :: Metadata
  rg_Capabilities :: registrationCapabilities

definition pluginVersion :: string where "pluginVersion = ''0.5.0''"

definition pluginRegistration :: "int \<Rightarrow> registration" where
  "pluginRegistration schemaVersion =
     \<lparr>rg_SchemaVersion = schemaVersion,
      rg_Metadata =
        \<lparr>md_Name = ''codex-turn-state-cache'', md_Version = pluginVersion, md_Author = ''5345asda'',
         md_GitHubRepository = ''https://github.com/5345asda/codex-turn-state-cache'',
         md_ConfigFields =
           [\<lparr>cf_Name = ''max_entries'', cf_Type = ConfigFieldTypeInteger,
             cf_Description = ''Maximum in-memory account/model state entries.''\<rparr>,
            \<lparr>cf_Name = ''max_pending_entries'', cf_Type = ConfigFieldTypeInteger,
             cf_Description = ''Maximum in-flight request correlations.''\<rparr>,
            \<lparr>cf_Name = ''accepted_lengths'', cf_Type = ConfigFieldTypeArray,
             cf_Description = ''Accepted raw byte lengths of turn-state (default: [292, 332]).''\<rparr>,
            \<lparr>cf_Name = ''prewarm'', cf_Type = ConfigFieldTypeObject,
             cf_Description = ''Prewarming: enabled, models, max_probes_per_hour and SOCKS5H proxies; discovers enabled accounts automatically. No Host or business-route changes.''\<rparr>]\<rparr>,
      rg_Capabilities =
        \<lparr>ca_RequestInterceptor = True, ca_RequestLifecyclePlugin = True, ca_ResponseInterceptor = True,
         ca_StreamChunkInterceptor = True, ca_WebSocketResponseObserver = True\<rparr>\<rparr>"

text \<open>The method names of the SDK are all different.\<close>

definition abi_names :: "abi \<Rightarrow> string list" where
  "abi_names ab = [ab_Register ab, ab_Reconfigure ab, ab_Quiesce ab, ab_Before ab, ab_After ab, ab_Response ab,
     ab_StreamChunk ab, ab_WebSocket ab, ab_Complete ab]"

text \<open>
  What is announced is served, and nothing else. With the SDK's method names all different, the
  methods behind each announced capability reach exactly their hooks, and a method that is none
  of the SDK's is answered as unknown, with nothing changed and no log line.
\<close>

theorem capabilities_are_served:
  assumes "distinct (abi_names ab)"
  shows "let ca = rg_Capabilities (pluginRegistration v) in
    (ca_RequestInterceptor ca \<longrightarrow>
       handleMethod ab dc env mo (ab_Before ab) raw rt = interceptRequestBeforeAuth dc raw rt \<and>
       handleMethod ab dc env mo (ab_After ab) raw rt = interceptRequestAfterAuth dc mo raw rt) \<and>
    (ca_RequestLifecyclePlugin ca \<longrightarrow> handleMethod ab dc env mo (ab_Complete ab) raw rt = completeRequest dc mo raw rt) \<and>
    (ca_ResponseInterceptor ca \<longrightarrow> handleMethod ab dc env mo (ab_Response ab) raw rt = interceptResponse dc mo raw rt) \<and>
    (ca_StreamChunkInterceptor ca \<longrightarrow>
       handleMethod ab dc env mo (ab_StreamChunk ab) raw rt = interceptStreamChunk ab dc mo raw rt) \<and>
    (ca_WebSocketResponseObserver ca \<longrightarrow>
       handleMethod ab dc env mo (ab_WebSocket ab) raw rt = observeWebSocketResponseEvent dc mo raw rt) \<and>
    (name \<notin> set (abi_names ab) \<longrightarrow>
       handleMethod ab dc env mo name raw rt = (Inr (ErrorEnvelope ''unknown_method'' (''unknown method: '' @ name)), [], rt))"
proof -
  have "handleMethod ab dc env mo (ab_Before ab) raw rt = interceptRequestBeforeAuth dc raw rt"
    "handleMethod ab dc env mo (ab_After ab) raw rt = interceptRequestAfterAuth dc mo raw rt"
    "handleMethod ab dc env mo (ab_Complete ab) raw rt = completeRequest dc mo raw rt"
    "handleMethod ab dc env mo (ab_Response ab) raw rt = interceptResponse dc mo raw rt"
    "handleMethod ab dc env mo (ab_StreamChunk ab) raw rt = interceptStreamChunk ab dc mo raw rt"
    "handleMethod ab dc env mo (ab_WebSocket ab) raw rt = observeWebSocketResponseEvent dc mo raw rt"
    using assms unfolding handleMethod_def abi_names_def by auto
  moreover have "handleMethod ab dc env mo name raw rt = (Inr (ErrorEnvelope ''unknown_method'' (''unknown method: '' @ name)), [], rt)"
    if "name \<notin> set (abi_names ab)"
    using that unfolding handleMethod_def abi_names_def by auto
  ultimately show ?thesis unfolding Let_def by blast
qed

definition plain_abi :: abi where
  "plain_abi = \<lparr>ab_Register = ''a'', ab_Reconfigure = ''b'', ab_Quiesce = ''c'', ab_Before = ''d'', ab_After = ''e'',
     ab_Response = ''f'', ab_StreamChunk = ''g'', ab_WebSocket = ''h'', ab_Complete = ''i'', ab_init_index = - 1\<rparr>"

theorem capabilities_are_served_witness:
  "\<forall>dc env mo raw rt. handleMethod plain_abi dc env mo ''i'' raw rt = completeRequest dc mo raw rt"
proof -
  have "distinct (abi_names plain_abi)" by code_simp
  note served = capabilities_are_served [OF this]
  have "ca_RequestLifecyclePlugin (rg_Capabilities (pluginRegistration 2))"
    unfolding pluginRegistration_def registration.select_convs registrationCapabilities.select_convs by (rule TrueI)
  moreover have "ab_Complete plain_abi = ''i''" by (simp add: plain_abi_def)
  ultimately show ?thesis using served [of 2] unfolding Let_def by metis
qed

end
