(* ===== verification/Shutdown.thy ===== *)
theory Shutdown
  imports Machine_Spec Work
begin

text \<open>
  The goroutines of the engine, \<open>Start\<close> and \<open>Close\<close> of \<open>internal/prewarm/engine.go\<close>. \<open>Start\<close> launches the
  workers and one scheduler; \<open>Close\<close> sets the closed flag, cancels the context and waits for all of
  them. The native library is unloaded after that, so \<open>Close\<close> has to return: in a closed
  engine the workers have a bounded amount of work left, and nothing can add to it.
\<close>

section \<open>Start\<close>

text \<open>
  The scheduler: it waits for the start-up delay, schedules once, and then waits for ticks.
  \<open>sched_next\<close> also tells whether the step runs \<open>schedule\<close>.
\<close>

datatype sched = SchedDelay | SchedFirst | SchedTick | SchedExit

definition sched_next :: "input \<Rightarrow> bool \<Rightarrow> sched \<Rightarrow> (sched \<times> bool) option" where
  "sched_next inp closed sc =
     (case sc of
        SchedDelay \<Rightarrow> (case inp of ICancel \<Rightarrow> if closed then Some (SchedExit, False) else None
                                | IGo \<Rightarrow> Some (SchedFirst, False) | _ \<Rightarrow> None)
      | SchedFirst \<Rightarrow> (case inp of IGo \<Rightarrow> Some (SchedTick, True) | _ \<Rightarrow> None)
      | SchedTick \<Rightarrow> (case inp of ICancel \<Rightarrow> if closed then Some (SchedExit, False) else None
                               | IGo \<Rightarrow> Some (SchedTick, True) | _ \<Rightarrow> None)
      | SchedExit \<Rightarrow> None)"

definition Start :: "Engine \<Rightarrow> wpc list \<times> sched" where
  "Start e = (replicate (nat (Workers (en_cfg e))) WFetch, if 0 < en_startupDelay e then SchedDelay else SchedFirst)"

lemma sys_init_Start: "sys_init c s \<Longrightarrow> sy_workers s = fst (Start (sy_engine s))"
  by (auto simp: sys_init_def Start_def SetBudget_def dest!: New_start(3))

section \<open>Workers that hold a place of a job\<close>

definition fine_inv :: "Config \<Rightarrow> Sys \<Rightarrow> bool" where
  "fine_inv c s \<longleftrightarrow> sys_inv s \<and> en_cfg (sy_engine s) = Defaults c \<and>
     (\<forall>pc \<in> set (sy_workers s). pc_fine (Defaults c) pc)"

lemma step_cfg:
  assumes "sys_step s s'" and "sys_inv s"
  shows "en_cfg (sy_engine s') = en_cfg (sy_engine s)"
  using sys_step_cases [OF assms] by (auto dest: quiet_cfg publish_frame(4) simp: finish_frame(3))

lemma wstep_fine:
  assumes "wstep now inp pc e = Some (pc', e')" and "pc_fine (en_cfg e) pc"
  shows "pc_fine (en_cfg e) pc'"
proof (cases "pc = WFetch")
  case True
  with assms(1) show ?thesis
    by (cases inp) (auto simp: wstep_def go_step_def cancel_step_def describe_step_def probe_step_def split: list.splits if_splits)
next
  case False
  from step_drop [OF assms False] show ?thesis by (simp add: drops_def)
qed

lemma fine_inv_step:
  assumes "fine_inv c s" and "sys_step s s'"
  shows "fine_inv c s'"
proof -
  have inv: "sys_inv s" and cfg: "en_cfg (sy_engine s) = Defaults c"
    and fine: "\<And>pc. pc \<in> set (sy_workers s) \<Longrightarrow> pc_fine (Defaults c) pc"
    using assms(1) by (auto simp: fine_inv_def)
  from assms(2) have "\<forall>pc \<in> set (sy_workers s'). pc_fine (Defaults c) pc"
  proof cases
    case (step_worker i inp pc' e')
    have "pc_fine (Defaults c) pc'"
      using wstep_fine [OF step_worker(3)] fine [of "sy_workers s ! i"] step_worker(2) cfg by simp
    with step_worker(1) fine show ?thesis by (auto dest!: set_update_subset_insert [THEN subsetD])
  qed (use fine in auto)
  then show ?thesis using sys_inv_step [OF inv assms(2)] step_cfg [OF assms(2) inv] cfg by (simp add: fine_inv_def)
qed

interpretation engine_workers: invariant_of "sys_init c" sys_step "fine_inv c"
proof
  fix s assume init: "sys_init c s"
  then have "en_cfg (sy_engine s) = Defaults c" "\<forall>pc \<in> set (sy_workers s). pc = WFetch"
    by (auto simp: sys_init_def SetBudget_def dest!: New_start(3))
  then show "fine_inv c s" using sys_inv_init [OF init] by (auto simp: fine_inv_def)
qed (rule fine_inv_step)

section \<open>The work that is left\<close>

definition worker_load :: "int \<Rightarrow> wpc \<Rightarrow> int" where
  "worker_load m pc = (if pc = WExit then 0 else weight m pc + 1)"

definition work_left :: "Sys \<Rightarrow> int" where
  "work_left s =
     (let m = MaxAttempts (en_cfg (sy_engine s))
      in sum_list (map (worker_load m) (sy_workers s)) + int (length (en_queue (sy_engine s))) * (20 * max 0 m + 5))"

definition worker_move :: "Sys \<Rightarrow> Sys \<Rightarrow> bool" where
  "worker_move s s' \<longleftrightarrow> (\<exists>i inp pc' e'. i < length (sy_workers s) \<and>
     wstep (sy_now s) inp (sy_workers s ! i) (sy_engine s) = Some (pc', e') \<and>
     s' = s\<lparr>sy_engine := e', sy_workers := (sy_workers s)[i := pc'],
       sy_calls := record_call (sy_now s) (en_cfg (sy_engine s)) (sy_workers s ! i) inp @ sy_calls s\<rparr>)"

lemma worker_move_step: "worker_move s s' \<Longrightarrow> sys_step s s'"
  unfolding worker_move_def by (blast intro: step_worker)

lemma sum_list_update_int:
  fixes f :: "'a \<Rightarrow> int"
  shows "i < length xs \<Longrightarrow> sum_list (map f (xs[i := x])) = sum_list (map f xs) - f (xs ! i) + f x"
  by (induction xs arbitrary: i) (auto split: nat.split)

lemma finish_queue: "en_queue (finish_job now reason j e) = en_queue e"
  by (simp add: finish_job_def Let_def put_record_def split: option.split)

lemma publish_closed: "publish now a candidate current e = (pc, e') \<Longrightarrow> en_closed e \<Longrightarrow> e' = e"
  by (auto simp: publish_def Let_def split: option.splits)

text \<open>One step of a worker of a closed engine: what it does to its load and to the queue.\<close>

lemma closed_wstep:
  assumes "wstep now inp pc e = Some (pc', e')" and "pc_ok now cs pc" and "pc_fine (en_cfg e) pc" and "en_closed e"
  shows "worker_load (MaxAttempts (en_cfg e)) pc' + int (length (en_queue e')) * (20 * max 0 (MaxAttempts (en_cfg e)) + 5)
    < worker_load (MaxAttempts (en_cfg e)) pc + int (length (en_queue e)) * (20 * max 0 (MaxAttempts (en_cfg e)) + 5)"
proof -
  let ?m = "MaxAttempts (en_cfg e)"
  have queue: "en_queue e' = en_queue e \<or> (\<exists>j q. pc = WFetch \<and> pc' = WStart j \<and> en_queue e = j # q \<and> en_queue e' = q)"
    using worker_step [OF assms(1,2)] assms(4)
    by (auto simp: finish_queue dest: quiet_queue dest!: publish_closed [OF sym])
  show ?thesis
  proof (cases "pc = WFetch")
    case True
    with assms(1) queue show ?thesis
      by (cases inp) (auto simp: worker_load_def algebra_simps wstep_def go_step_def cancel_step_def describe_step_def
          probe_step_def split: list.splits if_splits)
  next
    case False
    with step_drop [OF assms(1,3)] have drop: "drops (en_cfg e) (is_probe inp) pc pc'" by blast
    then have "weight ?m pc' < weight ?m pc" and fine: "0 \<le> weight ?m pc'"
      using weight_nonneg [of "en_cfg e" pc'] by (auto simp: drops_def)
    moreover have "pc \<noteq> WExit"
      using assms(1) by (cases inp) (auto simp: wstep_def go_step_def cancel_step_def describe_step_def probe_step_def split: if_splits)
    ultimately show ?thesis using queue False by (auto simp: worker_load_def)
  qed
qed

lemma work_drops:
  assumes "fine_inv c s" and "en_closed (sy_engine s)" and "worker_move s s'"
  shows "work_left s' < work_left s"
proof -
  from assms(3) obtain i inp pc' e' where m: "i < length (sy_workers s)"
      "wstep (sy_now s) inp (sy_workers s ! i) (sy_engine s) = Some (pc', e')"
      "s' = s\<lparr>sy_engine := e', sy_workers := (sy_workers s)[i := pc'],
         sy_calls := record_call (sy_now s) (en_cfg (sy_engine s)) (sy_workers s ! i) inp @ sy_calls s\<rparr>"
    unfolding worker_move_def by blast
  have inv: "sys_inv s" and cfg: "en_cfg (sy_engine s) = Defaults c" and "pc_fine (en_cfg (sy_engine s)) (sy_workers s ! i)"
    using assms(1) m(1) by (auto simp: fine_inv_def)
  moreover have "pc_ok (sy_now s) (sy_calls s) (sy_workers s ! i)" using inv m(1) by (simp add: sys_inv_def)
  ultimately have "worker_load (MaxAttempts (en_cfg (sy_engine s))) pc' + int (length (en_queue e')) * (20 * max 0 (MaxAttempts (en_cfg (sy_engine s))) + 5)
    < worker_load (MaxAttempts (en_cfg (sy_engine s))) (sy_workers s ! i) + int (length (en_queue (sy_engine s))) * (20 * max 0 (MaxAttempts (en_cfg (sy_engine s))) + 5)"
    using closed_wstep [OF m(2)] assms(2) by blast
  moreover have "en_cfg e' = en_cfg (sy_engine s)"
    using step_cfg [OF worker_move_step [OF assms(3)] inv] m(3) by simp
  ultimately show ?thesis
    using m(1) by (simp add: m(3) work_left_def Let_def sum_list_update_int)
qed

lemma work_kept:
  assumes "fine_inv c s" and "en_closed (sy_engine s)" and "sys_step s s'"
  shows "work_left s' \<le> work_left s"
  using assms(3)
proof cases
  case (step_worker i inp pc' e')
  then have "worker_move s s'" unfolding worker_move_def by blast
  from work_drops [OF assms(1,2) this] show ?thesis by simp
next
  case (step_schedule ord)
  with assms(2) quiet_queue [OF quiet_schedule] quiet_cfg [OF quiet_schedule] show ?thesis by (simp add: work_left_def)
next
  case (step_bind rid k callerState answer)
  with assms(2) quiet_queue [OF quiet_bind_locked] quiet_cfg [OF quiet_bind_locked] show ?thesis by (simp add: work_left_def)
next
  case (step_observe rid op)
  with assms(2) quiet_queue [OF quiet_obs_apply] quiet_cfg [OF quiet_obs_apply] show ?thesis by (simp add: work_left_def)
next
  case (step_refresh_begin force)
  with assms(2) quiet_queue [OF quiet_refresh_begin] quiet_cfg [OF quiet_refresh_begin] show ?thesis by (simp add: work_left_def)
next
  case (step_refresh_end ordS ordP ordD accounts)
  with assms(2) quiet_queue [OF quiet_refresh_end] quiet_cfg [OF quiet_refresh_end] show ?thesis by (simp add: work_left_def)
qed (simp_all add: work_left_def Close_def)

section \<open>Close returns\<close>

text \<open>
  \<open>drains s n s'\<close>: a run from \<open>s\<close> to \<open>s'\<close> with \<open>n\<close> steps of workers among its steps; between them anything may
  happen that a step of the engine allows.
\<close>

inductive drains :: "Sys \<Rightarrow> nat \<Rightarrow> Sys \<Rightarrow> bool" for s where
  drains_none: "drains s 0 s"
| drains_worker: "drains s n s1 \<Longrightarrow> worker_move s1 s2 \<Longrightarrow> drains s (Suc n) s2"
| drains_other: "drains s n s1 \<Longrightarrow> sys_step s1 s2 \<Longrightarrow> drains s n s2"

lemma drains_bound:
  assumes "drains s n s'" and "fine_inv c s" and "en_closed (sy_engine s)"
  shows "fine_inv c s' \<and> en_closed (sy_engine s') \<and> int n + work_left s' \<le> work_left s"
  using assms(1)
proof induction
  case drains_none
  then show ?case using assms(2,3) by simp
next
  case (drains_worker n s1 s2)
  then have s1: "fine_inv c s1" "en_closed (sy_engine s1)" "int n + work_left s1 \<le> work_left s" by blast+
  have step: "sys_step s1 s2" by (rule worker_move_step) (rule drains_worker.hyps(2))
  have "fine_inv c s2" by (rule fine_inv_step [OF s1(1) step])
  moreover have "en_closed (sy_engine s2)" using closed_step(1) [OF _ step s1(2)] s1(1) by (simp add: fine_inv_def)
  moreover have "work_left s2 < work_left s1" by (rule work_drops [OF s1(1,2) drains_worker.hyps(2)])
  ultimately show ?case using s1(3) by simp
next
  case (drains_other n s1 s2)
  then have s1: "fine_inv c s1" "en_closed (sy_engine s1)" "int n + work_left s1 \<le> work_left s" by blast+
  have "fine_inv c s2" by (rule fine_inv_step [OF s1(1) drains_other.hyps(2)])
  moreover have "en_closed (sy_engine s2)"
    using closed_step(1) [OF _ drains_other.hyps(2) s1(2)] s1(1) by (simp add: fine_inv_def)
  moreover have "work_left s2 \<le> work_left s1" by (rule work_kept [OF s1(1,2) drains_other.hyps(2)])
  ultimately show ?case using s1(3) by simp
qed

lemma work_left_nonneg:
  assumes "fine_inv c s"
  shows "0 \<le> work_left s"
proof -
  have "0 \<le> worker_load (MaxAttempts (en_cfg (sy_engine s))) pc" if "pc \<in> set (sy_workers s)" for pc
    using that assms weight_nonneg [of "Defaults c" pc] by (auto simp: fine_inv_def worker_load_def)
  then have "0 \<le> sum_list (map (worker_load (MaxAttempts (en_cfg (sy_engine s)))) (sy_workers s))"
    by (intro sum_list_nonneg) auto
  then show ?thesis unfolding work_left_def Let_def by (intro add_nonneg_nonneg mult_nonneg_nonneg) simp_all
qed

lemma closed_progress:
  assumes "fine_inv c s" and "en_closed (sy_engine s)" and "i < length (sy_workers s)" and "sy_workers s ! i \<noteq> WExit"
  shows "\<exists>s'. worker_move s s'"
proof -
  have "\<exists>inp. wstep (sy_now s) inp (sy_workers s ! i) (sy_engine s) \<noteq> None"
  proof (cases "sy_workers s ! i = WFetch")
    case True
    then have "wstep (sy_now s) ICancel (sy_workers s ! i) (sy_engine s) \<noteq> None"
      using assms(2) by (simp add: wstep_def cancel_step_def)
    then show ?thesis by blast
  next
    case False
    have "pc_fine (en_cfg (sy_engine s)) (sy_workers s ! i)" using assms(1,3) by (simp add: fine_inv_def)
    from fine_progress [OF this False assms(4)] show ?thesis .
  qed
  then obtain inp pc' e' where "wstep (sy_now s) inp (sy_workers s ! i) (sy_engine s) = Some (pc', e')" by auto
  with assms(3) show ?thesis unfolding worker_move_def by blast
qed

text \<open>
  C14. \<open>Close\<close> returns. Once the engine is closed, its workers take at most as many steps as the work that was left:
  a bound for the place each worker is at, and \<open>20 * MaxAttempts + 5\<close> for every job in the
  queue. Requests, ticks, snapshots and reports that still arrive add nothing to it. As long as a worker
  has not ended some step of it is possible, so when the host has answered and timers have fired
  all workers have ended, and the scheduler ends at the next place where it waits.
\<close>

theorem close_joins_workers:
  assumes "reach (sys_init c) sys_step s" and "en_closed (sy_engine s)" and "drains s n s'"
  shows "int n \<le> work_left s \<and>
    ((\<nexists>s''. worker_move s' s'') \<longrightarrow> (\<forall>pc \<in> set (sy_workers s'). pc = WExit)) \<and>
    (sc \<in> {SchedDelay, SchedTick} \<longrightarrow> sched_next ICancel (en_closed (sy_engine s')) sc = Some (SchedExit, False))"
proof -
  have b: "fine_inv c s'" "en_closed (sy_engine s')" "int n + work_left s' \<le> work_left s"
    using drains_bound [OF assms(3) engine_workers.inv_reach [OF assms(1)] assms(2)] by blast+
  have "\<forall>pc \<in> set (sy_workers s'). pc = WExit" if "\<nexists>s''. worker_move s' s''"
    using closed_progress [OF b(1,2)] that by (metis in_set_conv_nth)
  with b work_left_nonneg [OF b(1)] show ?thesis by (auto simp: sched_next_def)
qed

definition sample_closing :: Sys where
  "sample_closing = sample_scheduled\<lparr>sy_engine := Close (sy_engine sample_scheduled)\<rparr>"

theorem close_joins_workers_witness:
  "\<exists>s'. drains sample_closing 1 s' \<and> sy_workers s' = [WExit] \<and> 1 \<le> work_left sample_closing"
proof -
  let ?s' = "sample_closing\<lparr>sy_workers := [WExit]\<rparr>"
  have "sys_step sample_scheduled sample_closing" unfolding sample_closing_def by (rule step_close)
  then have r: "reach (sys_init sample_cfg) sys_step sample_closing" using sample_reach by (blast intro: reach_step)
  have closed: "en_closed (sy_engine sample_closing)" by (simp add: sample_closing_def Close_def)
  have workers: "sy_workers sample_closing = [WFetch]"
    by (simp add: sample_closing_def sample_scheduled_def sample_sys_def)
  have "wstep (sy_now sample_closing) ICancel (sy_workers sample_closing ! 0) (sy_engine sample_closing) =
      Some (WExit, sy_engine sample_closing)"
    using closed by (simp add: workers wstep_def cancel_step_def)
  then have "worker_move sample_closing ?s'"
    unfolding worker_move_def
    by (intro exI [of _ 0] exI [of _ ICancel] exI [of _ WExit] exI [of _ "sy_engine sample_closing"])
      (simp add: workers record_call_def)
  then have d: "drains sample_closing (Suc 0) ?s'" by (rule drains_worker [OF drains_none])
  from close_joins_workers [OF r closed d] have "1 \<le> work_left sample_closing" by auto
  with d show ?thesis by (intro exI [of _ ?s']) simp
qed

end
